(* ===== verification/Arc_Prelude.thy ===== *)
theory Arc_Prelude
  imports Main "HOL-Library.Word"
begin

text \<open>
  Shared vocabulary of the Arcana development: the names of the C integer types, the status
  codes of \<^verbatim>\<open>src/common/arcana_common.h\<close>, the invalid-id sentinel, and the generic lemmas on
  lists, options and words that the component theories use.

  Conventions. A C array together with its element count is a HOL list; where the code keeps a
  capacity and the capacity arithmetic matters, the capacity is a separate field. The entity
  ids of the semantic graph (\<^verbatim>\<open>uint32_t\<close> typedefs) are \<^typ>\<open>nat\<close> with the sentinel
  \<^verbatim>\<open>ARC_INVALID_ID\<close> = \<open>2^32 - 1\<close>; integers on which the program computes are words.
  Allocation is assumed to succeed (the code does not check \<^verbatim>\<open>realloc\<close>).
\<close>

unbundle bit_operations_syntax

section \<open>Rewrite collections of the development\<close>

named_theorems buf_simps \<open>contents of a byte buffer after a write\<close>
named_theorems rd_simps \<open>reading back what was written\<close>
named_theorems wf_intros \<open>an operation keeps the invariant of its component\<close>

section \<open>Types and constants of arcana_common.h\<close>

type_synonym u8 = "8 word"
type_synonym u16 = "16 word"
type_synonym u32 = "32 word"
type_synonym u64 = "64 word"
type_synonym i64 = "64 word"

text \<open>An IEEE double is its bit pattern; its operations are in theory \<open>Arc_F64\<close>.\<close>
type_synonym f64 = "64 word"

type_synonym ArcElementId = "64 word"
type_synonym ArcRegionId = nat
type_synonym ArcNodeId = nat
type_synonym ArcPortId = nat
type_synonym ArcEdgeId = nat

definition ARC_INVALID_ID :: nat where
  "ARC_INVALID_ID = 4294967295"

datatype ArcStatus =
    ARC_OK
  | ARC_ERR_ALLOC
  | ARC_ERR_FORMAT
  | ARC_ERR_VERIFY
  | ARC_ERR_RUNTIME
  | ARC_ERR_COMPILE
  | ARC_ERR_IO
  | ARC_YIELD

text \<open>What a call of a C function can come to: a value, an error status handed to the caller, or
  behaviour that the C standard leaves undefined (an access outside an array, an invalid
  conversion). A theorem that excludes \<open>Undef\<close> is a memory-safety statement.\<close>

datatype 'a outcome = Ret 'a | Fail ArcStatus | Undef

text \<open>\<^verbatim>\<open>if (!read(...)) return ARC_ERR_FORMAT;\<close>\<close>

definition need :: "('v \<times> 'r) option \<Rightarrow> ('v \<Rightarrow> 'r \<Rightarrow> 'b outcome) \<Rightarrow> 'b outcome" where
  "need m k = (case m of None \<Rightarrow> Fail ARC_ERR_FORMAT | Some (v, r) \<Rightarrow> k v r)"

text \<open>Sequencing: an error or undefined behaviour ends the computation.\<close>

definition andthen :: "'a outcome \<Rightarrow> ('a \<Rightarrow> 'b outcome) \<Rightarrow> 'b outcome" where
  "andthen m k = (case m of Ret x \<Rightarrow> k x | Fail e \<Rightarrow> Fail e | Undef \<Rightarrow> Undef)"

lemma need_simps [simp]:
  "need None k = Fail ARC_ERR_FORMAT" "need (Some (v, r)) k = k v r"
  by (simp_all add: need_def)

lemma andthen_simps [simp]:
  "andthen (Ret x) k = k x" "andthen (Fail e) k = Fail e" "andthen Undef k = Undef"
  by (simp_all add: andthen_def)

lemma need_Ret: "need m k = Ret x \<longleftrightarrow> (\<exists>v r. m = Some (v, r) \<and> k v r = Ret x)"
  by (auto simp: need_def split: option.splits)

lemma andthen_Ret: "andthen m k = Ret x \<longleftrightarrow> (\<exists>y. m = Ret y \<and> k y = Ret x)"
  by (auto simp: andthen_def split: outcome.splits)

lemma need_Undef: "need m k = Undef \<longleftrightarrow> (\<exists>v r. m = Some (v, r) \<and> k v r = Undef)"
  by (auto simp: need_def split: option.splits)

lemma andthen_Undef: "andthen m k = Undef \<longleftrightarrow> m = Undef \<or> (\<exists>y. m = Ret y \<and> k y = Undef)"
  by (auto simp: andthen_def split: outcome.splits)

text \<open>\<open>safe P m\<close>: the call is defined, and the value it returns, if it returns one, satisfies
  \<open>P\<close>. The rules below take such a goal through a sequence of calls.\<close>

definition safe :: "('a \<Rightarrow> bool) \<Rightarrow> 'a outcome \<Rightarrow> bool" where
  "safe P m \<longleftrightarrow> m \<noteq> Undef \<and> (\<forall>x. m = Ret x \<longrightarrow> P x)"

lemma safe_simps [simp]: "safe P (Ret x) = P x" "safe P (Fail e)" "\<not> safe P Undef"
  by (simp_all add: safe_def)

lemma safe_andthen: "safe Q m \<Longrightarrow> (\<And>x. Q x \<Longrightarrow> safe P (k x)) \<Longrightarrow> safe P (andthen m k)"
  by (cases m) auto

lemma safe_need: "(\<And>v r. m = Some (v, r) \<Longrightarrow> safe P (k v r)) \<Longrightarrow> safe P (need m k)"
  by (auto simp: need_def split: option.splits)

lemma safe_mono: "safe P m \<Longrightarrow> (\<And>x. P x \<Longrightarrow> Q x) \<Longrightarrow> safe Q m"
  by (cases m) auto

section \<open>Characters and bytes\<close>

definition byte_of_char :: "char \<Rightarrow> u8" where
  "byte_of_char c = of_nat (of_char c)"

definition char_of_byte :: "u8 \<Rightarrow> char" where
  "char_of_byte b = char_of (unat b)"

lemma byte_char_bound: "(of_char c :: nat) < 256"
  using of_char_mod_256 [of c, where 'a = nat] by (metis mod_less_divisor zero_less_numeral)

lemma char_of_byte_of_char [simp]: "char_of_byte (byte_of_char c) = c"
proof -
  have "unat (of_nat (of_char c) :: u8) = (of_char c :: nat)"
    using byte_char_bound [of c] by (simp add: unat_of_nat)
  then show ?thesis by (simp add: char_of_byte_def byte_of_char_def)
qed

lemma map_char_of_byte_of_char [simp]:
  "map (char_of_byte \<circ> byte_of_char) s = s"
  by (induction s) auto

section \<open>Lists\<close>

text \<open>Index of the first element with a property: the shape of every lookup loop of the code.\<close>

fun find_index :: "('a \<Rightarrow> bool) \<Rightarrow> 'a list \<Rightarrow> nat option" where
  "find_index P [] = None"
| "find_index P (x # xs) = (if P x then Some 0 else map_option Suc (find_index P xs))"

lemma find_index_None: "find_index P xs = None \<longleftrightarrow> (\<forall>x \<in> set xs. \<not> P x)"
  by (induction xs) auto

lemma find_index_Some:
  "find_index P xs = Some i \<Longrightarrow> i < length xs \<and> P (xs ! i) \<and> (\<forall>j < i. \<not> P (xs ! j))"
proof (induction xs arbitrary: i)
  case Nil
  then show ?case by simp
next
  case (Cons x xs)
  show ?case
  proof (cases "P x")
    case True
    with Cons.prems show ?thesis by simp
  next
    case False
    with Cons.prems obtain k where k: "find_index P xs = Some k" "i = Suc k" by auto
    from Cons.IH [OF k(1)] False k(2) show ?thesis
      by (auto simp: less_Suc_eq_0_disj)
  qed
qed

lemma find_index_Some_less: "find_index P xs = Some i \<Longrightarrow> i < length xs"
  by (drule find_index_Some) blast

lemma find_index_Some_P: "find_index P xs = Some i \<Longrightarrow> P (xs ! i)"
  by (drule find_index_Some) blast

lemma find_index_unique:
  assumes "i < length xs" "P (xs ! i)" "\<And>j. j < length xs \<Longrightarrow> P (xs ! j) \<Longrightarrow> j = i"
  shows "find_index P xs = Some i"
proof (cases "find_index P xs")
  case None
  with assms(1,2) show ?thesis by (auto simp: find_index_None)
next
  case (Some k)
  with assms(3) show ?thesis by (auto dest: find_index_Some)
qed

lemma find_index_append_None:
  "find_index P xs = None \<Longrightarrow> find_index P (xs @ [x]) = (if P x then Some (length xs) else None)"
  by (induction xs) (auto split: if_splits)

text \<open>The elements of a list that survive an update at one index.\<close>

lemma nth_list_update_cases:
  "i < length xs \<Longrightarrow> xs[i := v] ! j = (if j = i then v else xs ! j)"
  by (cases "j = i") auto

lemma set_list_update_subset: "set (xs[i := v]) \<subseteq> insert v (set xs)"
  by (rule set_update_subset_insert)

section \<open>Words\<close>

lemma ucast_and_255 [simp]:
  "ucast ((w :: 'a::len word) AND 255) = (ucast w :: u8)"
proof -
  have "(255 :: 'a word) = mask 8" by (simp add: mask_eq_exp_minus_1)
  then have "w AND 255 = take_bit 8 w" by (simp add: take_bit_eq_mask)
  then show ?thesis by (auto intro!: bit_word_eqI simp: bit_simps)
qed

lemma unat_less_256: "unat (x :: u8) < 256"
  using unsigned_less [of x] by simp

lemma unat_less_65536: "unat (x :: u16) < 65536"
  using unsigned_less [of x] by simp

lemma unat_less_4294967296: "unat (x :: u32) < 4294967296"
  using unsigned_less [of x] by simp

lemma unat_of_nat_u16 [simp]: "n < 65536 \<Longrightarrow> unat (of_nat n :: u16) = n"
  by (simp add: unat_of_nat)

lemma unat_of_nat_u32 [simp]: "n < 4294967296 \<Longrightarrow> unat (of_nat n :: u32) = n"
  by (simp add: unat_of_nat)

end
