(* ===== verification/Arc_Common.thy ===== *)
theory Arc_Common
  imports Arc_Prelude
begin

text \<open>
  The dynamic byte buffer \<^verbatim>\<open>ArcBuf\<close> and the little-endian readers of
  \<^verbatim>\<open>src/common/arcana_common.h\<close>. A buffer is its bytes and its capacity; the doubling growth
  of \<^verbatim>\<open>arc_buf_push\<close> is modelled, and \<open>buf_wf\<close> (the length never passes the capacity) is kept
  by every write. Each multi-byte write appends its little-endian encoding, and the readers
  invert it.
\<close>

section \<open>ArcBuf\<close>

record ArcBuf =
  buf_data :: "u8 list"
  buf_cap :: nat

definition arc_buf_init :: ArcBuf where
  "arc_buf_init = \<lparr>buf_data = [], buf_cap = 0\<rparr>"

definition arc_buf_free :: "ArcBuf \<Rightarrow> ArcBuf" where
  "arc_buf_free b = b\<lparr>buf_data := [], buf_cap := 0\<rparr>"

definition arc_buf_push :: "ArcBuf \<Rightarrow> u8 \<Rightarrow> ArcBuf" where
  "arc_buf_push b byte =
     (let b1 = (if buf_cap b \<le> length (buf_data b)
                then b\<lparr>buf_cap := (if buf_cap b < 64 then 64 else buf_cap b * 2)\<rparr> else b)
      in b1\<lparr>buf_data := buf_data b1 @ [byte]\<rparr>)"

definition arc_buf_push_u16 :: "ArcBuf \<Rightarrow> u16 \<Rightarrow> ArcBuf" where
  "arc_buf_push_u16 b v =
     arc_buf_push (arc_buf_push b (ucast (v AND 0xFF))) (ucast (drop_bit 8 v))"

text \<open>\<^verbatim>\<open>arc_buf_push_i32\<close>: the signed argument is reinterpreted as \<^verbatim>\<open>uint32_t\<close> at once, so the
  model takes the 32-bit pattern.\<close>

definition arc_buf_push_i32 :: "ArcBuf \<Rightarrow> u32 \<Rightarrow> ArcBuf" where
  "arc_buf_push_i32 b u =
     arc_buf_push (arc_buf_push (arc_buf_push (arc_buf_push b
       (ucast (u AND 0xFF)))
       (ucast (drop_bit 8 u AND 0xFF)))
       (ucast (drop_bit 16 u AND 0xFF)))
       (ucast (drop_bit 24 u AND 0xFF))"

definition buf_wf :: "ArcBuf \<Rightarrow> bool" where
  "buf_wf b \<longleftrightarrow> length (buf_data b) \<le> buf_cap b"

section \<open>Little-endian readers\<close>

definition arc_read_u16 :: "u8 list \<Rightarrow> nat \<Rightarrow> u16" where
  "arc_read_u16 p i = ucast (p ! i) OR push_bit 8 (ucast (p ! (i + 1)))"

definition arc_read_i32 :: "u8 list \<Rightarrow> nat \<Rightarrow> u32" where
  "arc_read_i32 p i =
     ucast (p ! i) OR push_bit 8 (ucast (p ! (i + 1))) OR
     push_bit 16 (ucast (p ! (i + 2))) OR push_bit 24 (ucast (p ! (i + 3)))"

section \<open>What a write appends\<close>

definition le_u16 :: "u16 \<Rightarrow> u8 list" where
  "le_u16 v = [ucast (v AND 0xFF), ucast (drop_bit 8 v)]"

definition le_u32 :: "u32 \<Rightarrow> u8 list" where
  "le_u32 u = [ucast (u AND 0xFF), ucast (drop_bit 8 u AND 0xFF),
     ucast (drop_bit 16 u AND 0xFF), ucast (drop_bit 24 u AND 0xFF)]"

lemma buf_init_data [buf_simps, simp]: "buf_data arc_buf_init = []"
  by (simp add: arc_buf_init_def)

lemma buf_push_data [buf_simps]: "buf_data (arc_buf_push b x) = buf_data b @ [x]"
  by (simp add: arc_buf_push_def Let_def)

lemma buf_push_u16_data [buf_simps]: "buf_data (arc_buf_push_u16 b v) = buf_data b @ le_u16 v"
  by (simp add: arc_buf_push_u16_def le_u16_def buf_push_data)

lemma buf_push_i32_data [buf_simps]: "buf_data (arc_buf_push_i32 b v) = buf_data b @ le_u32 v"
  by (simp add: arc_buf_push_i32_def le_u32_def buf_push_data)

lemma length_le_u16 [simp]: "length (le_u16 v) = 2"
  by (simp add: le_u16_def)

lemma length_le_u32 [simp]: "length (le_u32 v) = 4"
  by (simp add: le_u32_def)

lemma buf_wf_init [wf_intros]: "buf_wf arc_buf_init"
  by (simp add: buf_wf_def arc_buf_init_def)

lemma buf_wf_push [wf_intros]: "buf_wf b \<Longrightarrow> buf_wf (arc_buf_push b x)"
  by (auto simp: buf_wf_def arc_buf_push_def Let_def)

lemma buf_wf_push_u16 [wf_intros]: "buf_wf b \<Longrightarrow> buf_wf (arc_buf_push_u16 b v)"
  by (simp add: arc_buf_push_u16_def wf_intros)

lemma buf_wf_push_i32 [wf_intros]: "buf_wf b \<Longrightarrow> buf_wf (arc_buf_push_i32 b v)"
  by (simp add: arc_buf_push_i32_def wf_intros)

section \<open>Reading back\<close>

lemma u16_of_le: "ucast (ucast v :: u8) OR push_bit 8 (ucast (ucast (drop_bit 8 v) :: u8)) = (v :: u16)" (is "?l = v")
proof (rule bit_word_eqI)
  fix n assume "n < LENGTH(16)"
  then show "bit ?l n = bit v n"
    by (cases "n < 8") (auto simp: bit_simps)
qed

lemma u32_of_le:
  "ucast (ucast u :: u8) OR push_bit 8 (ucast (ucast (drop_bit 8 u) :: u8)) OR
   push_bit 16 (ucast (ucast (drop_bit 16 u) :: u8)) OR
   push_bit 24 (ucast (ucast (drop_bit 24 u) :: u8)) = (u :: u32)" (is "?l = u")
proof (rule bit_word_eqI)
  fix n assume "n < LENGTH(32)"
  then consider "n < 8" | "8 \<le> n" "n < 16" | "16 \<le> n" "n < 24" | "24 \<le> n" "n < 32" by fastforce
  then show "bit ?l n = bit u n" by cases (auto simp: bit_simps)
qed

lemma read_u16_le [rd_simps]: "arc_read_u16 (le_u16 v @ r) 0 = v"
  by (simp add: arc_read_u16_def le_u16_def u16_of_le)

lemma read_i32_le [rd_simps]: "arc_read_i32 (le_u32 v @ r) 0 = v"
  by (simp add: arc_read_i32_def le_u32_def u32_of_le)

end
