(* ===== verification/Arc_F64.thy ===== *)
theory Arc_F64
  imports Arc_Prelude
begin

text \<open>
  The C type \<^verbatim>\<open>double\<close> as the program uses it: a 64-bit IEEE 754 pattern with the
  comparisons, arithmetic, conversions, \<^verbatim>\<open>sqrt\<close>, \<^verbatim>\<open>fabs\<close> and \<^verbatim>\<open>fmod\<close> that the sources call,
  rounding to nearest with ties to even. A finite pattern stands for
  \<open>(-1)^sign * f64_man * 2^f64_q\<close>; arithmetic computes the exact result over the integers
  and rounds it once with \<open>f64_round\<close>. Where IEEE 754 leaves the sign and payload of a NaN
  result open the model returns one quiet NaN. \<open>f64_to_i64\<close> is \<^term>\<open>None\<close> where the C
  conversion is undefined (a NaN or a value out of range).
\<close>

section \<open>Fields of a pattern\<close>

definition f64_sign :: "f64 \<Rightarrow> bool" where
  "f64_sign b = bit b 63"

definition f64_mag :: "f64 \<Rightarrow> nat" where
  "f64_mag b = unat b mod 2 ^ 63"

definition f64_exp :: "f64 \<Rightarrow> nat" where
  "f64_exp b = f64_mag b div 2 ^ 52"

definition f64_frac :: "f64 \<Rightarrow> nat" where
  "f64_frac b = f64_mag b mod 2 ^ 52"

definition f64_is_nan :: "f64 \<Rightarrow> bool" where
  "f64_is_nan b \<longleftrightarrow> f64_exp b = 2047 \<and> f64_frac b \<noteq> 0"

definition f64_is_inf :: "f64 \<Rightarrow> bool" where
  "f64_is_inf b \<longleftrightarrow> f64_exp b = 2047 \<and> f64_frac b = 0"

definition f64_is_zero :: "f64 \<Rightarrow> bool" where
  "f64_is_zero b \<longleftrightarrow> f64_mag b = 0"

definition f64_man :: "f64 \<Rightarrow> nat" where
  "f64_man b = (if f64_exp b = 0 then f64_frac b else f64_frac b + 2 ^ 52)"

definition f64_q :: "f64 \<Rightarrow> int" where
  "f64_q b = (if f64_exp b = 0 then -1074 else int (f64_exp b) - 1075)"

definition f64_qnan :: f64 where
  "f64_qnan = 0x7FF8000000000000"

definition f64_make :: "bool \<Rightarrow> nat \<Rightarrow> f64" where
  "f64_make s mag = of_nat ((if s then 2 ^ 63 else 0) + mag)"

definition f64_inf :: "bool \<Rightarrow> f64" where
  "f64_inf s = f64_make s (2047 * 2 ^ 52)"

definition f64_zero :: "bool \<Rightarrow> f64" where
  "f64_zero s = f64_make s 0"

section \<open>Comparison\<close>

text \<open>The signed magnitude orders the non-NaN patterns.\<close>

definition f64_key :: "f64 \<Rightarrow> int" where
  "f64_key b = (if f64_sign b then - int (f64_mag b) else int (f64_mag b))"

definition f64_eq :: "f64 \<Rightarrow> f64 \<Rightarrow> bool" where
  "f64_eq a b \<longleftrightarrow> \<not> f64_is_nan a \<and> \<not> f64_is_nan b \<and> f64_key a = f64_key b"

definition f64_lt :: "f64 \<Rightarrow> f64 \<Rightarrow> bool" where
  "f64_lt a b \<longleftrightarrow> \<not> f64_is_nan a \<and> \<not> f64_is_nan b \<and> f64_key a < f64_key b"

definition f64_le :: "f64 \<Rightarrow> f64 \<Rightarrow> bool" where
  "f64_le a b \<longleftrightarrow> \<not> f64_is_nan a \<and> \<not> f64_is_nan b \<and> f64_key a \<le> f64_key b"

section \<open>Rounding\<close>

fun bitlen :: "nat \<Rightarrow> nat" where
  "bitlen n = (if n = 0 then 0 else Suc (bitlen (n div 2)))"

declare bitlen.simps [simp del]

text \<open>\<open>f64_round s m q\<close> is the pattern nearest to \<open>(-1)^s * m * 2^q\<close>, ties to even. The
  unit in the last place of the result is \<open>2^u\<close>.\<close>

definition f64_ulp :: "nat \<Rightarrow> int \<Rightarrow> int" where
  "f64_ulp m q = max (q + int (bitlen m) - 53) (-1074)"

definition round_div :: "nat \<Rightarrow> nat \<Rightarrow> nat" where
  "round_div m k =
     (let d = m div 2 ^ k; r = m mod 2 ^ k; half = 2 ^ (k - 1)
      in if half < r \<or> (r = half \<and> odd d) then Suc d else d)"

definition f64_round :: "bool \<Rightarrow> nat \<Rightarrow> int \<Rightarrow> f64" where
  "f64_round s m q =
     (if m = 0 then f64_zero s
      else let u = f64_ulp m q;
               d = (if u \<le> q then m * 2 ^ nat (q - u) else round_div m (nat (u - q)));
               mag = nat (u + 1074) * 2 ^ 52 + d
           in if 2047 * 2 ^ 52 \<le> mag then f64_inf s else f64_make s mag)"

section \<open>Arithmetic\<close>

definition f64_neg :: "f64 \<Rightarrow> f64" where
  "f64_neg b = b XOR 0x8000000000000000"

definition f64_abs :: "f64 \<Rightarrow> f64" where
  "f64_abs b = b AND 0x7FFFFFFFFFFFFFFF"

definition f64_signed_man :: "f64 \<Rightarrow> int" where
  "f64_signed_man b = (if f64_sign b then - int (f64_man b) else int (f64_man b))"

definition f64_add :: "f64 \<Rightarrow> f64 \<Rightarrow> f64" where
  "f64_add a b =
     (if f64_is_nan a \<or> f64_is_nan b then f64_qnan
      else if f64_is_inf a then
        (if f64_is_inf b \<and> f64_sign a \<noteq> f64_sign b then f64_qnan else a)
      else if f64_is_inf b then b
      else let q = min (f64_q a) (f64_q b);
               x = f64_signed_man a * 2 ^ nat (f64_q a - q) + f64_signed_man b * 2 ^ nat (f64_q b - q)
           in if x = 0 then f64_zero (f64_sign a \<and> f64_sign b)
              else f64_round (x < 0) (nat \<bar>x\<bar>) q)"

definition f64_sub :: "f64 \<Rightarrow> f64 \<Rightarrow> f64" where
  "f64_sub a b = f64_add a (f64_neg b)"

definition f64_mul :: "f64 \<Rightarrow> f64 \<Rightarrow> f64" where
  "f64_mul a b =
     (let s = (f64_sign a \<noteq> f64_sign b)
      in if f64_is_nan a \<or> f64_is_nan b then f64_qnan
         else if f64_is_inf a \<or> f64_is_inf b then
           (if f64_is_zero a \<or> f64_is_zero b then f64_qnan else f64_inf s)
         else f64_round s (f64_man a * f64_man b) (f64_q a + f64_q b))"

text \<open>A quotient is computed with 120 extra bits and a sticky bit, which is more than the 55
  bits that rounding looks at.\<close>

definition f64_div :: "f64 \<Rightarrow> f64 \<Rightarrow> f64" where
  "f64_div a b =
     (let s = (f64_sign a \<noteq> f64_sign b)
      in if f64_is_nan a \<or> f64_is_nan b then f64_qnan
         else if f64_is_inf a then (if f64_is_inf b then f64_qnan else f64_inf s)
         else if f64_is_inf b then f64_zero s
         else if f64_is_zero b then (if f64_is_zero a then f64_qnan else f64_inf s)
         else let n = f64_man a * 2 ^ 120; d = n div f64_man b;
                  sticky = (if n mod f64_man b = 0 then 0 else 1)
              in f64_round s (2 * d + sticky) (f64_q a - f64_q b - 121))"

text \<open>The C library's \<^verbatim>\<open>fmod\<close> is exact.\<close>

definition f64_fmod :: "f64 \<Rightarrow> f64 \<Rightarrow> f64" where
  "f64_fmod a b =
     (if f64_is_nan a \<or> f64_is_nan b \<or> f64_is_inf a \<or> f64_is_zero b then f64_qnan
      else if f64_is_inf b then a
      else let q = min (f64_q a) (f64_q b);
               x = f64_man a * 2 ^ nat (f64_q a - q); y = f64_man b * 2 ^ nat (f64_q b - q)
           in f64_round (f64_sign a) (x mod y) q)"

text \<open>Integer square root by bits, from the bit \<open>2^n\<close> down.\<close>

fun isqrt_bits :: "nat \<Rightarrow> nat \<Rightarrow> nat \<Rightarrow> nat" where
  "isqrt_bits 0 r m = (if (r + 1) * (r + 1) \<le> m then r + 1 else r)"
| "isqrt_bits (Suc n) r m =
     (let r' = r + 2 ^ Suc n in isqrt_bits n (if r' * r' \<le> m then r' else r) m)"

definition isqrt :: "nat \<Rightarrow> nat" where
  "isqrt m = isqrt_bits (bitlen m div 2) 0 m"

definition f64_sqrt :: "f64 \<Rightarrow> f64" where
  "f64_sqrt b =
     (if f64_is_nan b then f64_qnan
      else if f64_is_zero b then b
      else if f64_sign b then f64_qnan
      else if f64_is_inf b then b
      else let m = (if even (f64_q b) then f64_man b else 2 * f64_man b);
               q = (if even (f64_q b) then f64_q b else f64_q b - 1);
               n = m * 2 ^ 120; r = isqrt n;
               sticky = (if r * r = n then 0 else 1)
           in f64_round False (2 * r + sticky) (q div 2 - 61))"

section \<open>Conversions\<close>

definition f64_of_i64 :: "i64 \<Rightarrow> f64" where
  "f64_of_i64 v = f64_round (sint v < 0) (nat \<bar>sint v\<bar>) 0"

definition f64_trunc :: "f64 \<Rightarrow> int" where
  "f64_trunc b =
     (let m = (if 0 \<le> f64_q b then f64_man b * 2 ^ nat (f64_q b) else f64_man b div 2 ^ nat (- f64_q b))
      in if f64_sign b then - int m else int m)"

definition f64_to_i64 :: "f64 \<Rightarrow> i64 option" where
  "f64_to_i64 b =
     (if f64_is_nan b \<or> f64_is_inf b then None
      else let t = f64_trunc b
           in if - (2 ^ 63) \<le> t \<and> t < 2 ^ 63 then Some (of_int t) else None)"

section \<open>Lemmas\<close>

lemma f64_mag_less: "f64_mag b < 2 ^ 63"
  by (simp add: f64_mag_def)

lemma f64_exp_frac: "f64_mag b = f64_exp b * 2 ^ 52 + f64_frac b"
  by (simp add: f64_exp_def f64_frac_def)

lemma f64_frac_less: "f64_frac b < 2 ^ 52"
  by (simp add: f64_frac_def)

lemma f64_eq_refl: "f64_eq a a \<longleftrightarrow> \<not> f64_is_nan a"
  by (simp add: f64_eq_def)

lemma f64_eq_sym: "f64_eq a b \<longleftrightarrow> f64_eq b a"
  by (auto simp: f64_eq_def)

lemma f64_eq_trans: "f64_eq a b \<Longrightarrow> f64_eq b c \<Longrightarrow> f64_eq a c"
  by (simp add: f64_eq_def)

lemma f64_trichotomy:
  "\<not> f64_is_nan a \<Longrightarrow> \<not> f64_is_nan b \<Longrightarrow> f64_lt a b \<or> f64_eq a b \<or> f64_lt b a"
  by (auto simp: f64_lt_def f64_eq_def)

lemma f64_lt_trans: "f64_lt a b \<Longrightarrow> f64_lt b c \<Longrightarrow> f64_lt a c"
  by (auto simp: f64_lt_def)

lemma f64_lt_irrefl: "\<not> f64_lt a a"
  by (simp add: f64_lt_def)

lemma bitlen_bounds: "0 < n \<Longrightarrow> 2 ^ (bitlen n - 1) \<le> n \<and> n < 2 ^ bitlen n"
proof (induction n rule: bitlen.induct)
  case (1 n)
  show ?case
  proof (cases "n = 1")
    case True
    then show ?thesis by (simp add: bitlen.simps)
  next
    case False
    with "1.prems" have pos: "0 < n div 2" and n: "n \<noteq> 0" by auto
    with "1.IH" have IH: "2 ^ (bitlen (n div 2) - 1) \<le> n div 2" "n div 2 < 2 ^ bitlen (n div 2)" by auto
    have "0 < bitlen (n div 2)" using pos by (simp add: bitlen.simps)
    then obtain k where k: "bitlen (n div 2) = Suc k" by (cases "bitlen (n div 2)") auto
    have "bitlen n = Suc (Suc k)" using n k by (simp add: bitlen.simps [of n])
    with IH k show ?thesis by auto
  qed
qed

lemma bitlen_eqI:
  assumes "2 ^ k \<le> n" "n < 2 ^ Suc k"
  shows "bitlen n = Suc k"
proof -
  have pos: "0 < n" using assms(1) by (metis less_le_trans zero_less_numeral zero_less_power)
  note b = bitlen_bounds [OF pos]
  have "(2::nat) ^ k < 2 ^ bitlen n" using assms(1) b by linarith
  then have "k < bitlen n" by simp
  moreover have "(2::nat) ^ (bitlen n - 1) < 2 ^ Suc k" using assms(2) b by linarith
  then have "bitlen n - 1 < Suc k" by (rule power_less_imp_less_exp [rotated]) simp
  ultimately show ?thesis by linarith
qed

lemma bitlen_le: "n < 2 ^ k \<Longrightarrow> bitlen n \<le> k"
proof (rule ccontr)
  assume n: "n < 2 ^ k" and "\<not> bitlen n \<le> k"
  then have k: "k \<le> bitlen n - 1" "0 < bitlen n" by auto
  then have "0 < n" by (metis bitlen.simps not_gr_zero)
  from bitlen_bounds [OF this] have "2 ^ (bitlen n - 1) \<le> n" by simp
  moreover have "(2::nat) ^ k \<le> 2 ^ (bitlen n - 1)" using k(1) by simp
  ultimately show False using n by linarith
qed

lemma f64_sign_iff: "f64_sign b \<longleftrightarrow> 2 ^ 63 \<le> unat b"
proof -
  have "bit b 63 = bit (unat b) 63" by (simp add: bit_unsigned_iff)
  then have *: "bit b 63 \<longleftrightarrow> odd (unat b div 2 ^ 63)" by (simp add: bit_iff_odd)
  have lt: "unat b < 2 ^ 64" using unsigned_less [of b] by simp
  show ?thesis
  proof (cases "2 ^ 63 \<le> unat b")
    case True
    with lt have "unat b div 2 ^ 63 = 1" by (intro div_nat_eqI) auto
    with * True show ?thesis by (simp add: f64_sign_def)
  next
    case False
    then have "unat b div 2 ^ 63 = 0" by simp
    with * False show ?thesis by (simp add: f64_sign_def)
  qed
qed

lemma f64_make_sign_mag: "f64_make (f64_sign b) (f64_mag b) = b"
proof -
  have lt: "unat b < 2 ^ 64" using unsigned_less [of b] by simp
  have "(if f64_sign b then 2 ^ 63 else 0) + f64_mag b = unat b"
  proof (cases "2 ^ 63 \<le> unat b")
    case True
    with lt have "unat b mod 2 ^ 63 = unat b - 2 ^ 63" by (simp add: le_mod_geq)
    with True show ?thesis by (simp add: f64_sign_iff f64_mag_def)
  next
    case False
    then show ?thesis by (simp add: f64_sign_iff f64_mag_def)
  qed
  then show ?thesis by (simp add: f64_make_def del: of_nat_add)
qed

text \<open>Rounding a value that a finite pattern represents gives the pattern back.\<close>

lemma f64_round_at_ulp:
  assumes "m \<noteq> 0" "f64_ulp m q = q" "nat (q + 1074) * 2 ^ 52 + m = mag" "\<not> 2047 * 2 ^ 52 \<le> mag"
  shows "f64_round s m q = f64_make s mag"
proof -
  have "m * 2 ^ nat (q - q) = m" by simp
  with assms show ?thesis unfolding f64_round_def Let_def
    by (simp only: if_False order.refl if_True assms)
qed

lemma f64_round_exact:
  assumes fin: "f64_exp b < 2047"
  shows "f64_round (f64_sign b) (f64_man b) (f64_q b) = b"
proof (cases "f64_mag b = 0")
  case True
  then have "f64_man b = 0" by (simp add: f64_man_def f64_exp_def f64_frac_def)
  with True f64_make_sign_mag [of b] show ?thesis by (simp add: f64_round_def f64_zero_def)
next
  case False
  note fr = f64_frac_less [of b] and ef = f64_exp_frac [of b]
  have "f64_exp b * 2 ^ 52 \<le> 2046 * 2 ^ 52" using fin by simp
  then have lt: "\<not> 2047 * 2 ^ 52 \<le> f64_mag b" using ef fr by linarith
  have "f64_man b \<noteq> 0 \<and> f64_ulp (f64_man b) (f64_q b) = f64_q b \<and>
        nat (f64_q b + 1074) * 2 ^ 52 + f64_man b = f64_mag b"
  proof (cases "f64_exp b = 0")
    case True
    with ef False have f: "f64_frac b = f64_mag b" by simp
    have "bitlen (f64_frac b) \<le> 52" using fr by (rule bitlen_le)
    with True f False show ?thesis by (simp add: f64_ulp_def f64_man_def f64_q_def)
  next
    case exp: False
    have "bitlen (f64_man b) = Suc 52"
      by (rule bitlen_eqI) (use exp fr in \<open>auto simp: f64_man_def\<close>)
    moreover have "nat (f64_q b + 1074) = f64_exp b - 1" using exp by (simp add: f64_q_def)
    moreover have "(f64_exp b - 1) * 2 ^ 52 + (f64_frac b + 2 ^ 52) = f64_mag b"
      using exp ef by (cases "f64_exp b") auto
    ultimately show ?thesis using exp by (simp add: f64_ulp_def f64_q_def f64_man_def)
  qed
  then have "f64_round (f64_sign b) (f64_man b) (f64_q b) = f64_make (f64_sign b) (f64_mag b)"
    using lt by (blast intro: f64_round_at_ulp)
  then show ?thesis by (simp only: f64_make_sign_mag)
qed

end
