(* ===== verification/Dyn_Array.thy ===== *)
theory Dyn_Array
  imports Arc_Prelude
begin

text \<open>
  The growable arrays of the bytecode container (\<^verbatim>\<open>ArcConstPool\<close>, \<^verbatim>\<open>ArcFuncTable\<close>,
  \<^verbatim>\<open>ArcDebugTable\<close>): a pointer, an element count and a capacity of a fixed integer width that
  doubles when the array is full. The doubling is done at that width, so it wraps; storing an
  element past the capacity is undefined behaviour. \<open>dyn_wf\<close> is the invariant of such an array,
  and it is kept as long as fewer than half of the index range is used, which is exactly when
  the doubling does not wrap.
\<close>

record ('a, 'c) dynarr =
  items :: "'a list"
  cap :: 'c

definition dyn_empty :: "('a, 'l::len word) dynarr" where
  "dyn_empty = \<lparr>items = [], cap = 0\<rparr>"

definition grow_cap :: "'l::len word \<Rightarrow> 'l word \<Rightarrow> 'l word" where
  "grow_cap init c = (if c < init then init else c * 2)"

text \<open>\<^verbatim>\<open>if (count >= cap) grow; data[count++] = x;\<close> The value is the array after the store and
  the index that was written.\<close>

definition dyn_push :: "'l::len word \<Rightarrow> ('a, 'l word) dynarr \<Rightarrow> 'a \<Rightarrow> (nat \<times> ('a, 'l word) dynarr) outcome" where
  "dyn_push init d x =
     (let n = length (items d);
          c = (if unat (cap d) \<le> n then grow_cap init (cap d) else cap d)
      in if n < unat c then Ret (n, \<lparr>items = items d @ [x], cap = c\<rparr>) else Undef)"

text \<open>The capacity is zero or the initial capacity doubled some number of times.\<close>

definition dyn_wf :: "nat \<Rightarrow> ('a, 'l::len word) dynarr \<Rightarrow> bool" where
  "dyn_wf j d \<longleftrightarrow> length (items d) \<le> unat (cap d) \<and>
     (unat (cap d) = 0 \<or> (\<exists>k \<ge> j. k < LENGTH('l) \<and> unat (cap d) = 2 ^ k))"

lemma dyn_wf_empty [wf_intros]: "dyn_wf j dyn_empty"
  by (simp add: dyn_wf_def dyn_empty_def)

lemma items_dyn_empty [simp]: "items dyn_empty = []"
  by (simp add: dyn_empty_def)

lemma unat_two_power: "k < LENGTH('l) \<Longrightarrow> unat (2 ^ k :: 'l::len word) = 2 ^ k"
proof -
  assume "k < LENGTH('l)"
  then have "(2::nat) ^ k < 2 ^ LENGTH('l)" by simp
  moreover have "(2 ^ k :: 'l word) = of_nat (2 ^ k)" by simp
  ultimately show ?thesis by (metis unat_of_nat mod_less)
qed

lemma grow_cap_doubles:
  assumes j: "j < LENGTH('l::len)" and c: "unat (c :: 'l word) = 2 ^ k" "j \<le> k" "Suc k < LENGTH('l)"
  shows "unat (grow_cap (2 ^ j) c) = 2 ^ Suc k"
proof -
  have "c = 2 ^ k" using c(1,3) unat_two_power [of k, where 'l = 'l] by (simp add: word_unat_eq_iff)
  moreover from this have "\<not> c < 2 ^ j"
    using c(2,3) j by (simp add: word_less_nat_alt unat_two_power)
  moreover have "(2 ^ k :: 'l word) * 2 = 2 ^ Suc k" by simp
  ultimately show ?thesis using c(3) by (simp add: grow_cap_def unat_two_power del: power_Suc)
qed

text \<open>A push into an array with less than half of its index range in use stores the element
  and keeps the invariant.\<close>

lemma dyn_push_ok:
  fixes d :: "('a, 'l::len word) dynarr"
  assumes wf: "dyn_wf j d" and j: "j < LENGTH('l)" and room: "length (items d) < 2 ^ (LENGTH('l) - 1)"
  shows "\<exists>d'. dyn_push (2 ^ j) d x = Ret (length (items d), d') \<and> items d' = items d @ [x] \<and> dyn_wf j d'"
proof -
  let ?n = "length (items d)"
  consider (fits) "?n < unat (cap d)" | (zero) "unat (cap d) = 0" "?n = 0"
    | (full) k where "j \<le> k" "k < LENGTH('l)" "unat (cap d) = 2 ^ k" "?n = 2 ^ k"
    using wf by (fastforce simp: dyn_wf_def)
  then show ?thesis
  proof cases
    case fits
    with wf show ?thesis by (auto simp: dyn_push_def dyn_wf_def)
  next
    case zero
    then have "cap d = 0" by (simp add: unat_eq_0)
    moreover have "grow_cap (2 ^ j) (0 :: 'l word) = 2 ^ j"
      using j by (simp add: grow_cap_def word_less_nat_alt unat_two_power)
    ultimately have "unat (grow_cap (2 ^ j) (cap d)) = 2 ^ j" using j by (simp add: unat_two_power)
    with zero j show ?thesis by (auto simp: dyn_push_def dyn_wf_def Let_def)
  next
    case full
    have "(2::nat) ^ k < 2 ^ (LENGTH('l) - 1)" using room full(4) by simp
    then have k: "Suc k < LENGTH('l)" by (simp add: less_diff_conv)
    have g: "unat (grow_cap (2 ^ j) (cap d)) = 2 ^ Suc k"
      using j full(3) full(1) k by (rule grow_cap_doubles)
    have "dyn_push (2 ^ j) d x = Ret (?n, \<lparr>items = items d @ [x], cap = grow_cap (2 ^ j) (cap d)\<rparr>)"
      using g full(3,4) by (simp add: dyn_push_def Let_def)
    moreover have "dyn_wf j \<lparr>items = items d @ [x], cap = grow_cap (2 ^ j) (cap d)\<rparr>"
      using g full(1,4) k by (auto simp: dyn_wf_def intro!: exI [of _ "Suc k"])
    ultimately show ?thesis by auto
  qed
qed

text \<open>At half of the index range the doubled capacity wraps to zero, and the store is out of
  bounds.\<close>

lemma dyn_push_wraps:
  fixes d :: "('a, 'l::len word) dynarr"
  assumes "1 < LENGTH('l)" "length (items d) = 2 ^ (LENGTH('l) - 1)" "unat (cap d) = 2 ^ (LENGTH('l) - 1)"
    and "j < LENGTH('l)"
  shows "dyn_push (2 ^ j) d x = Undef"
proof -
  have "cap d = 2 ^ (LENGTH('l) - 1)"
    using assms(3) unat_two_power [of "LENGTH('l) - 1", where 'l = 'l] by (simp add: word_unat_eq_iff)
  moreover have "(2 :: 'l word) ^ (LENGTH('l) - 1) * 2 = 0"
    using assms(1) by (metis Suc_diff_1 len_gt_0 mult.commute power_Suc word_exp_length_eq_0)
  moreover have "\<not> (2 :: 'l word) ^ (LENGTH('l) - 1) < 2 ^ j"
    using assms(4) by (simp add: word_less_nat_alt unat_two_power)
  ultimately show ?thesis using assms by (simp add: dyn_push_def grow_cap_def Let_def)
qed

end
