(* ===== verification/Bytecode_Format.thy ===== *)
theory Bytecode_Format
  imports Arc_Common Arc_F64 Dyn_Array
begin

text \<open>
  The \<^verbatim>\<open>.mgc\<close> bytecode container: \<^verbatim>\<open>src/bytecode/format.h\<close> and \<^verbatim>\<open>src/bytecode/format.c\<close>.
  The constant pool interns its entries under C equality (so \<^verbatim>\<open>0.0\<close> and \<^verbatim>\<open>-0.0\<close> share an
  entry and a NaN is never shared); the writer appends the little-endian encoding of every
  section to an \<^typ>\<open>ArcBuf\<close>; the reader consumes the bytes that are left and fails with
  \<^const>\<open>ARC_ERR_FORMAT\<close> when a field does not fit. Strings are lists of characters with their
  length, as in the code, so they may hold zero bytes.
\<close>

section \<open>Constant pool\<close>

datatype ArcConstant =
    ARC_CONST_NULL
  | ARC_CONST_BOOL bool
  | ARC_CONST_I64 i64
  | ARC_CONST_F64 f64
  | ARC_CONST_STRING string

type_synonym ArcConstPool = "(ArcConstant, u16) dynarr"

definition arc_const_pool_init :: ArcConstPool where
  "arc_const_pool_init = dyn_empty"

text \<open>Releasing a table leaves the empty table.\<close>

definition arc_const_pool_free :: "ArcConstPool \<Rightarrow> ArcConstPool" where
  "arc_const_pool_free p = p\<lparr>items := [], cap := 0\<rparr>"

text \<open>\<^verbatim>\<open>pool_grow\<close> together with the store of the new entry.\<close>

definition pool_grow :: "ArcConstPool \<Rightarrow> ArcConstant \<Rightarrow> (nat \<times> ArcConstPool) outcome" where
  "pool_grow p c = dyn_push 16 p c"

text \<open>The search loop shared by the five \<^verbatim>\<open>arc_const_pool_add_*\<close> functions.\<close>

definition pool_intern ::
  "(ArcConstant \<Rightarrow> bool) \<Rightarrow> ArcConstPool \<Rightarrow> ArcConstant \<Rightarrow> (nat \<times> ArcConstPool) outcome" where
  "pool_intern same p c =
     (case find_index same (items p) of Some i \<Rightarrow> Ret (i, p) | None \<Rightarrow> pool_grow p c)"

definition arc_const_pool_add_null :: "ArcConstPool \<Rightarrow> (nat \<times> ArcConstPool) outcome" where
  "arc_const_pool_add_null p = pool_intern (\<lambda>e. e = ARC_CONST_NULL) p ARC_CONST_NULL"

definition arc_const_pool_add_bool :: "ArcConstPool \<Rightarrow> bool \<Rightarrow> (nat \<times> ArcConstPool) outcome" where
  "arc_const_pool_add_bool p v =
     pool_intern (\<lambda>e. case e of ARC_CONST_BOOL b \<Rightarrow> b = v | _ \<Rightarrow> False) p (ARC_CONST_BOOL v)"

definition arc_const_pool_add_i64 :: "ArcConstPool \<Rightarrow> i64 \<Rightarrow> (nat \<times> ArcConstPool) outcome" where
  "arc_const_pool_add_i64 p v =
     pool_intern (\<lambda>e. case e of ARC_CONST_I64 i \<Rightarrow> i = v | _ \<Rightarrow> False) p (ARC_CONST_I64 v)"

definition arc_const_pool_add_f64 :: "ArcConstPool \<Rightarrow> f64 \<Rightarrow> (nat \<times> ArcConstPool) outcome" where
  "arc_const_pool_add_f64 p v =
     pool_intern (\<lambda>e. case e of ARC_CONST_F64 d \<Rightarrow> f64_eq d v | _ \<Rightarrow> False) p (ARC_CONST_F64 v)"

definition arc_const_pool_add_string :: "ArcConstPool \<Rightarrow> string \<Rightarrow> (nat \<times> ArcConstPool) outcome" where
  "arc_const_pool_add_string p s =
     pool_intern (\<lambda>e. case e of ARC_CONST_STRING t \<Rightarrow> length t = length s \<and> t = s | _ \<Rightarrow> False)
       p (ARC_CONST_STRING s)"

section \<open>Function table\<close>

record ArcUpvalueDesc =
  is_local :: bool
  uv_index :: u16

text \<open>\<^verbatim>\<open>upvalue_count\<close> is the length of \<open>upvalues\<close>.\<close>

record ArcFuncRecord =
  name_const_idx :: u16
  arity :: u8
  local_count :: u16
  max_stack :: u16
  code_offset :: u32
  code_length :: u32
  upvalues :: "ArcUpvalueDesc list"

type_synonym ArcFuncTable = "(ArcFuncRecord, u16) dynarr"

definition arc_func_table_init :: ArcFuncTable where
  "arc_func_table_init = dyn_empty"

definition arc_func_table_free :: "ArcFuncTable \<Rightarrow> ArcFuncTable" where
  "arc_func_table_free t = t\<lparr>items := [], cap := 0\<rparr>"

definition arc_func_table_add :: "ArcFuncTable \<Rightarrow> ArcFuncRecord \<Rightarrow> (nat \<times> ArcFuncTable) outcome" where
  "arc_func_table_add t rec = dyn_push 8 t rec"

section \<open>Debug table and image\<close>

record ArcDebugEntry =
  dbg_func_idx :: u16
  bc_start :: u32
  bc_end :: u32
  element_id :: ArcElementId

type_synonym ArcDebugTable = "(ArcDebugEntry, u32) dynarr"

definition arc_debug_table_init :: ArcDebugTable where
  "arc_debug_table_init = dyn_empty"

definition arc_debug_table_free :: "ArcDebugTable \<Rightarrow> ArcDebugTable" where
  "arc_debug_table_free t = t\<lparr>items := [], cap := 0\<rparr>"

definition arc_debug_table_add :: "ArcDebugTable \<Rightarrow> ArcDebugEntry \<Rightarrow> ArcDebugTable outcome" where
  "arc_debug_table_add t e = andthen (dyn_push 16 t e) (\<lambda>(_, t'). Ret t')"

record ArcBytecodeImage =
  img_constants :: ArcConstPool
  img_functions :: ArcFuncTable
  img_code :: "u8 list"
  img_debug :: ArcDebugTable

definition arc_image_init :: ArcBytecodeImage where
  "arc_image_init = \<lparr>img_constants = arc_const_pool_init, img_functions = arc_func_table_init,
     img_code = [], img_debug = arc_debug_table_init\<rparr>"

definition arc_image_free :: "ArcBytecodeImage \<Rightarrow> ArcBytecodeImage" where
  "arc_image_free img = img\<lparr>img_constants := arc_const_pool_free (img_constants img),
     img_functions := arc_func_table_free (img_functions img), img_code := [],
     img_debug := arc_debug_table_free (img_debug img)\<rparr>"

section \<open>Writer\<close>

definition write_u8 :: "ArcBuf \<Rightarrow> u8 \<Rightarrow> ArcBuf" where
  "write_u8 b v = arc_buf_push b v"

definition write_u16 :: "ArcBuf \<Rightarrow> u16 \<Rightarrow> ArcBuf" where
  "write_u16 b v = arc_buf_push_u16 b v"

definition write_u32 :: "ArcBuf \<Rightarrow> u32 \<Rightarrow> ArcBuf" where
  "write_u32 b v = arc_buf_push_i32 b v"

fun write_i64_loop :: "nat \<Rightarrow> ArcBuf \<Rightarrow> u64 \<Rightarrow> ArcBuf" where
  "write_i64_loop 0 b u = b"
| "write_i64_loop (Suc n) b u = write_i64_loop n (arc_buf_push b (ucast (u AND 0xFF))) (drop_bit 8 u)"

definition write_i64 :: "ArcBuf \<Rightarrow> i64 \<Rightarrow> ArcBuf" where
  "write_i64 b v = write_i64_loop 8 b v"

definition write_f64 :: "ArcBuf \<Rightarrow> f64 \<Rightarrow> ArcBuf" where
  "write_f64 b v = write_i64 b v"

definition write_bytes :: "ArcBuf \<Rightarrow> u8 list \<Rightarrow> ArcBuf" where
  "write_bytes b bs = foldl arc_buf_push b bs"

definition write_const :: "ArcBuf \<Rightarrow> ArcConstant \<Rightarrow> ArcBuf" where
  "write_const b c =
     (case c of
        ARC_CONST_NULL \<Rightarrow> write_u8 b 0
      | ARC_CONST_BOOL v \<Rightarrow> write_u8 (write_u8 b 1) (if v then 1 else 0)
      | ARC_CONST_I64 v \<Rightarrow> write_i64 (write_u8 b 2) v
      | ARC_CONST_F64 v \<Rightarrow> write_f64 (write_u8 b 3) v
      | ARC_CONST_STRING s \<Rightarrow>
          write_bytes (write_u32 (write_u8 b 4) (of_nat (length s))) (map byte_of_char s))"

definition write_upvalue :: "ArcBuf \<Rightarrow> ArcUpvalueDesc \<Rightarrow> ArcBuf" where
  "write_upvalue b u = write_u16 (write_u8 b (if is_local u then 1 else 0)) (uv_index u)"

definition write_func :: "ArcBuf \<Rightarrow> ArcFuncRecord \<Rightarrow> ArcBuf" where
  "write_func b f =
     foldl write_upvalue
       (write_u8 (write_u32 (write_u32 (write_u16 (write_u16 (write_u8 (write_u16 b
         (name_const_idx f)) (arity f)) (local_count f)) (max_stack f))
         (code_offset f)) (code_length f)) (of_nat (length (upvalues f))))
       (upvalues f)"

definition write_debug :: "ArcBuf \<Rightarrow> ArcDebugEntry \<Rightarrow> ArcBuf" where
  "write_debug b d =
     write_i64 (write_u32 (write_u32 (write_u16 b (dbg_func_idx d)) (bc_start d)) (bc_end d))
       (element_id d)"

definition write_header :: "ArcBuf \<Rightarrow> ArcBytecodeImage \<Rightarrow> ArcBuf" where
  "write_header b img =
     (let b = write_u8 (write_u8 (write_u8 (write_u8 b 0x41) 0x52) 0x43) 0x41;
          b = write_u8 (write_u8 b 0) 1;
          b = write_u16 b 0;
          b = write_u16 b (of_nat (length (items (img_constants img))))
      in write_u16 b (of_nat (length (items (img_functions img)))))"

definition arc_image_write :: "ArcBytecodeImage \<Rightarrow> u8 list" where
  "arc_image_write img =
     (let b = write_header arc_buf_init img;
          b = foldl write_const b (items (img_constants img));
          b = foldl write_func b (items (img_functions img));
          b = write_bytes (write_u32 b (of_nat (length (img_code img)))) (img_code img);
          b = write_u32 b (of_nat (length (items (img_debug img))));
          b = foldl write_debug b (items (img_debug img))
      in buf_data b)"

section \<open>Reader\<close>

text \<open>A \<^verbatim>\<open>Reader\<close> is the list of bytes from \<^verbatim>\<open>p\<close> to \<^verbatim>\<open>end\<close>.\<close>

type_synonym reader = "u8 list"

definition read_u8 :: "reader \<Rightarrow> (u8 \<times> reader) option" where
  "read_u8 r = (case r of [] \<Rightarrow> None | b # r' \<Rightarrow> Some (b, r'))"

definition read_u16 :: "reader \<Rightarrow> (u16 \<times> reader) option" where
  "read_u16 r = (if length r < 2 then None else Some (arc_read_u16 r 0, drop 2 r))"

definition read_u32 :: "reader \<Rightarrow> (u32 \<times> reader) option" where
  "read_u32 r = (if length r < 4 then None else Some (arc_read_i32 r 0, drop 4 r))"

definition le64_or :: "u8 list \<Rightarrow> nat list \<Rightarrow> u64" where
  "le64_or p is = foldl (\<lambda>u i. u OR push_bit (i * 8) (ucast (p ! i))) 0 is"

definition read_i64 :: "reader \<Rightarrow> (i64 \<times> reader) option" where
  "read_i64 r = (if length r < 8 then None else Some (le64_or r [0..<8], drop 8 r))"

definition read_f64 :: "reader \<Rightarrow> (f64 \<times> reader) option" where
  "read_f64 r = read_i64 r"

text \<open>\<^verbatim>\<open>if (r->p + n > r->end) return ARC_ERR_FORMAT;\<close> and the copy that follows.\<close>

definition read_block :: "nat \<Rightarrow> reader \<Rightarrow> (u8 list \<times> reader) option" where
  "read_block n r = (if length r < n then None else Some (take n r, drop n r))"

definition read_constant :: "reader \<Rightarrow> ArcConstPool \<Rightarrow> (reader \<times> ArcConstPool) outcome" where
  "read_constant r pool =
     need (read_u8 r) (\<lambda>tag r.
       if tag = 0 then andthen (arc_const_pool_add_null pool) (\<lambda>(_, p). Ret (r, p))
       else if tag = 1 then need (read_u8 r) (\<lambda>v r.
         andthen (arc_const_pool_add_bool pool (v \<noteq> 0)) (\<lambda>(_, p). Ret (r, p)))
       else if tag = 2 then need (read_i64 r) (\<lambda>v r.
         andthen (arc_const_pool_add_i64 pool v) (\<lambda>(_, p). Ret (r, p)))
       else if tag = 3 then need (read_f64 r) (\<lambda>v r.
         andthen (arc_const_pool_add_f64 pool v) (\<lambda>(_, p). Ret (r, p)))
       else if tag = 4 then need (read_u32 r) (\<lambda>slen r.
         need (read_block (unat slen) r) (\<lambda>bs r.
           andthen (arc_const_pool_add_string pool (map char_of_byte bs)) (\<lambda>(_, p). Ret (r, p))))
       else Fail ARC_ERR_FORMAT)"

fun read_constants :: "nat \<Rightarrow> reader \<Rightarrow> ArcConstPool \<Rightarrow> (reader \<times> ArcConstPool) outcome" where
  "read_constants 0 r pool = Ret (r, pool)"
| "read_constants (Suc n) r pool =
     andthen (read_constant r pool) (\<lambda>(r, pool). read_constants n r pool)"

definition read_upvalue :: "reader \<Rightarrow> (ArcUpvalueDesc \<times> reader) outcome" where
  "read_upvalue r =
     need (read_u8 r) (\<lambda>l r. need (read_u16 r) (\<lambda>i r. Ret (\<lparr>is_local = (l \<noteq> 0), uv_index = i\<rparr>, r)))"

fun read_upvalues :: "nat \<Rightarrow> reader \<Rightarrow> (ArcUpvalueDesc list \<times> reader) outcome" where
  "read_upvalues 0 r = Ret ([], r)"
| "read_upvalues (Suc n) r =
     andthen (read_upvalue r) (\<lambda>(u, r). andthen (read_upvalues n r) (\<lambda>(us, r). Ret (u # us, r)))"

definition read_function :: "reader \<Rightarrow> (ArcFuncRecord \<times> reader) outcome" where
  "read_function r =
     need (read_u16 r) (\<lambda>nm r. need (read_u8 r) (\<lambda>ar r. need (read_u16 r) (\<lambda>lc r.
     need (read_u16 r) (\<lambda>ms r. need (read_u32 r) (\<lambda>co r. need (read_u32 r) (\<lambda>cl r.
     need (read_u8 r) (\<lambda>uc r.
       andthen (read_upvalues (unat uc) r) (\<lambda>(us, r).
         Ret (\<lparr>name_const_idx = nm, arity = ar, local_count = lc, max_stack = ms,
               code_offset = co, code_length = cl, upvalues = us\<rparr>, r)))))))))"

fun read_functions :: "nat \<Rightarrow> reader \<Rightarrow> ArcFuncTable \<Rightarrow> (reader \<times> ArcFuncTable) outcome" where
  "read_functions 0 r t = Ret (r, t)"
| "read_functions (Suc n) r t =
     andthen (read_function r) (\<lambda>(f, r).
       andthen (arc_func_table_add t f) (\<lambda>(_, t). read_functions n r t))"

definition read_debug_entry :: "reader \<Rightarrow> (ArcDebugEntry \<times> reader) outcome" where
  "read_debug_entry r =
     need (read_u16 r) (\<lambda>fi r. need (read_u32 r) (\<lambda>s r. need (read_u32 r) (\<lambda>e r.
     need (read_i64 r) (\<lambda>eid r.
       Ret (\<lparr>dbg_func_idx = fi, bc_start = s, bc_end = e, element_id = eid\<rparr>, r)))))"

fun read_debug_entries :: "nat \<Rightarrow> reader \<Rightarrow> ArcDebugTable \<Rightarrow> (reader \<times> ArcDebugTable) outcome" where
  "read_debug_entries 0 r t = Ret (r, t)"
| "read_debug_entries (Suc n) r t =
     andthen (read_debug_entry r) (\<lambda>(d, r).
       andthen (arc_debug_table_add t d) (\<lambda>t. read_debug_entries n r t))"

text \<open>The header: magic, version (read and ignored), flags (read and ignored), the two counts.\<close>

definition read_header :: "reader \<Rightarrow> ((u16 \<times> u16) \<times> reader) outcome" where
  "read_header r =
     need (read_u8 r) (\<lambda>m0 r. need (read_u8 r) (\<lambda>m1 r. need (read_u8 r) (\<lambda>m2 r. need (read_u8 r) (\<lambda>m3 r.
       if m0 \<noteq> 0x41 \<or> m1 \<noteq> 0x52 \<or> m2 \<noteq> 0x43 \<or> m3 \<noteq> 0x41 then Fail ARC_ERR_FORMAT
       else need (read_u8 r) (\<lambda>vmaj r. need (read_u8 r) (\<lambda>vmin r.
         need (read_u16 r) (\<lambda>flags r. need (read_u16 r) (\<lambda>cc r. need (read_u16 r) (\<lambda>fc r.
           Ret ((cc, fc), r))))))))))"

definition read_debug_section :: "reader \<Rightarrow> ArcDebugTable \<Rightarrow> ArcDebugTable outcome" where
  "read_debug_section r t =
     (if r = [] then Ret t
      else need (read_u32 r) (\<lambda>dc r. andthen (read_debug_entries (unat dc) r t) (\<lambda>(_, t). Ret t)))"

definition arc_image_read :: "u8 list \<Rightarrow> ArcBytecodeImage outcome" where
  "arc_image_read bytes =
     andthen (read_header bytes) (\<lambda>((cc, fc), r).
     andthen (read_constants (unat cc) r arc_const_pool_init) (\<lambda>(r, pool).
     andthen (read_functions (unat fc) r arc_func_table_init) (\<lambda>(r, fns).
     need (read_u32 r) (\<lambda>clen r.
     need (read_block (unat clen) r) (\<lambda>cd r.
     andthen (read_debug_section r arc_debug_table_init) (\<lambda>dbg.
       Ret \<lparr>img_constants = pool, img_functions = fns, img_code = cd, img_debug = dbg\<rparr>))))))"

section \<open>Interface: a writer appends an encoding\<close>

locale writer =
  fixes w :: "ArcBuf \<Rightarrow> 'a \<Rightarrow> ArcBuf" and enc :: "'a \<Rightarrow> u8 list"
  assumes data: "buf_data (w b x) = buf_data b @ enc x"
begin

lemma data_foldl: "buf_data (foldl w b xs) = buf_data b @ concat (map enc xs)"
  by (induction xs arbitrary: b) (simp_all add: data)

end

definition le_u64 :: "u64 \<Rightarrow> u8 list" where
  "le_u64 v = map (\<lambda>i. ucast (drop_bit (8 * i) v)) [0..<8]"

definition enc_const :: "ArcConstant \<Rightarrow> u8 list" where
  "enc_const c =
     (case c of
        ARC_CONST_NULL \<Rightarrow> [0]
      | ARC_CONST_BOOL v \<Rightarrow> [1, if v then 1 else 0]
      | ARC_CONST_I64 v \<Rightarrow> 2 # le_u64 v
      | ARC_CONST_F64 v \<Rightarrow> 3 # le_u64 v
      | ARC_CONST_STRING s \<Rightarrow> 4 # le_u32 (of_nat (length s)) @ map byte_of_char s)"

definition enc_upvalue :: "ArcUpvalueDesc \<Rightarrow> u8 list" where
  "enc_upvalue u = (if is_local u then 1 else 0) # le_u16 (uv_index u)"

definition enc_func :: "ArcFuncRecord \<Rightarrow> u8 list" where
  "enc_func f =
     le_u16 (name_const_idx f) @ [arity f] @ le_u16 (local_count f) @ le_u16 (max_stack f) @
     le_u32 (code_offset f) @ le_u32 (code_length f) @ [of_nat (length (upvalues f))] @
     concat (map enc_upvalue (upvalues f))"

definition enc_debug :: "ArcDebugEntry \<Rightarrow> u8 list" where
  "enc_debug d = le_u16 (dbg_func_idx d) @ le_u32 (bc_start d) @ le_u32 (bc_end d) @ le_u64 (element_id d)"

definition enc_header :: "ArcBytecodeImage \<Rightarrow> u8 list" where
  "enc_header img = [0x41, 0x52, 0x43, 0x41, 0, 1] @ le_u16 0 @
     le_u16 (of_nat (length (items (img_constants img)))) @
     le_u16 (of_nat (length (items (img_functions img))))"

lemma write_i64_loop_data:
  "buf_data (write_i64_loop n b v) = buf_data b @ map (\<lambda>i. ucast (drop_bit (8 * i) v)) [0..<n]"
proof (induction n arbitrary: b v)
  case 0
  then show ?case by simp
next
  case (Suc n)
  have "[0..<Suc n] = 0 # map Suc [0..<n]" by (simp add: map_Suc_upt upt_conv_Cons)
  then show ?case by (simp add: Suc buf_simps drop_bit_drop_bit add.commute del: upt_Suc)
qed

lemma write_basic_data [buf_simps]:
  "buf_data (write_u8 b v) = buf_data b @ [v]"
  "buf_data (write_u16 b v16) = buf_data b @ le_u16 v16"
  "buf_data (write_u32 b v32) = buf_data b @ le_u32 v32"
  "buf_data (write_i64 b v64) = buf_data b @ le_u64 v64"
  "buf_data (write_f64 b v64) = buf_data b @ le_u64 v64"
  by (simp_all add: write_u8_def write_u16_def write_u32_def write_i64_def write_f64_def buf_simps
      write_i64_loop_data le_u64_def)

interpretation w_byte: writer arc_buf_push "\<lambda>x. [x]"
  by unfold_locales (simp add: buf_simps)

lemma write_bytes_data [buf_simps]: "buf_data (write_bytes b bs) = buf_data b @ bs"
  by (simp add: write_bytes_def w_byte.data_foldl)

interpretation w_const: writer write_const enc_const
  by unfold_locales (simp add: write_const_def enc_const_def buf_simps split: ArcConstant.split)

interpretation w_upvalue: writer write_upvalue enc_upvalue
  by unfold_locales (simp add: write_upvalue_def enc_upvalue_def buf_simps)

interpretation w_func: writer write_func enc_func
  by unfold_locales (simp add: write_func_def enc_func_def buf_simps w_upvalue.data_foldl)

interpretation w_debug: writer write_debug enc_debug
  by unfold_locales (simp add: write_debug_def enc_debug_def buf_simps)

interpretation w_header: writer write_header enc_header
  by unfold_locales (simp add: write_header_def enc_header_def buf_simps Let_def)

lemmas foldl_write_data = w_const.data_foldl w_func.data_foldl w_debug.data_foldl w_header.data

lemma arc_image_write_layout:
  "arc_image_write img =
     enc_header img @ concat (map enc_const (items (img_constants img))) @
     concat (map enc_func (items (img_functions img))) @
     le_u32 (of_nat (length (img_code img))) @ img_code img @
     le_u32 (of_nat (length (items (img_debug img)))) @ concat (map enc_debug (items (img_debug img)))"
  by (simp add: arc_image_write_def Let_def buf_simps foldl_write_data)

section \<open>Interface: a decoder inverts an encoding\<close>

locale codec =
  fixes enc :: "'a \<Rightarrow> u8 list" and dec :: "u8 list \<Rightarrow> ('a \<times> u8 list) outcome" and ok :: "'a \<Rightarrow> bool"
  assumes dec_enc: "ok x \<Longrightarrow> dec (enc x @ r) = Ret (x, r)"

text \<open>A counted run of encodings read into a list.\<close>

locale run_codec = codec +
  fixes decs :: "nat \<Rightarrow> u8 list \<Rightarrow> ('a list \<times> u8 list) outcome"
  assumes decs_0: "decs 0 r = Ret ([], r)"
    and decs_Suc: "decs (Suc n) r = andthen (dec r) (\<lambda>(x, r). andthen (decs n r) (\<lambda>(xs, r). Ret (x # xs, r)))"
begin

lemma decs_enc: "list_all ok xs \<Longrightarrow> decs (length xs) (concat (map enc xs) @ r) = Ret (xs, r)"
  by (induction xs) (simp_all add: decs_0 decs_Suc dec_enc)

end

text \<open>A counted run of encodings read and pushed, one by one, onto a growable table.\<close>

locale table_codec = codec +
  fixes init :: nat and loop :: "nat \<Rightarrow> u8 list \<Rightarrow> ('a, 'l::len word) dynarr \<Rightarrow> (u8 list \<times> ('a, 'l word) dynarr) outcome"
  assumes loop_0: "loop 0 r t = Ret (r, t)"
    and loop_Suc: "loop (Suc n) r t = andthen (dec r) (\<lambda>(x, r).
       andthen (dyn_push (2 ^ init) t x) (\<lambda>(_, t). loop n r t))"
    and init: "init < LENGTH('l)"
begin

lemma loop_enc:
  assumes "list_all ok xs" "dyn_wf init t" "length (items t) + length xs \<le> 2 ^ (LENGTH('l) - 1)"
  shows "\<exists>t'. loop (length xs) (concat (map enc xs) @ r) t = Ret (r, t') \<and>
    items t' = items t @ xs \<and> dyn_wf init t'"
  using assms
proof (induction xs arbitrary: t)
  case Nil
  then show ?case by (simp add: loop_0)
next
  case (Cons x xs)
  from Cons.prems have "length (items t) < 2 ^ (LENGTH('l) - 1)" by simp
  from dyn_push_ok [OF Cons.prems(2) init this, of x] obtain t1 where
    t1: "dyn_push (2 ^ init) t x = Ret (length (items t), t1)" "items t1 = items t @ [x]" "dyn_wf init t1"
    by blast
  with Cons.prems Cons.IH [of t1] show ?case by (auto simp: loop_Suc dec_enc)
qed

lemma loop_safe:
  assumes dec_def: "\<And>r. dec r \<noteq> Undef"
    and dec_len: "\<And>r x r'. dec r = Ret (x, r') \<Longrightarrow> length r' < length r"
    and dec_ok: "\<And>r x r'. dec r = Ret (x, r') \<Longrightarrow> ok x"
  shows "dyn_wf init t \<Longrightarrow> list_all ok (items t) \<Longrightarrow>
    length (items t) + min n (length r) \<le> 2 ^ (LENGTH('l) - 1) \<Longrightarrow>
    loop n r t \<noteq> Undef \<and> (\<forall>r' t'. loop n r t = Ret (r', t') \<longrightarrow>
      length (items t') = length (items t) + n \<and> length r' + n \<le> length r \<and>
      dyn_wf init t' \<and> list_all ok (items t'))"
proof (induction n arbitrary: r t)
  case 0
  then show ?case by (simp add: loop_0)
next
  case (Suc n)
  show ?case
  proof (cases "dec r")
    case (Ret xr)
    obtain x r1 where xr: "xr = (x, r1)" by (cases xr)
    with Ret have d: "dec r = Ret (x, r1)" by simp
    note len = dec_len [OF d] and okx = dec_ok [OF d]
    from Suc.prems(3) len have "length (items t) < 2 ^ (LENGTH('l) - 1)" by (simp add: min_def split: if_splits)
    from dyn_push_ok [OF Suc.prems(1) init this, of x] obtain t1 where
      t1: "dyn_push (2 ^ init) t x = Ret (length (items t), t1)"
      "items t1 = items t @ [x]" "dyn_wf init t1" by auto
    have "length (items t1) + min n (length r1) \<le> 2 ^ (LENGTH('l) - 1)"
      using Suc.prems(3) len t1(2) by (simp add: min_def split: if_splits)
    with Suc.IH [OF t1(3), of r1] Suc.prems(2) okx t1 d len show ?thesis by (auto simp: loop_Suc)
  qed (use dec_def in \<open>auto simp: loop_Suc\<close>)
qed

end

section \<open>The basic readers invert the basic writers\<close>

lemma read_u8_Cons [rd_simps]: "read_u8 (b # r) = Some (b, r)"
  by (simp add: read_u8_def)

lemma read_u16_enc [rd_simps]: "read_u16 (le_u16 v @ r) = Some (v, r)"
  by (simp add: read_u16_def rd_simps)

lemma read_u32_enc [rd_simps]: "read_u32 (le_u32 v @ r) = Some (v, r)"
  by (simp add: read_u32_def rd_simps)

lemma read_block_enc [rd_simps]: "n = length bs \<Longrightarrow> read_block n (bs @ r) = Some (bs, r)"
  by (simp add: read_block_def)

lemma length_le_u64 [simp]: "length (le_u64 v) = 8"
  by (simp add: le_u64_def)

lemma bit_le64_or:
  "bit (le64_or p is) k \<longleftrightarrow> k < 64 \<and> (\<exists>i \<in> set is. i * 8 \<le> k \<and> k < i * 8 + 8 \<and> bit (p ! i) (k - i * 8))"
proof (induction "is" rule: rev_induct)
  case Nil
  then show ?case by (simp add: le64_or_def)
next
  case (snoc i "is")
  have "bit (ucast (p ! i) :: u64) m \<longleftrightarrow> m < 8 \<and> bit (p ! i) m" for m
    by (auto simp: bit_simps dest: bit_imp_le_length)
  with snoc show ?case
    by (auto simp: le64_or_def bit_or_iff bit_push_bit_iff)
qed

lemma le64_or_enc: "le64_or (le_u64 v @ r) [0..<8] = v"
proof (rule bit_word_eqI)
  fix k assume k: "k < LENGTH(64)"
  define i where "i = k div 8"
  have i: "i < 8" "i * 8 \<le> k" "k < i * 8 + 8" "8 * i + (k - i * 8) = k"
    using k by (auto simp: i_def)
  have byte: "bit ((le_u64 v @ r) ! j) m \<longleftrightarrow> m < 8 \<and> bit v (8 * j + m)" if "j < 8" for j m
    using that by (auto simp: le_u64_def nth_append bit_simps)
  have "bit (le64_or (le_u64 v @ r) [0..<8]) k \<longleftrightarrow> bit ((le_u64 v @ r) ! i) (k - i * 8)"
  proof -
    have u: "j = i" if "j * 8 \<le> k" "k < j * 8 + 8" for j using that i(2,3) by linarith
    have "i \<in> {0..<8}" and "k < 64" using i(1) k by simp_all
    then show ?thesis unfolding bit_le64_or set_upt using i(2,3) u by blast
  qed
  with byte [OF i(1)] i show "bit (le64_or (le_u64 v @ r) [0..<8]) k = bit v k" by auto
qed

lemma read_i64_enc [rd_simps]: "read_i64 (le_u64 v @ r) = Some (v, r)"
  unfolding read_i64_def le64_or_enc by simp

lemma read_f64_enc [rd_simps]: "read_f64 (le_u64 v @ r) = Some (v, r)"
  by (simp add: read_f64_def rd_simps)

lemma read_header_enc:
  "read_header (enc_header img @ r) =
     Ret ((of_nat (length (items (img_constants img))), of_nat (length (items (img_functions img)))), r)"
  by (simp add: read_header_def enc_header_def rd_simps)

section \<open>Functions and debug entries\<close>

interpretation c_upvalue: run_codec enc_upvalue read_upvalue "\<lambda>_. True" read_upvalues
  by unfold_locales (simp_all add: read_upvalue_def enc_upvalue_def rd_simps)

definition func_wf :: "ArcFuncRecord \<Rightarrow> bool" where
  "func_wf f \<longleftrightarrow> length (upvalues f) < 256"

lemma read_function_enc: "func_wf f \<Longrightarrow> read_function (enc_func f @ r) = Ret (f, r)"
  using c_upvalue.decs_enc [of "upvalues f" r]
  by (simp add: read_function_def enc_func_def rd_simps func_wf_def unat_of_nat list_all_iff)

interpretation c_func: table_codec enc_func read_function func_wf 3 read_functions
  by unfold_locales (simp_all add: read_function_enc arc_func_table_add_def)

lemma andthen_assoc: "andthen (andthen m f) g = andthen m (\<lambda>x. andthen (f x) g)"
  by (cases m) simp_all

interpretation c_debug: table_codec enc_debug read_debug_entry "\<lambda>_. True" 4 read_debug_entries
proof unfold_locales
  show "read_debug_entry (enc_debug x @ r) = Ret (x, r)" for x r
    by (simp add: read_debug_entry_def enc_debug_def rd_simps)
  show "read_debug_entries (Suc n) r t = andthen (read_debug_entry r) (\<lambda>(x, r).
      andthen (dyn_push (2 ^ 4) t x) (\<lambda>(_, t). read_debug_entries n r t))" for n r t
    by (simp add: arc_debug_table_add_def andthen_assoc split_def)
qed simp_all

section \<open>The constant pool\<close>

text \<open>C equality of constants, the test of the five search loops.\<close>

fun const_eq :: "ArcConstant \<Rightarrow> ArcConstant \<Rightarrow> bool" where
  "const_eq ARC_CONST_NULL ARC_CONST_NULL = True"
| "const_eq (ARC_CONST_BOOL a) (ARC_CONST_BOOL b) = (a = b)"
| "const_eq (ARC_CONST_I64 a) (ARC_CONST_I64 b) = (a = b)"
| "const_eq (ARC_CONST_F64 a) (ARC_CONST_F64 b) = f64_eq a b"
| "const_eq (ARC_CONST_STRING a) (ARC_CONST_STRING b) = (a = b)"
| "const_eq _ _ = False"

text \<open>The five functions are one operation on a constant.\<close>

definition pool_add :: "ArcConstPool \<Rightarrow> ArcConstant \<Rightarrow> (nat \<times> ArcConstPool) outcome" where
  "pool_add p c =
     (case c of
        ARC_CONST_NULL \<Rightarrow> arc_const_pool_add_null p
      | ARC_CONST_BOOL v \<Rightarrow> arc_const_pool_add_bool p v
      | ARC_CONST_I64 v \<Rightarrow> arc_const_pool_add_i64 p v
      | ARC_CONST_F64 v \<Rightarrow> arc_const_pool_add_f64 p v
      | ARC_CONST_STRING s \<Rightarrow> arc_const_pool_add_string p s)"

lemma pool_add_intern: "pool_add p c = pool_intern (\<lambda>e. const_eq e c) p c"
proof -
  have same: "(case e of ARC_CONST_BOOL b \<Rightarrow> b = v | _ \<Rightarrow> False) = const_eq e (ARC_CONST_BOOL v)"
    "(case e of ARC_CONST_I64 i \<Rightarrow> i = w | _ \<Rightarrow> False) = const_eq e (ARC_CONST_I64 w)"
    "(case e of ARC_CONST_F64 d \<Rightarrow> f64_eq d w | _ \<Rightarrow> False) = const_eq e (ARC_CONST_F64 w)"
    "(case e of ARC_CONST_STRING t \<Rightarrow> length t = length s \<and> t = s | _ \<Rightarrow> False) = const_eq e (ARC_CONST_STRING s)"
    "(e = ARC_CONST_NULL) = const_eq e ARC_CONST_NULL" for e v w s
    by (cases e; auto)+
  show ?thesis
    unfolding pool_add_def arc_const_pool_add_null_def arc_const_pool_add_bool_def
      arc_const_pool_add_i64_def arc_const_pool_add_f64_def arc_const_pool_add_string_def same
    by (cases c) simp_all
qed

text \<open>No entry is C-equal to an earlier one.\<close>

definition pool_distinct :: "ArcConstant list \<Rightarrow> bool" where
  "pool_distinct cs \<longleftrightarrow> sorted_wrt (\<lambda>a b. \<not> const_eq a b) cs"

definition pool_wf :: "ArcConstPool \<Rightarrow> bool" where
  "pool_wf p \<longleftrightarrow> dyn_wf 4 p \<and> pool_distinct (items p)"

lemma pool_wf_init [wf_intros]: "pool_wf arc_const_pool_init"
  by (simp add: pool_wf_def arc_const_pool_init_def wf_intros pool_distinct_def)

lemma dyn_push_u16: "dyn_wf 4 p \<Longrightarrow> length (items p) < 32768 \<Longrightarrow>
  \<exists>p'. dyn_push 16 (p :: ('a, u16) dynarr) c = Ret (length (items p), p') \<and> items p' = items p @ [c] \<and> dyn_wf 4 p'"
  using dyn_push_ok [of 4 p c] by simp

text \<open>Adding a constant: an equal entry is reused, otherwise the constant is appended.\<close>

lemma pool_add_cases:
  assumes wf: "pool_wf p" and room: "length (items p) < 32768"
  obtains (reuse) i where "pool_add p c = Ret (i, p)" "i < length (items p)" "const_eq (items p ! i) c"
  | (append) p' where "pool_add p c = Ret (length (items p), p')" "items p' = items p @ [c]" "pool_wf p'"
proof (cases "find_index (\<lambda>e. const_eq e c) (items p)")
  case None
  with wf room dyn_push_u16 [of p c] obtain p' where p': "pool_add p c = Ret (length (items p), p')"
    "items p' = items p @ [c]" "dyn_wf 4 p'"
    by (auto simp: pool_add_intern pool_intern_def pool_grow_def pool_wf_def)
  from None wf have "pool_distinct (items p @ [c])"
    by (auto simp: pool_distinct_def pool_wf_def sorted_wrt_append find_index_None)
  with p' append show ?thesis by (simp add: pool_wf_def)
next
  case (Some i)
  then show ?thesis using reuse find_index_Some [OF Some]
    by (auto simp: pool_add_intern pool_intern_def)
qed

lemma pool_add_new:
  assumes "pool_wf p" "length (items p) < 32768" "\<forall>e \<in> set (items p). \<not> const_eq e c"
  shows "\<exists>p'. pool_add p c = Ret (length (items p), p') \<and> items p' = items p @ [c] \<and> pool_wf p'"
  by (rule pool_add_cases [OF assms(1,2), of c]) (use assms(3) in \<open>auto dest: nth_mem\<close>)

definition const_wf :: "ArcConstant \<Rightarrow> bool" where
  "const_wf c \<longleftrightarrow> (case c of ARC_CONST_STRING s \<Rightarrow> length s < 4294967296 | _ \<Rightarrow> True)"

lemma read_constant_enc:
  assumes "const_wf c"
  shows "read_constant (enc_const c @ r) pool = andthen (pool_add pool c) (\<lambda>(_, p). Ret (r, p))"
  using assms
  by (cases c) (simp_all add: read_constant_def enc_const_def pool_add_def rd_simps const_wf_def)

lemma read_constants_enc:
  assumes "list_all const_wf cs" "pool_wf p" "pool_distinct (items p @ cs)"
    "length (items p) + length cs \<le> 32768"
  shows "\<exists>p'. read_constants (length cs) (concat (map enc_const cs) @ r) p = Ret (r, p') \<and>
    items p' = items p @ cs \<and> pool_wf p'"
  using assms
proof (induction cs arbitrary: p)
  case Nil
  then show ?case by simp
next
  case (Cons c cs)
  from Cons.prems(3) have "\<forall>e \<in> set (items p). \<not> const_eq e c"
    by (simp add: pool_distinct_def sorted_wrt_append)
  with pool_add_new [OF Cons.prems(2)] Cons.prems(4) obtain p1 where
    p1: "pool_add p c = Ret (length (items p), p1)" "items p1 = items p @ [c]" "pool_wf p1" by auto
  with Cons.prems Cons.IH [of p1] show ?case by (auto simp: read_constant_enc)
qed

section \<open>Images\<close>

definition image_wf :: "ArcBytecodeImage \<Rightarrow> bool" where
  "image_wf img \<longleftrightarrow>
     pool_distinct (items (img_constants img)) \<and> list_all const_wf (items (img_constants img)) \<and>
     length (items (img_constants img)) \<le> 32768 \<and>
     list_all func_wf (items (img_functions img)) \<and> length (items (img_functions img)) \<le> 32768 \<and>
     length (img_code img) < 4294967296 \<and> length (items (img_debug img)) \<le> 2147483648"

text \<open>Images with the same content: everything but the capacities of the tables.\<close>

definition same_image :: "ArcBytecodeImage \<Rightarrow> ArcBytecodeImage \<Rightarrow> bool" where
  "same_image a b \<longleftrightarrow>
     items (img_constants a) = items (img_constants b) \<and> items (img_functions a) = items (img_functions b) \<and>
     img_code a = img_code b \<and> items (img_debug a) = items (img_debug b)"

lemma read_debug_section_enc:
  assumes "length ds \<le> 2147483648"
  shows "\<exists>t. read_debug_section (le_u32 (of_nat (length ds)) @ concat (map enc_debug ds)) arc_debug_table_init
    = Ret t \<and> items t = ds"
proof -
  from c_debug.loop_enc [of ds dyn_empty "[]"] assms obtain t where
    "read_debug_entries (length ds) (concat (map enc_debug ds)) dyn_empty = Ret ([], t)" "items t = ds"
    by (auto simp: wf_intros list_all_iff)
  moreover have "le_u32 (of_nat (length ds)) \<noteq> []" by (simp add: le_u32_def)
  ultimately show ?thesis using assms
    by (simp add: read_debug_section_def rd_simps arc_debug_table_init_def)
qed

section \<open>Reading arbitrary bytes\<close>

lemma read_Some_length:
  "read_u8 r = Some (v8, r') \<Longrightarrow> length r = Suc (length r')"
  "read_u16 r = Some (v16, r') \<Longrightarrow> length r = length r' + 2"
  "read_u32 r = Some (v32, r') \<Longrightarrow> length r = length r' + 4"
  "read_i64 r = Some (v64, r') \<Longrightarrow> length r = length r' + 8"
  "read_f64 r = Some (v64, r') \<Longrightarrow> length r = length r' + 8"
  "read_block n r = Some (bs, r') \<Longrightarrow> length r = length r' + n \<and> length bs = n"
  by (auto simp: read_u8_def read_u16_def read_u32_def read_i64_def read_f64_def read_block_def
      split: list.splits if_splits)

lemma read_upvalues_total: "read_upvalues n r \<noteq> Undef"
  by (induction n arbitrary: r) (auto simp: read_upvalue_def andthen_Undef need_Undef)

lemma read_upvalues_length:
  "read_upvalues n r = Ret (us, r') \<Longrightarrow> length us = n \<and> length r' \<le> length r"
proof (induction n arbitrary: r us)
  case 0
  then show ?case by simp
next
  case (Suc n)
  then obtain u r1 us1 where "read_upvalue r = Ret (u, r1)" "read_upvalues n r1 = Ret (us1, r')" "us = u # us1"
    by (auto simp: andthen_Ret)
  with Suc.IH [of r1 us1] show ?case
    by (auto simp: read_upvalue_def need_Ret dest!: read_Some_length)
qed

lemma read_function_Ret:
  assumes "read_function r = Ret (f, r')"
  shows "length r' < length r" "func_wf f"
  using assms
  by (auto simp: read_function_def need_Ret andthen_Ret func_wf_def unat_less_256
      dest!: read_Some_length read_upvalues_length)

lemma read_function_total: "read_function r \<noteq> Undef"
  by (simp add: read_function_def need_Undef andthen_Undef read_upvalues_total split_def)

lemma read_debug_entry_Ret: "read_debug_entry r = Ret (d, r') \<Longrightarrow> length r' < length r"
  by (auto simp: read_debug_entry_def need_Ret dest!: read_Some_length)

lemma read_debug_entry_total: "read_debug_entry r \<noteq> Undef"
  by (simp add: read_debug_entry_def need_Undef)

lemma read_functions_safe:
  "min n (length r) \<le> 32768 \<Longrightarrow> safe (\<lambda>(r', t'). length (items t') = n \<and> length r' + n \<le> length r \<and>
     dyn_wf 3 t' \<and> list_all func_wf (items t')) (read_functions n r dyn_empty)"
  using c_func.loop_safe [of dyn_empty n r] read_function_total read_function_Ret
  by (auto simp: safe_def wf_intros)

lemma read_debug_entries_safe:
  "min n (length r) \<le> 2147483648 \<Longrightarrow> safe (\<lambda>(r', t'). length (items t') = n \<and> length r' + n \<le> length r)
     (read_debug_entries n r dyn_empty)"
  using c_debug.loop_safe [of dyn_empty n r] read_debug_entry_total read_debug_entry_Ret
  by (auto simp: safe_def wf_intros)

text \<open>One constant of the file: what was read is handed to the pool.\<close>

lemma read_constant_cases:
  obtains e where "read_constant r p = Fail e"
  | c r' where "read_constant r p = andthen (pool_add p c) (\<lambda>(_, p). Ret (r', p))"
      "length r' < length r" "length r < 4294967296 \<Longrightarrow> const_wf c"
proof -
  have "(\<exists>e. read_constant r p = Fail e) \<or> (\<exists>c r'. read_constant r p = andthen (pool_add p c) (\<lambda>(_, p). Ret (r', p))
      \<and> length r' < length r \<and> (length r < 4294967296 \<longrightarrow> const_wf c))"
    (is "?F \<or> (\<exists>c r'. ?A c r')")
  proof (cases "read_u8 r")
    case None
    then show ?thesis by (simp add: read_constant_def)
  next
    case (Some tr)
    then obtain tag r1 where t: "read_u8 r = Some (tag, r1)" by (cases tr) simp
    note l1 = read_Some_length(1) [OF t]
    consider "tag = 0" | "tag = 1" | "tag = 2" | "tag = 3" | "tag = 4"
      | "tag \<notin> {0, 1, 2, 3, 4}" by blast
    then show ?thesis
    proof cases
      case 1
      then have "?A ARC_CONST_NULL r1" using t l1 by (simp add: read_constant_def pool_add_def const_wf_def)
      then show ?thesis by blast
    next
      case 2
      show ?thesis
      proof (cases "read_u8 r1")
        case (Some x)
        then have "?A (ARC_CONST_BOOL (fst x \<noteq> 0)) (snd x)"
          using 2 t l1 by (cases x) (auto simp: read_constant_def pool_add_def const_wf_def dest: read_Some_length)
        then show ?thesis by blast
      qed (use 2 t in \<open>simp add: read_constant_def\<close>)
    next
      case 3
      show ?thesis
      proof (cases "read_i64 r1")
        case (Some x)
        then have "?A (ARC_CONST_I64 (fst x)) (snd x)"
          using 3 t l1 by (cases x) (auto simp: read_constant_def pool_add_def const_wf_def dest: read_Some_length)
        then show ?thesis by blast
      qed (use 3 t in \<open>simp add: read_constant_def\<close>)
    next
      case 4
      show ?thesis
      proof (cases "read_f64 r1")
        case (Some x)
        then have "?A (ARC_CONST_F64 (fst x)) (snd x)"
          using 4 t l1 by (cases x) (auto simp: read_constant_def pool_add_def const_wf_def dest: read_Some_length)
        then show ?thesis by blast
      qed (use 4 t in \<open>simp add: read_constant_def\<close>)
    next
      case 5
      show ?thesis
      proof (cases "read_u32 r1")
        case (Some x)
        then obtain n r2 where n: "read_u32 r1 = Some (n, r2)" by (cases x) simp
        show ?thesis
        proof (cases "read_block (unat n) r2")
          case (Some y)
          then have "?A (ARC_CONST_STRING (map char_of_byte (fst y))) (snd y)"
            using 5 t l1 n read_Some_length(3) [OF n]
            by (cases y) (auto simp: read_constant_def pool_add_def const_wf_def dest: read_Some_length)
          then show ?thesis by blast
        qed (use 5 t n in \<open>simp add: read_constant_def\<close>)
      qed (use 5 t in \<open>simp add: read_constant_def\<close>)
    next
      case 6
      then show ?thesis using t by (simp add: read_constant_def)
    qed
  qed
  with that show thesis by blast
qed

lemma read_constants_safe:
  assumes "pool_wf p" "list_all const_wf (items p)" "length (items p) + min n (length r) \<le> 32768"
    "length r < 4294967296"
  shows "read_constants n r p \<noteq> Undef \<and> (\<forall>r' p'. read_constants n r p = Ret (r', p') \<longrightarrow>
    length r' + n \<le> length r \<and> length (items p') \<le> length (items p) + n \<and> pool_wf p' \<and>
    list_all const_wf (items p'))"
  using assms
proof (induction n arbitrary: r p)
  case 0
  then show ?case by simp
next
  case (Suc n)
  show ?case
  proof (rule read_constant_cases [of r p])
    fix e assume "read_constant r p = Fail e"
    then show ?thesis by simp
  next
    fix c r1
    assume rc: "read_constant r p = andthen (pool_add p c) (\<lambda>(_, p). Ret (r1, p))"
      and len: "length r1 < length r" and cw: "length r < 4294967296 \<Longrightarrow> const_wf c"
    from Suc.prems(3) len have room: "length (items p) < 32768" by (simp add: min_def split: if_splits)
    have len1: "length r1 < 4294967296" using len Suc.prems(4) by simp
    show ?thesis
    proof (rule pool_add_cases [OF Suc.prems(1) room, of c])
      fix i assume pa: "pool_add p c = Ret (i, p)"
      have "length (items p) + min n (length r1) \<le> 32768"
        using Suc.prems(3) len by (simp add: min_def split: if_splits)
      note ih = Suc.IH [OF Suc.prems(1,2) this len1]
      have "read_constants (Suc n) r p = read_constants n r1 p" using rc pa by simp
      with ih len show ?thesis by fastforce
    next
      fix p' assume pa: "pool_add p c = Ret (length (items p), p')" and it: "items p' = items p @ [c]"
        and wf: "pool_wf p'"
      have "length (items p') + min n (length r1) \<le> 32768"
        using Suc.prems(3) len it by (simp add: min_def split: if_splits)
      note b = this
      have "list_all const_wf (items p')" using Suc.prems(2,4) cw it by simp
      note ih = Suc.IH [OF wf this b len1]
      have "read_constants (Suc n) r p = read_constants n r1 p'" using rc pa by simp
      with ih len it show ?thesis by fastforce
    qed
  qed
qed

lemma read_header_length: "read_header r = Ret (c, r') \<Longrightarrow> length r' \<le> length r"
  by (auto simp: read_header_def need_Ret split: if_splits dest!: read_Some_length)

lemma read_header_total: "read_header r \<noteq> Undef"
  by (simp add: read_header_def need_Undef)

lemma read_debug_section_safe:
  assumes "length r \<le> 2147483648"
  shows "safe (\<lambda>t. length (items t) \<le> 2147483648) (read_debug_section r arc_debug_table_init)"
proof -
  have "safe (\<lambda>(r', t). length (items t) \<le> 2147483648) (read_debug_entries (unat n) r1 dyn_empty)"
    if "read_u32 r = Some (n, r1)" for n r1
    by (rule safe_mono [OF read_debug_entries_safe])
      (use read_Some_length(3) [OF that] assms in auto)
  then show ?thesis
    by (auto simp: read_debug_section_def arc_debug_table_init_def intro!: safe_need safe_andthen)
qed

lemma read_pool_safe:
  assumes "n \<le> 32768" "length r < 4294967296"
  shows "safe (\<lambda>(r', p). length r' \<le> length r \<and> length (items p) \<le> 32768 \<and> pool_wf p \<and>
    list_all const_wf (items p)) (read_constants n r arc_const_pool_init)"
proof -
  have "read_constants n r arc_const_pool_init \<noteq> Undef \<and> (\<forall>r' p'. read_constants n r arc_const_pool_init = Ret (r', p') \<longrightarrow>
    length r' + n \<le> length r \<and> length (items p') \<le> n \<and> pool_wf p' \<and> list_all const_wf (items p'))"
    using read_constants_safe [OF pool_wf_init, of n r] assms by (simp add: arc_const_pool_init_def min_def)
  with assms(1) show ?thesis by (fastforce simp: safe_def)
qed

lemma read_func_table_safe:
  assumes "n \<le> 32768"
  shows "safe (\<lambda>(r', t). length r' \<le> length r \<and> length (items t) \<le> 32768 \<and> list_all func_wf (items t))
    (read_functions n r arc_func_table_init)"
  unfolding arc_func_table_init_def
  by (rule safe_mono [OF read_functions_safe]) (use assms in auto)

text \<open>The sections after the header.\<close>

definition read_body :: "nat \<Rightarrow> nat \<Rightarrow> reader \<Rightarrow> ArcBytecodeImage outcome" where
  "read_body cc fc r =
     andthen (read_constants cc r arc_const_pool_init) (\<lambda>(r, pool).
     andthen (read_functions fc r arc_func_table_init) (\<lambda>(r, fns).
     need (read_u32 r) (\<lambda>clen r.
     need (read_block (unat clen) r) (\<lambda>cd r.
     andthen (read_debug_section r arc_debug_table_init) (\<lambda>dbg.
       Ret \<lparr>img_constants = pool, img_functions = fns, img_code = cd, img_debug = dbg\<rparr>)))))"

lemma arc_image_read_body:
  "arc_image_read bytes = andthen (read_header bytes) (\<lambda>((cc, fc), r). read_body (unat cc) (unat fc) r)"
  by (simp add: arc_image_read_def read_body_def)

lemma read_body_safe:
  assumes "length r \<le> 2147483648" "cc \<le> 32768" "fc \<le> 32768"
  shows "safe image_wf (read_body cc fc r)"
  unfolding read_body_def
proof (rule safe_andthen [OF read_pool_safe [OF assms(2)]], use assms(1) in simp, clarify)
  fix r1 :: reader and p :: ArcConstPool assume 1: "length r1 \<le> length r" "length (items p) \<le> 32768" "pool_wf p" "list_all const_wf (items p)"
  show "safe image_wf (andthen (read_functions fc r1 arc_func_table_init) (\<lambda>(r, fns).
     need (read_u32 r) (\<lambda>clen r. need (read_block (unat clen) r) (\<lambda>cd r.
     andthen (read_debug_section r arc_debug_table_init) (\<lambda>dbg.
       Ret \<lparr>img_constants = p, img_functions = fns, img_code = cd, img_debug = dbg\<rparr>)))))"
  proof (rule safe_andthen [OF read_func_table_safe [OF assms(3)]], clarify, intro safe_need)
    fix r2 r3 r4 :: reader and t :: ArcFuncTable and clen cd
    assume 2: "length r2 \<le> length r1" "length (items t) \<le> 32768" "list_all func_wf (items t)"
      and 3: "read_u32 r2 = Some (clen, r3)" and 4: "read_block (unat clen) r3 = Some (cd, r4)"
    from read_Some_length(3) [OF 3] read_Some_length(6) [OF 4] 1 2 assms(1)
    have "length r4 \<le> 2147483648" "length cd < 4294967296" by auto
    with 1 2 show "safe image_wf (andthen (read_debug_section r4 arc_debug_table_init) (\<lambda>dbg.
       Ret \<lparr>img_constants = p, img_functions = t, img_code = cd, img_debug = dbg\<rparr>))"
      by (auto simp: image_wf_def pool_wf_def intro!: safe_andthen [OF read_debug_section_safe])
  qed
qed

text \<open>C4. Serialising a well-formed bytecode image with \<^verbatim>\<open>arc_image_write\<close> and parsing the bytes
  with \<^verbatim>\<open>arc_image_read\<close> succeeds and gives back the same constants, functions, code and debug
  entries. The hypothesis is what the tables guarantee by construction (constants interned under
  C equality) and what fits the fields of the format.\<close>

theorem image_roundtrip:
  assumes "image_wf img"
  shows "\<exists>img'. arc_image_read (arc_image_write img) = Ret img' \<and> same_image img' img"
proof -
  let ?cs = "items (img_constants img)" and ?fs = "items (img_functions img)"
    and ?cd = "img_code img" and ?ds = "items (img_debug img)"
  note wf = assms [unfolded image_wf_def]
  let ?r2 = "le_u32 (of_nat (length ?cd)) @ ?cd @ le_u32 (of_nat (length ?ds)) @ concat (map enc_debug ?ds)"
  let ?r1 = "concat (map enc_func ?fs) @ ?r2"
  from read_constants_enc [of ?cs arc_const_pool_init ?r1] wf obtain pool where
    pool: "read_constants (length ?cs) (concat (map enc_const ?cs) @ ?r1) arc_const_pool_init = Ret (?r1, pool)"
      "items pool = ?cs"
    using pool_wf_init by (auto simp: arc_const_pool_init_def)
  from c_func.loop_enc [of ?fs dyn_empty ?r2] wf obtain fns where
    fns: "read_functions (length ?fs) ?r1 dyn_empty = Ret (?r2, fns)" "items fns = ?fs"
    by (auto simp: wf_intros)
  from read_debug_section_enc [of ?ds] wf obtain dbg where
    dbg: "read_debug_section (le_u32 (of_nat (length ?ds)) @ concat (map enc_debug ?ds)) arc_debug_table_init
      = Ret dbg" "items dbg = ?ds" by blast
  have "arc_image_read (arc_image_write img) =
      Ret \<lparr>img_constants = pool, img_functions = fns, img_code = ?cd, img_debug = dbg\<rparr>"
    using wf pool(1) fns(1) dbg(1)
    by (simp add: arc_image_read_def arc_image_write_layout read_header_enc arc_func_table_init_def rd_simps)
  with pool(2) fns(2) dbg(2) show ?thesis by (simp add: same_image_def)
qed


definition sample_image :: ArcBytecodeImage where
  "sample_image = \<lparr>
     img_constants = \<lparr>items = [ARC_CONST_I64 5, ARC_CONST_STRING ''main'', ARC_CONST_NULL], cap = 16\<rparr>,
     img_functions = \<lparr>items = [\<lparr>name_const_idx = 1, arity = 0, local_count = 2, max_stack = 8,
       code_offset = 0, code_length = 4, upvalues = [\<lparr>is_local = True, uv_index = 1\<rparr>]\<rparr>], cap = 8\<rparr>,
     img_code = [0x01, 0, 0, 0x26],
     img_debug = \<lparr>items = [\<lparr>dbg_func_idx = 0, bc_start = 0, bc_end = 3, element_id = 7\<rparr>], cap = 16\<rparr>\<rparr>"

theorem image_roundtrip_witness:
  "image_wf sample_image \<and>
   (\<exists>img'. arc_image_read (arc_image_write sample_image) = Ret img' \<and> same_image img' sample_image)"
proof -
  have "image_wf sample_image"
    by (simp add: image_wf_def sample_image_def pool_distinct_def const_wf_def func_wf_def)
  with image_roundtrip [of sample_image] show ?thesis by simp
qed


section \<open>Interning\<close>

text \<open>C16. \<^verbatim>\<open>arc_const_pool_add_*\<close> on a pool with fewer than 32768 entries returns the index of an
  entry that is the constant or C-equal to it, moves no earlier entry, adds at most one and keeps the
  pool free of duplicates; an equal entry that is present already is reused.\<close>

theorem pool_add_spec:
  assumes "pool_wf p" "length (items p) < 32768"
  shows "\<exists>i p'. pool_add p c = Ret (i, p') \<and> i < length (items p') \<and>
    (items p' ! i = c \<or> const_eq (items p' ! i) c) \<and>
    (items p' = items p \<or> items p' = items p @ [c]) \<and> pool_wf p' \<and>
    ((\<exists>e \<in> set (items p). const_eq e c) \<longrightarrow> p' = p)"
  by (rule pool_add_cases [OF assms, of c])
    (auto simp: pool_wf_def pool_distinct_def sorted_wrt_append assms(1) [unfolded pool_wf_def pool_distinct_def])

theorem pool_add_spec_witness:
  "\<exists>i p'. pool_add \<lparr>items = [ARC_CONST_F64 0], cap = 16\<rparr> (ARC_CONST_F64 0x8000000000000000) = Ret (i, p') \<and>
    i < length (items p') \<and> const_eq (items p' ! i) (ARC_CONST_F64 0x8000000000000000) \<and> items p' = [ARC_CONST_F64 0]"
proof -
  let ?p = "\<lparr>items = [ARC_CONST_F64 0], cap = 16 :: u16\<rparr>" and ?c = "ARC_CONST_F64 0x8000000000000000"
  have "f64_eq 0 0x8000000000000000"
    by (simp add: f64_eq_def f64_is_nan_def f64_key_def f64_frac_def f64_exp_def f64_mag_def)
  then have "\<exists>e \<in> set (items ?p). const_eq e ?c" by simp
  moreover have "pool_wf ?p"
    by (auto simp: pool_wf_def dyn_wf_def pool_distinct_def intro: exI [of _ 4])
  ultimately show ?thesis using pool_add_spec [of ?p ?c] by auto
qed

text \<open>C17. A pool with 32768 entries cannot take another one: the 16-bit capacity doubles to zero and
  the entry is stored outside the array.\<close>

theorem pool_add_overflow:
  assumes wf: "pool_wf p" and full: "length (items p) = 32768" and new: "\<forall>e \<in> set (items p). \<not> const_eq e c"
  shows "pool_add p c = Undef"
proof -
  obtain k where k: "k < 16" "unat (cap p) = 2 ^ k" "32768 \<le> unat (cap p)"
    using wf full by (auto simp: pool_wf_def dyn_wf_def)
  have "k = 15"
  proof (rule ccontr)
    assume "k \<noteq> 15"
    with k(1) have "k < 15" by simp
    then have "(2::nat) ^ k < 2 ^ 15" by (rule power_strict_increasing) simp
    with k(2,3) show False by simp
  qed
  with k(2) have "unat (cap p) = 32768" by simp
  with full have "dyn_push (2 ^ 4) p c = Undef" by (intro dyn_push_wraps) simp_all
  moreover have "find_index (\<lambda>e. const_eq e c) (items p) = None" using new by (simp add: find_index_None)
  ultimately show ?thesis by (simp add: pool_add_intern pool_intern_def pool_grow_def)
qed

lemma i64_pool_wf:
  assumes "m \<le> 32768" "c = 32768"
  shows "pool_wf \<lparr>items = map (\<lambda>n. ARC_CONST_I64 (of_nat n)) [0..<m], cap = c :: u16\<rparr>" (is "pool_wf ?p")
proof -
  have "(of_nat i :: i64) \<noteq> of_nat j" if "i < j" "j < m" for i j
    using that assms by (simp add: word_unat_eq_iff unat_of_nat)
  then have "sorted_wrt (\<lambda>a b. \<not> const_eq a b) (items ?p)"
    by (auto simp: sorted_wrt_map sorted_wrt_iff_nth_less)
  moreover have "dyn_wf 4 ?p" using assms by (auto simp: dyn_wf_def intro!: exI [of _ 15])
  ultimately show ?thesis by (simp add: pool_wf_def pool_distinct_def)
qed

theorem pool_add_overflow_witness:
  "pool_add \<lparr>items = map (\<lambda>n. ARC_CONST_I64 (of_nat n)) [0..<32768], cap = 32768\<rparr> ARC_CONST_NULL = Undef"
proof (rule pool_add_overflow)
  show "pool_wf \<lparr>items = map (\<lambda>n. ARC_CONST_I64 (of_nat n)) [0..<32768], cap = 32768 :: u16\<rparr>"
    by (rule i64_pool_wf) simp_all
qed (simp_all only: dynarr.simps length_map length_upt set_map set_upt, auto)

text \<open>What the reader makes of a run of constants: each one is interned again.\<close>

definition intern :: "ArcConstant list \<Rightarrow> ArcConstant \<Rightarrow> ArcConstant list" where
  "intern es c = (if \<exists>e \<in> set es. const_eq e c then es else es @ [c])"

lemma pool_add_intern_list:
  assumes "pool_wf p" "length (items p) < 32768"
  shows "\<exists>i p'. pool_add p c = Ret (i, p') \<and> items p' = intern (items p) c \<and> pool_wf p'"
  by (rule pool_add_cases [OF assms, of c])
    (use assms(1) in \<open>auto simp: intern_def pool_wf_def pool_distinct_def sorted_wrt_append\<close>)

lemma length_intern: "length (intern es c) \<le> Suc (length es)"
  by (simp add: intern_def)

text \<open>C18. Reading the encodings of any constants, duplicates included, gives the pool that interning them
  one by one gives. A file that holds a duplicate is therefore read with a shorter pool in which the
  later constants have smaller indices than in the file.\<close>

theorem read_constants_interns:
  assumes "list_all const_wf cs" "pool_wf p" "length (items p) + length cs \<le> 32768"
  shows "\<exists>p'. read_constants (length cs) (concat (map enc_const cs) @ r) p = Ret (r, p') \<and>
    items p' = foldl intern (items p) cs"
  using assms
proof (induction cs arbitrary: p)
  case Nil
  then show ?case by simp
next
  case (Cons c cs)
  from pool_add_intern_list [OF Cons.prems(2), of c] Cons.prems(3) obtain i p1 where
    p1: "pool_add p c = Ret (i, p1)" "items p1 = intern (items p) c" "pool_wf p1" by auto
  moreover have "length (items p1) + length cs \<le> 32768"
    using length_intern [of "items p" c] Cons.prems(3) p1(2) by simp
  ultimately show ?case using Cons.IH [of p1] Cons.prems(1) by (auto simp: read_constant_enc)
qed

theorem read_constants_interns_witness:
  "\<exists>p'. read_constants 3 (concat (map enc_const [ARC_CONST_I64 1, ARC_CONST_I64 1, ARC_CONST_I64 2])) arc_const_pool_init
      = Ret ([], p') \<and> items p' = [ARC_CONST_I64 1, ARC_CONST_I64 2]"
  using read_constants_interns [of "[ARC_CONST_I64 1, ARC_CONST_I64 1, ARC_CONST_I64 2]" arc_const_pool_init "[]"]
    pool_wf_init by (simp add: const_wf_def intern_def arc_const_pool_init_def numeral_eq_Suc del: read_constants.simps)

end
