(* ===== verification/Arc_Channel.thy ===== *)
theory Arc_Channel
  imports Arc_Prelude
begin

text \<open>
  The buffered channels of \<^verbatim>\<open>src/runtime/concurrency.c\<close> (\<^verbatim>\<open>ArcObjChannel\<close>, \<^verbatim>\<open>arc_obj_channel_new\<close>,
  \<^verbatim>\<open>arc_channel_send\<close>, \<^verbatim>\<open>arc_channel_recv\<close>): a ring buffer guarded by a mutex and two condition
  variables. A call holds the mutex from its first to its last statement except while it waits, so
  it is one atomic step that is taken when its loop condition lets it proceed; a call that has to
  wait is \<open>Blocks\<close>. The contract of a channel is a bounded first-in first-out queue, stated as
  the locale \<open>bounded_fifo\<close> and interpreted on the ring buffer.
\<close>

section \<open>The ring buffer\<close>

record 'v ArcObjChannel =
  ch_buffer :: "'v list"
  ch_cap :: u32
  ch_head :: u32
  ch_tail :: u32
  ch_count :: u32
  ch_closed :: bool

datatype 'a blocking = Blocks | Done 'a

definition arc_obj_channel_new :: "'v \<Rightarrow> u32 \<Rightarrow> 'v ArcObjChannel" where
  "arc_obj_channel_new zero capacity =
     (let c = (if 0 < capacity then capacity else 1)
      in \<lparr>ch_buffer = replicate (unat c) zero, ch_cap = c, ch_head = 0, ch_tail = 0, ch_count = 0,
          ch_closed = False\<rparr>)"

definition arc_channel_send :: "'v ArcObjChannel \<Rightarrow> 'v \<Rightarrow> (bool \<times> 'v ArcObjChannel) blocking" where
  "arc_channel_send ch v =
     (if ch_cap ch \<le> ch_count ch \<and> \<not> ch_closed ch then Blocks
      else if ch_closed ch then Done (False, ch)
      else Done (True, ch\<lparr>ch_buffer := (ch_buffer ch)[unat (ch_tail ch) := v],
                          ch_tail := (ch_tail ch + 1) mod ch_cap ch,
                          ch_count := ch_count ch + 1\<rparr>))"

definition arc_channel_recv :: "'v ArcObjChannel \<Rightarrow> ('v option \<times> 'v ArcObjChannel) blocking" where
  "arc_channel_recv ch =
     (if ch_count ch = 0 \<and> \<not> ch_closed ch then Blocks
      else if ch_count ch = 0 then Done (None, ch)
      else Done (Some (ch_buffer ch ! unat (ch_head ch)),
                 ch\<lparr>ch_head := (ch_head ch + 1) mod ch_cap ch, ch_count := ch_count ch - 1\<rparr>))"

section \<open>The contract: a bounded first-in first-out queue\<close>

datatype 'v chan_event = Sent 'v | Received 'v

fun sent :: "'v chan_event list \<Rightarrow> 'v list" where
  "sent [] = []"
| "sent (Sent v # es) = v # sent es"
| "sent (Received v # es) = sent es"

fun received :: "'v chan_event list \<Rightarrow> 'v list" where
  "received [] = []"
| "received (Sent v # es) = received es"
| "received (Received v # es) = v # received es"

text \<open>The successful operations of all clients of a channel in the order in which they took the
  mutex; the state after them, if they can happen in that order with those values.\<close>

fun fifo_run :: "('c \<Rightarrow> 'v \<Rightarrow> (bool \<times> 'c) blocking) \<Rightarrow> ('c \<Rightarrow> ('v option \<times> 'c) blocking) \<Rightarrow>
    'c \<Rightarrow> 'v chan_event list \<Rightarrow> 'c option" where
  "fifo_run psh pul c [] = Some c"
| "fifo_run psh pul c (Sent v # es) =
     (case psh c v of Done (True, c') \<Rightarrow> fifo_run psh pul c' es | _ \<Rightarrow> None)"
| "fifo_run psh pul c (Received v # es) =
     (case pul c of Done (Some w, c') \<Rightarrow> if w = v then fifo_run psh pul c' es else None | _ \<Rightarrow> None)"

locale bounded_fifo =
  fixes inv :: "'c \<Rightarrow> bool" and abs :: "'c \<Rightarrow> 'v list" and capacity :: "'c \<Rightarrow> nat" and closed :: "'c \<Rightarrow> bool"
    and psh :: "'c \<Rightarrow> 'v \<Rightarrow> (bool \<times> 'c) blocking" and pul :: "'c \<Rightarrow> ('v option \<times> 'c) blocking"
  assumes bounded: "inv c \<Longrightarrow> length (abs c) \<le> capacity c"
    and room: "inv c \<Longrightarrow> 0 < capacity c"
    and psh_open: "inv c \<Longrightarrow> \<not> closed c \<Longrightarrow> length (abs c) < capacity c \<Longrightarrow>
      \<exists>c'. psh c v = Done (True, c') \<and> inv c' \<and> abs c' = abs c @ [v] \<and> capacity c' = capacity c \<and> \<not> closed c'"
    and psh_full: "inv c \<Longrightarrow> \<not> closed c \<Longrightarrow> length (abs c) = capacity c \<Longrightarrow> psh c v = Blocks"
    and psh_closed: "closed c \<Longrightarrow> psh c v = Done (False, c)"
    and pul_some: "inv c \<Longrightarrow> abs c = v # vs \<Longrightarrow>
      \<exists>c'. pul c = Done (Some v, c') \<and> inv c' \<and> abs c' = vs \<and> capacity c' = capacity c \<and> closed c' = closed c"
    and pul_empty: "inv c \<Longrightarrow> abs c = [] \<Longrightarrow> \<not> closed c \<Longrightarrow> pul c = Blocks"
    and pul_drained: "inv c \<Longrightarrow> abs c = [] \<Longrightarrow> closed c \<Longrightarrow> pul c = Done (None, c)"
begin

lemma psh_Done_True:
  assumes "inv c" "psh c v = Done (True, c')"
  shows "inv c'" "abs c' = abs c @ [v]" "capacity c' = capacity c"
proof -
  have "\<not> closed c" using assms(2) psh_closed by force
  moreover have "length (abs c) < capacity c"
    using assms calculation bounded psh_full by (metis blocking.distinct(1) le_neq_implies_less)
  ultimately obtain c1 where "psh c v = Done (True, c1)" "inv c1" "abs c1 = abs c @ [v]" "capacity c1 = capacity c"
    using psh_open [OF assms(1)] by blast
  with assms(2) show "inv c'" "abs c' = abs c @ [v]" "capacity c' = capacity c" by simp_all
qed

lemma pul_Done_Some:
  assumes "inv c" "pul c = Done (Some v, c')"
  shows "inv c'" "abs c = v # abs c'" "capacity c' = capacity c"
proof -
  have "abs c \<noteq> []" using assms pul_empty pul_drained by (cases "closed c") force+
  then obtain w ws where w: "abs c = w # ws" by (cases "abs c") auto
  from pul_some [OF assms(1) w] assms(2) w show "inv c'" "abs c = v # abs c'" "capacity c' = capacity c" by auto
qed

lemma run_fifo:
  "inv c \<Longrightarrow> fifo_run psh pul c es = Some c' \<Longrightarrow>
    inv c' \<and> received es @ abs c' = abs c @ sent es \<and> capacity c' = capacity c"
proof (induction es arbitrary: c)
  case Nil
  then show ?case by simp
next
  case (Cons e es)
  show ?case
  proof (cases e)
    case (Sent v)
    with Cons.prems obtain c1 where c1: "psh c v = Done (True, c1)" "fifo_run psh pul c1 es = Some c'"
      by (auto split: blocking.splits bool.splits)
    from Cons.IH [OF psh_Done_True(1) [OF Cons.prems(1) c1(1)] c1(2)] psh_Done_True [OF Cons.prems(1) c1(1)] Sent
    show ?thesis by simp
  next
    case (Received v)
    with Cons.prems obtain c1 where c1: "pul c = Done (Some v, c1)" "fifo_run psh pul c1 es = Some c'"
      by (auto split: blocking.splits option.splits if_splits)
    from Cons.IH [OF pul_Done_Some(1) [OF Cons.prems(1) c1(1)] c1(2)] pul_Done_Some [OF Cons.prems(1) c1(1)] Received
    show ?thesis by simp
  qed
qed

lemma psh_Blocks: "inv c \<Longrightarrow> psh c v = Blocks \<longleftrightarrow> \<not> closed c \<and> length (abs c) = capacity c"
  using psh_open [of c v] psh_full [of c v] psh_closed [of c v] bounded [of c]
  by (cases "closed c"; cases "length (abs c) = capacity c") auto

lemma pul_Blocks: "inv c \<Longrightarrow> pul c = Blocks \<longleftrightarrow> \<not> closed c \<and> abs c = []"
  using pul_some [of c] pul_empty [of c] pul_drained [of c] by (cases "closed c"; cases "abs c") auto

text \<open>A blocked operation is enabled by the opposite one, which does not block.\<close>

lemma send_unblocks:
  assumes "inv c" "psh c v = Blocks"
  shows "\<exists>x c' c''. pul c = Done (Some x, c') \<and> psh c' v = Done (True, c'')"
proof -
  have o: "\<not> closed c" "length (abs c) = capacity c" using assms psh_Blocks by auto
  then obtain x xs where x: "abs c = x # xs" using room [OF assms(1)] by (cases "abs c") auto
  from pul_some [OF assms(1) x] obtain c' where "pul c = Done (Some x, c')" "inv c'" "abs c' = xs"
    "capacity c' = capacity c" "\<not> closed c'" using o(1) by auto
  with psh_open [of c' v] o(2) x show ?thesis by auto
qed

lemma recv_unblocks:
  assumes "inv c" "pul c = Blocks"
  shows "\<exists>c' c''. psh c v = Done (True, c') \<and> pul c' = Done (Some v, c'')"
proof -
  have o: "\<not> closed c" "abs c = []" using assms pul_Blocks by auto
  from psh_open [OF assms(1) o(1), of v] room [OF assms(1)] o(2) obtain c' where
    "psh c v = Done (True, c')" "inv c'" "abs c' = [v]" by auto
  with pul_some [of c' v "[]"] show ?thesis by auto
qed

end

section \<open>The ring buffer implements it\<close>

definition chan_inv :: "'v ArcObjChannel \<Rightarrow> bool" where
  "chan_inv ch \<longleftrightarrow> 0 < unat (ch_cap ch) \<and> length (ch_buffer ch) = unat (ch_cap ch) \<and>
     unat (ch_head ch) < unat (ch_cap ch) \<and> unat (ch_count ch) \<le> unat (ch_cap ch) \<and>
     unat (ch_tail ch) = (unat (ch_head ch) + unat (ch_count ch)) mod unat (ch_cap ch)"

definition chan_abs :: "'v ArcObjChannel \<Rightarrow> 'v list" where
  "chan_abs ch = map (\<lambda>i. ch_buffer ch ! ((unat (ch_head ch) + i) mod unat (ch_cap ch))) [0..<unat (ch_count ch)]"

lemma length_chan_abs [simp]: "length (chan_abs ch) = unat (ch_count ch)"
  by (simp add: chan_abs_def)

lemma unat_next:
  assumes "unat (i :: u32) < unat c"
  shows "unat ((i + 1) mod c) = (unat i + 1) mod unat c"
proof -
  have "unat (i + 1) = unat i + 1" using assms unat_less_4294967296 [of c] by (simp add: unat_word_ariths)
  then show ?thesis by (simp add: unat_mod)
qed

lemma send_ring:
  assumes inv: "chan_inv ch" and op: "\<not> ch_closed ch" and room: "unat (ch_count ch) < unat (ch_cap ch)"
  shows "\<exists>ch'. arc_channel_send ch v = Done (True, ch') \<and> chan_inv ch' \<and> chan_abs ch' = chan_abs ch @ [v] \<and>
    unat (ch_cap ch') = unat (ch_cap ch) \<and> \<not> ch_closed ch'"
proof -
  let ?c = "unat (ch_cap ch)" and ?h = "unat (ch_head ch)" and ?n = "unat (ch_count ch)" and ?t = "unat (ch_tail ch)"
  define ch' where "ch' = ch\<lparr>ch_buffer := (ch_buffer ch)[?t := v], ch_tail := (ch_tail ch + 1) mod ch_cap ch,
    ch_count := ch_count ch + 1\<rparr>"
  have t: "?t = (?h + ?n) mod ?c" "?t < ?c" "length (ch_buffer ch) = ?c" using inv by (auto simp: chan_inv_def)
  have n: "unat (ch_count ch + 1) = ?n + 1"
    using room unat_less_4294967296 [of "ch_cap ch"] by (simp add: unat_word_ariths)
  have "arc_channel_send ch v = Done (True, ch')"
    using op room by (simp add: arc_channel_send_def ch'_def word_le_nat_alt)
  moreover have "chan_inv ch'"
    using inv n room t(2) by (simp add: chan_inv_def ch'_def unat_next mod_Suc_eq)
  moreover have "chan_abs ch' = chan_abs ch @ [v]"
  proof -
    have other: "(?h + i) mod ?c \<noteq> ?t" if "i < ?n" for i
    proof
      assume "(?h + i) mod ?c = ?t"
      then have "(?n - i) mod ?c = 0" using t(1) that by (metis (no_types, lifting) add_diff_cancel_left le_add1 less_imp_le mod_eq_dvd_iff_nat mod_0_imp_dvd dvd_imp_mod_0 add_le_cancel_left)
      then show False using that room by simp
    qed
    have "chan_abs ch' = map (\<lambda>i. (ch_buffer ch)[?t := v] ! ((?h + i) mod ?c)) [0..<?n]
        @ [(ch_buffer ch)[?t := v] ! ?t]"
      by (simp add: chan_abs_def ch'_def n t(1))
    also have "\<dots> = chan_abs ch @ [v]"
      using other t(2,3) by (fastforce simp: chan_abs_def)
    finally show ?thesis .
  qed
  ultimately show ?thesis using op by (auto simp: ch'_def)
qed

lemma recv_ring:
  assumes inv: "chan_inv ch" and vs: "chan_abs ch = v # vs"
  shows "\<exists>ch'. arc_channel_recv ch = Done (Some v, ch') \<and> chan_inv ch' \<and> chan_abs ch' = vs \<and>
    unat (ch_cap ch') = unat (ch_cap ch) \<and> ch_closed ch' = ch_closed ch"
proof -
  let ?c = "unat (ch_cap ch)" and ?h = "unat (ch_head ch)"
  obtain n where n: "unat (ch_count ch) = Suc n" using vs length_chan_abs [of ch] by (metis length_Suc_conv)
  have h: "?h < ?c" using inv by (simp add: chan_inv_def)
  have n': "unat (ch_count ch - 1) = n" using n by (simp add: unat_sub word_le_nat_alt)
  have nz: "ch_count ch \<noteq> 0" using n by auto
  define ch' where "ch' = ch\<lparr>ch_head := (ch_head ch + 1) mod ch_cap ch, ch_count := ch_count ch - 1\<rparr>"
  have abs: "chan_abs ch = ch_buffer ch ! ?h # map (\<lambda>i. ch_buffer ch ! ((?h + Suc i) mod ?c)) [0..<n]"
    using h by (simp add: chan_abs_def n upt_conv_Cons map_Suc_upt [symmetric] o_def del: upt_Suc)
  have "arc_channel_recv ch = Done (Some v, ch')"
    using vs abs nz by (simp add: arc_channel_recv_def ch'_def)
  moreover have "chan_inv ch'"
    using inv n n' h by (simp add: chan_inv_def ch'_def unat_next mod_Suc_eq mod_add_left_eq)
  moreover have "chan_abs ch' = vs"
    using vs abs n' h by (simp add: chan_abs_def ch'_def unat_next mod_add_left_eq)
  ultimately show ?thesis by (auto simp: ch'_def)
qed

interpretation ring: bounded_fifo chan_inv chan_abs "\<lambda>ch. unat (ch_cap ch)" ch_closed arc_channel_send arc_channel_recv
proof unfold_locales
  fix c :: "'v ArcObjChannel" and v
  show "chan_inv c \<Longrightarrow> length (chan_abs c) \<le> unat (ch_cap c)" "chan_inv c \<Longrightarrow> 0 < unat (ch_cap c)"
    by (simp_all add: chan_inv_def)
  show "chan_inv c \<Longrightarrow> \<not> ch_closed c \<Longrightarrow> length (chan_abs c) = unat (ch_cap c) \<Longrightarrow> arc_channel_send c v = Blocks"
    by (simp add: arc_channel_send_def word_le_nat_alt)
  show "ch_closed c \<Longrightarrow> arc_channel_send c v = Done (False, c)"
    by (simp add: arc_channel_send_def)
  show "chan_inv c \<Longrightarrow> chan_abs c = [] \<Longrightarrow> \<not> ch_closed c \<Longrightarrow> arc_channel_recv c = Blocks"
    "chan_inv c \<Longrightarrow> chan_abs c = [] \<Longrightarrow> ch_closed c \<Longrightarrow> arc_channel_recv c = Done (None, c)"
    by (simp_all add: arc_channel_recv_def chan_abs_def unat_eq_0)
qed (use send_ring recv_ring in auto)

lemma chan_new_inv [wf_intros]: "chan_inv (arc_obj_channel_new z n)"
  by (simp add: chan_inv_def arc_obj_channel_new_def Let_def word_less_nat_alt unat_gt_0)

lemma chan_new_empty: "chan_abs (arc_obj_channel_new z n) = []"
  by (simp add: chan_abs_def arc_obj_channel_new_def Let_def)

section \<open>Properties\<close>

text \<open>C8. Every interleaving of sends and receives on a fresh channel delivers the sent values in order
  and loses none: what was received, followed by what is in the buffer, is what was sent; and the buffer
  never holds more than the requested capacity (at least one).\<close>

theorem channel_fifo:
  assumes "fifo_run arc_channel_send arc_channel_recv (arc_obj_channel_new z n) es = Some ch"
  shows "received es @ chan_abs ch = sent es \<and> length (chan_abs ch) \<le> max 1 (unat n)"
proof -
  from ring.run_fifo [OF chan_new_inv assms] have inv: "chan_inv ch"
    and "received es @ chan_abs ch = sent es" and c: "unat (ch_cap ch) = unat (ch_cap (arc_obj_channel_new z n))"
    by (simp_all add: chan_new_empty)
  moreover have "unat (ch_cap (arc_obj_channel_new z n)) \<le> max 1 (unat n)"
    by (simp add: arc_obj_channel_new_def Let_def)
  ultimately show ?thesis using ring.bounded [OF inv] by auto
qed

theorem channel_fifo_witness:
  "\<exists>ch. fifo_run arc_channel_send arc_channel_recv (arc_obj_channel_new (0::nat) 2)
     [Sent 5, Sent 6, Received 5, Sent 7, Received 6] = Some ch \<and> chan_abs ch = [7]"
proof -
  let ?es = "[Sent 5, Sent 6, Received 5, Sent 7, Received 6 :: nat chan_event]"
  have rep: "replicate 2 x = [x, x]" for x :: nat by (simp add: numeral_2_eq_2)
  have "\<exists>ch. fifo_run arc_channel_send arc_channel_recv (arc_obj_channel_new 0 2) ?es = Some ch"
    by (simp add: arc_obj_channel_new_def arc_channel_send_def arc_channel_recv_def rep word_le_nat_alt)
  then obtain ch where "fifo_run arc_channel_send arc_channel_recv (arc_obj_channel_new 0 2) ?es = Some ch" by blast
  with channel_fifo [OF this] show ?thesis by auto
qed



end
