(* ===== verification/Arc_Values.thy ===== *)
theory Arc_Values
  imports Arc_Channel Arc_F64 Bytecode_Format
begin

text \<open>
  Runtime values, virtual machine states and heap objects: \<^verbatim>\<open>src/vm/value.h\<close>, \<^verbatim>\<open>src/vm/value_ops.c\<close>,
  \<^verbatim>\<open>src/vm/vm.h\<close>, \<^verbatim>\<open>src/runtime/object.h\<close> and \<^verbatim>\<open>object.c\<close>. An object pointer is an address (a
  natural number) of the heap kept by the collector; the intrusive header (type tag, mark, next) is
  the constructor, a mark bit and the position in the collector's chain. The pointer to a stack slot
  in an upvalue names the machine whose stack it is (\<open>None\<close> for the main machine, \<open>Some a\<close> for the
  one of the coroutine or thread object \<open>a\<close>) and the slot. The open-upvalue chain linked through the
  objects is the list of their addresses. Arrays with a count are lists; the capacities that are
  doubled in a fixed width are kept, because the doubling can overflow.
\<close>

section \<open>Values\<close>

datatype ArcValue =
    VAL_NULL
  | VAL_BOOL bool
  | VAL_I64 i64
  | VAL_F64 f64
  | VAL_OBJ nat

fun arc_val_is_truthy :: "ArcValue \<Rightarrow> bool" where
  "arc_val_is_truthy VAL_NULL = False"
| "arc_val_is_truthy (VAL_BOOL b) = b"
| "arc_val_is_truthy (VAL_I64 i) = (i \<noteq> 0)"
| "arc_val_is_truthy (VAL_F64 d) = (\<not> f64_eq d 0)"
| "arc_val_is_truthy (VAL_OBJ a) = True"

section \<open>Machine state\<close>

definition ARC_STACK_MAX :: nat where "ARC_STACK_MAX = 1024"
definition ARC_FRAMES_MAX :: nat where "ARC_FRAMES_MAX = 256"
definition ARC_GLOBALS_MAX :: nat where "ARC_GLOBALS_MAX = 256"
definition ARC_HANDLER_MAX :: nat where "ARC_HANDLER_MAX = 64"

lemmas arc_max_defs = ARC_STACK_MAX_def ARC_FRAMES_MAX_def ARC_GLOBALS_MAX_def ARC_HANDLER_MAX_def

record ArcFrame =
  fr_func_idx :: u16
  return_ip :: u32
  base_slot :: u32

record ArcHandler =
  catch_ip :: u32
  stack_height :: u32
  frame_depth :: u32

record ArcVmError =
  err_code :: ArcStatus
  err_message :: string
  err_ip :: u32
  err_func_idx :: u16

text \<open>\<open>output\<close> names the stream the machine prints to, 0 for the standard output; the image and the
  collector it points to are shared by all machines and are arguments of the operations.\<close>

record ArcVm =
  stack :: "ArcValue list"
  sp :: u32
  frames :: "ArcFrame list"
  fp :: u32
  globals :: "ArcValue list"
  global_count :: u16
  ip :: u32
  halted :: bool
  error :: ArcVmError
  handlers :: "ArcHandler list"
  handler_count :: u32
  open_upvalues :: "nat list"
  out_stream :: nat
  trace :: bool
  yielded :: ArcValue

text \<open>A zeroed machine, as \<^verbatim>\<open>calloc\<close> and \<^verbatim>\<open>memset\<close> leave it.\<close>

definition zero_vm :: ArcVm where
  "zero_vm = \<lparr>stack = replicate ARC_STACK_MAX VAL_NULL, sp = 0,
     frames = replicate ARC_FRAMES_MAX \<lparr>fr_func_idx = 0, return_ip = 0, base_slot = 0\<rparr>, fp = 0,
     globals = replicate ARC_GLOBALS_MAX VAL_NULL, global_count = 0, ip = 0, halted = False,
     error = \<lparr>err_code = ARC_OK, err_message = [], err_ip = 0, err_func_idx = 0\<rparr>,
     handlers = replicate ARC_HANDLER_MAX \<lparr>catch_ip = 0, stack_height = 0, frame_depth = 0\<rparr>,
     handler_count = 0, open_upvalues = [], out_stream = 0, trace = False, yielded = VAL_NULL\<rparr>"

section \<open>Heap objects\<close>

datatype ArcObjType =
    OBJ_STRING | OBJ_ARRAY | OBJ_MAP | OBJ_CLOSURE | OBJ_UPVALUE | OBJ_RECORD | OBJ_BITVEC
  | OBJ_COROUTINE | OBJ_THREAD | OBJ_MUTEX | OBJ_CHANNEL

datatype ArcCoroStatus = CORO_READY | CORO_SUSPENDED | CORO_RUNNING | CORO_DEAD

text \<open>Where an upvalue points: a slot of a machine's stack, or its own \<^verbatim>\<open>closed\<close> field.\<close>

datatype uv_location = AtSlot "nat option" nat | AtClosed

datatype ArcObject =
    ObjString string
  | ObjArray "ArcValue list" nat
  | ObjMap "(ArcValue \<times> ArcValue) list" nat
  | ObjClosure u16 "nat option list"
  | ObjUpvalue uv_location ArcValue
  | ObjRecord string "(string \<times> ArcValue) list" u16
  | ObjBitvec "u8 list" u32
  | ObjCoroutine ArcVm ArcCoroStatus
  | ObjThread "ArcVm option" bool
  | ObjMutex bool
  | ObjChannel "ArcValue ArcObjChannel"

fun obj_type :: "ArcObject \<Rightarrow> ArcObjType" where
  "obj_type (ObjString _) = OBJ_STRING"
| "obj_type (ObjArray _ _) = OBJ_ARRAY"
| "obj_type (ObjMap _ _) = OBJ_MAP"
| "obj_type (ObjClosure _ _) = OBJ_CLOSURE"
| "obj_type (ObjUpvalue _ _) = OBJ_UPVALUE"
| "obj_type (ObjRecord _ _ _) = OBJ_RECORD"
| "obj_type (ObjBitvec _ _) = OBJ_BITVEC"
| "obj_type (ObjCoroutine _ _) = OBJ_COROUTINE"
| "obj_type (ObjThread _ _) = OBJ_THREAD"
| "obj_type (ObjMutex _) = OBJ_MUTEX"
| "obj_type (ObjChannel _) = OBJ_CHANNEL"

fun arc_obj_type_name :: "ArcObjType \<Rightarrow> string" where
  "arc_obj_type_name OBJ_STRING = ''string''"
| "arc_obj_type_name OBJ_ARRAY = ''array''"
| "arc_obj_type_name OBJ_MAP = ''map''"
| "arc_obj_type_name OBJ_CLOSURE = ''closure''"
| "arc_obj_type_name OBJ_UPVALUE = ''upvalue''"
| "arc_obj_type_name OBJ_RECORD = ''record''"
| "arc_obj_type_name OBJ_BITVEC = ''bitvec''"
| "arc_obj_type_name OBJ_COROUTINE = ''coroutine''"
| "arc_obj_type_name OBJ_THREAD = ''thread''"
| "arc_obj_type_name OBJ_MUTEX = ''mutex''"
| "arc_obj_type_name OBJ_CHANNEL = ''channel''"

section \<open>Association arrays\<close>

text \<open>Maps and records search an array of keys from the front, overwrite the value of the first
  match and append a new pair otherwise.\<close>

fun al_find :: "('k \<Rightarrow> 'k \<Rightarrow> bool) \<Rightarrow> ('k \<times> 'v) list \<Rightarrow> 'k \<Rightarrow> 'v option" where
  "al_find eq [] k = None"
| "al_find eq ((k', v) # ps) k = (if eq k' k then Some v else al_find eq ps k)"

fun al_update :: "('k \<Rightarrow> 'k \<Rightarrow> bool) \<Rightarrow> ('k \<times> 'v) list \<Rightarrow> 'k \<Rightarrow> 'v \<Rightarrow> ('k \<times> 'v) list option" where
  "al_update eq [] k v = None"
| "al_update eq ((k', w) # ps) k v =
     (if eq k' k then Some ((k', v) # ps) else map_option ((#) (k', w)) (al_update eq ps k v))"

definition al_set :: "('k \<Rightarrow> 'k \<Rightarrow> bool) \<Rightarrow> ('k \<times> 'v) list \<Rightarrow> 'k \<Rightarrow> 'v \<Rightarrow> ('k \<times> 'v) list" where
  "al_set eq ps k v = (case al_update eq ps k v of Some qs \<Rightarrow> qs | None \<Rightarrow> ps @ [(k, v)])"

lemma al_update_None: "al_update eq ps k v = None \<longleftrightarrow> (\<forall>(k', w) \<in> set ps. \<not> eq k' k)"
  by (induction ps) (auto split: if_splits)

lemma al_update_keys: "al_update eq ps k v = Some qs \<Longrightarrow> map fst qs = map fst ps"
  by (induction ps arbitrary: qs) (auto split: if_splits)

lemma al_find_append: "al_find eq (ps @ qs) k = (case al_find eq ps k of Some v \<Rightarrow> Some v | None \<Rightarrow> al_find eq qs k)"
  by (induction ps) auto

lemma al_find_None: "al_find eq ps k = None \<longleftrightarrow> (\<forall>(k', w) \<in> set ps. \<not> eq k' k)"
  by (induction ps) (auto split: if_splits)

text \<open>The laws of lookup and update, for any key equality that is a partial equivalence.\<close>

locale key_equality =
  fixes eq :: "'k \<Rightarrow> 'k \<Rightarrow> bool"
  assumes eq_sym: "eq a b \<Longrightarrow> eq b a" and eq_trans: "eq a b \<Longrightarrow> eq b c \<Longrightarrow> eq a c"
begin

lemma find_update_same: "al_update eq ps k v = Some qs \<Longrightarrow> al_find eq qs k = Some v"
  by (induction ps arbitrary: qs) (auto split: if_splits)

lemma find_update_other: "\<not> eq k k' \<Longrightarrow> al_update eq ps k v = Some qs \<Longrightarrow> al_find eq qs k' = al_find eq ps k'"
proof (induction ps arbitrary: qs)
  case (Cons p ps)
  show ?case
  proof (cases "eq (fst p) k")
    case True
    with Cons.prems(1) have "\<not> eq (fst p) k'" using eq_sym eq_trans by blast
    with True Cons.prems(2) show ?thesis by (cases p) auto
  next
    case False
    with Cons.prems(2) obtain rs where "al_update eq ps k v = Some rs" "qs = p # rs" by (cases p) auto
    with Cons.IH [OF Cons.prems(1)] show ?thesis by (cases p) auto
  qed
qed simp

lemma find_set_same:
  assumes "eq k k"
  shows "al_find eq (al_set eq ps k v) k = Some v"
proof (cases "al_update eq ps k v")
  case None
  then have "al_find eq ps k = None" by (simp only: al_update_None al_find_None)
  with None assms show ?thesis by (simp add: al_set_def al_find_append)
qed (simp add: al_set_def find_update_same)

lemma find_set_other: "\<not> eq k k' \<Longrightarrow> al_find eq (al_set eq ps k v) k' = al_find eq ps k'"
  by (cases "al_update eq ps k v") (auto simp: al_set_def find_update_other al_find_append split: option.splits)

text \<open>No key is stored twice.\<close>

lemma set_distinct:
  assumes "sorted_wrt (\<lambda>a b. \<not> eq a b) (map fst ps)"
  shows "sorted_wrt (\<lambda>a b. \<not> eq a b) (map fst (al_set eq ps k v))"
proof (cases "al_update eq ps k v")
  case None
  then have "\<forall>a \<in> set (map fst ps). \<not> eq a k" by (auto simp: al_update_None)
  with None assms show ?thesis by (simp add: al_set_def sorted_wrt_append)
next
  case (Some qs)
  with assms al_update_keys [OF Some] show ?thesis by (simp add: al_set_def)
qed

end

interpretation string_keys: key_equality "(=) :: string \<Rightarrow> string \<Rightarrow> bool"
  by unfold_locales auto

end
