(* ===== verification/Arc_GC.thy ===== *)
theory Arc_GC
  imports Arc_Values
begin

text \<open>
  The mark-sweep collector: \<^verbatim>\<open>src/runtime/gc.h\<close>, \<^verbatim>\<open>gc.c\<close> and the marking of concurrency objects in
  \<^verbatim>\<open>src/runtime/concurrency.c\<close>. Memory is a list of cells indexed by address, each holding a mark bit
  and an object, or nothing once freed; an address is never handed out twice. The chain of all
  objects is the list of their addresses, newest first. Marking a freed or foreign address is a
  use after free and gives \<^const>\<open>Undef\<close>. The recursion of \<^verbatim>\<open>arc_gc_mark_object\<close> is a worklist of the
  calls that are still to be made; \<open>mark_object_rec\<close> below is the recursive equation of the code.
\<close>

section \<open>State\<close>

definition ARC_GC_INITIAL_THRESHOLD :: u64 where "ARC_GC_INITIAL_THRESHOLD = 1024"
definition ARC_GC_GROW_FACTOR :: u64 where "ARC_GC_GROW_FACTOR = 2"

type_synonym mem_cells = "(bool \<times> ArcObject) option list"

record ArcGC =
  mem :: mem_cells
  objects :: "nat list"
  bytes_allocated :: u64
  next_gc :: u64
  stress_mode :: bool
  alloc_count :: u32
  collect_count :: u32

definition arc_gc_init :: "ArcGC \<Rightarrow> ArcGC" where
  "arc_gc_init gc = gc\<lparr>objects := [], bytes_allocated := 0, next_gc := ARC_GC_INITIAL_THRESHOLD,
     stress_mode := False, alloc_count := 0, collect_count := 0\<rparr>"

definition arc_gc_create :: ArcGC where
  "arc_gc_create = arc_gc_init \<lparr>mem = [], objects = [], bytes_allocated = 0, next_gc = 0,
     stress_mode = False, alloc_count = 0, collect_count = 0\<rparr>"

definition arc_gc_set_stress :: "ArcGC \<Rightarrow> bool \<Rightarrow> ArcGC" where
  "arc_gc_set_stress gc enabled = gc\<lparr>stress_mode := enabled\<rparr>"

text \<open>The object at an address, if the address is live.\<close>

definition cell_obj :: "mem_cells \<Rightarrow> nat \<Rightarrow> ArcObject option" where
  "cell_obj m a = (if a < length m then map_option snd (m ! a) else None)"

abbreviation heap_get :: "ArcGC \<Rightarrow> nat \<Rightarrow> ArcObject option" where
  "heap_get gc \<equiv> cell_obj (mem gc)"

text \<open>Writing a field of the object at a live address keeps its mark.\<close>

definition heap_put :: "ArcGC \<Rightarrow> nat \<Rightarrow> ArcObject \<Rightarrow> ArcGC" where
  "heap_put gc a ob = gc\<lparr>mem := (mem gc)[a := map_option (\<lambda>(k, _). (k, ob)) (mem gc ! a)]\<rparr>"

text \<open>The new cell is the zeroed object with its fields filled in by the constructor that called.\<close>

definition arc_gc_alloc :: "ArcGC \<Rightarrow> u64 \<Rightarrow> ArcObject \<Rightarrow> nat \<times> ArcGC" where
  "arc_gc_alloc gc sz ob =
     (length (mem gc),
      gc\<lparr>mem := mem gc @ [Some (False, ob)], objects := length (mem gc) # objects gc,
         bytes_allocated := bytes_allocated gc + sz, alloc_count := alloc_count gc + 1\<rparr>)"

section \<open>Marking\<close>

fun value_refs :: "ArcValue \<Rightarrow> nat list" where
  "value_refs (VAL_OBJ a) = [a]"
| "value_refs _ = []"

definition values_refs :: "ArcValue list \<Rightarrow> nat list" where
  "values_refs vs = concat (map value_refs vs)"

text \<open>\<^verbatim>\<open>idx = (ch->head + i) % ch->cap\<close>.\<close>

definition channel_values :: "ArcValue ArcObjChannel \<Rightarrow> ArcValue list" where
  "channel_values ch =
     map (\<lambda>i. ch_buffer ch ! unat ((ch_head ch + of_nat i) mod ch_cap ch)) [0..<unat (ch_count ch)]"

text \<open>\<^verbatim>\<open>arc_concurrency_mark_obj\<close>: the references of a coroutine, thread or channel.\<close>

fun concurrency_refs :: "ArcObject \<Rightarrow> nat list" where
  "concurrency_refs (ObjCoroutine vm _) =
     values_refs (take (unat (sp vm)) (stack vm)) @
     values_refs (take (unat (global_count vm)) (globals vm)) @ value_refs (yielded vm)"
| "concurrency_refs (ObjThread (Some vm) _) =
     values_refs (take (unat (sp vm)) (stack vm)) @
     values_refs (take (unat (global_count vm)) (globals vm))"
| "concurrency_refs (ObjChannel ch) = values_refs (channel_values ch)"
| "concurrency_refs _ = []"

text \<open>The objects \<^verbatim>\<open>arc_gc_mark_object\<close> goes on to, in the order of its calls.\<close>

fun obj_refs :: "ArcObject \<Rightarrow> nat list" where
  "obj_refs (ObjString _) = []"
| "obj_refs (ObjBitvec _ _) = []"
| "obj_refs (ObjArray xs _) = values_refs xs"
| "obj_refs (ObjMap kvs _) = concat (map (\<lambda>(k, v). value_refs k @ value_refs v) kvs)"
| "obj_refs (ObjClosure _ uvs) = concat (map (\<lambda>u. case u of Some a \<Rightarrow> [a] | None \<Rightarrow> []) uvs)"
| "obj_refs (ObjUpvalue _ c) = value_refs c"
| "obj_refs (ObjRecord _ fs _) = values_refs (map snd fs)"
| "obj_refs ob = concurrency_refs ob"

definition unmarked :: "mem_cells \<Rightarrow> nat" where
  "unmarked m = length (filter (\<lambda>c. case c of Some (False, _) \<Rightarrow> True | _ \<Rightarrow> False) m)"

lemma unmarked_mark_less:
  assumes "a < length m" "m ! a = Some (False, ob)"
  shows "unmarked (m[a := Some (True, ob)]) < unmarked m"
proof -
  let ?P = "\<lambda>c. case c of Some (False, _) \<Rightarrow> True | _ \<Rightarrow> False"
  have split: "m = take a m @ Some (False, ob) # drop (Suc a) m"
    using assms by (simp add: id_take_nth_drop [of a m, symmetric] flip: assms(2))
  have "filter ?P (m[a := Some (True, ob)]) = filter ?P (take a m) @ filter ?P (drop (Suc a) m)"
    using assms(1) by (simp add: upd_conv_take_nth_drop)
  moreover have "filter ?P m = filter ?P (take a m) @ Some (False, ob) # filter ?P (drop (Suc a) m)"
    by (subst split) simp
  ultimately show ?thesis by (simp add: unmarked_def)
qed

function mark :: "mem_cells \<Rightarrow> nat list \<Rightarrow> mem_cells outcome" where
  "mark m [] = Ret m"
| "mark m (a # as) =
     (if a < length m then
        case m ! a of
          None \<Rightarrow> Undef
        | Some (k, ob) \<Rightarrow>
            if k then mark m as else mark (m[a := Some (True, ob)]) (obj_refs ob @ as)
      else Undef)"
  by pat_completeness auto

termination
  by (relation "measures [\<lambda>(m, as). unmarked m, \<lambda>(m, as). length as]") (auto simp: unmarked_mark_less)

definition arc_gc_mark_object :: "mem_cells \<Rightarrow> nat \<Rightarrow> mem_cells outcome" where
  "arc_gc_mark_object m a = mark m [a]"

definition arc_gc_mark_value :: "mem_cells \<Rightarrow> ArcValue \<Rightarrow> mem_cells outcome" where
  "arc_gc_mark_value m v = (case v of VAL_OBJ a \<Rightarrow> arc_gc_mark_object m a | _ \<Rightarrow> Ret m)"

lemma mark_append: "mark m (as @ bs) = andthen (mark m as) (\<lambda>m. mark m bs)"
  by (induction m as rule: mark.induct) (auto split: option.splits)

text \<open>The recursion as the code has it: mark the object, then mark its references in turn.\<close>

fun mark_seq :: "mem_cells \<Rightarrow> nat list \<Rightarrow> mem_cells outcome" where
  "mark_seq m [] = Ret m"
| "mark_seq m (a # as) = andthen (arc_gc_mark_object m a) (\<lambda>m. mark_seq m as)"

lemma mark_seq: "mark_seq m as = mark m as"
proof (induction as arbitrary: m)
  case (Cons a as)
  then show ?case using mark_append [of m "[a]" as] by (simp add: arc_gc_mark_object_def del: mark.simps(2))
qed simp

lemma mark_object_rec:
  "arc_gc_mark_object m a =
     (if a < length m then
        case m ! a of
          None \<Rightarrow> Undef
        | Some (k, ob) \<Rightarrow> if k then Ret m else mark_seq (m[a := Some (True, ob)]) (obj_refs ob)
      else Undef)"
  by (simp add: arc_gc_mark_object_def mark_seq split: option.split)

section \<open>Sweeping and collection\<close>

text \<open>The sweep walks the chain, clears the marks of the objects it keeps and frees the others
  (\<^verbatim>\<open>free_object\<close>).\<close>

definition free_object :: "mem_cells \<Rightarrow> nat \<Rightarrow> mem_cells" where
  "free_object m a = m[a := None]"

fun sweep :: "mem_cells \<Rightarrow> nat list \<Rightarrow> mem_cells \<times> nat list" where
  "sweep m [] = (m, [])"
| "sweep m (a # as) =
     (case m ! a of
        Some (True, ob) \<Rightarrow> (let (m', chain) = sweep (m[a := Some (False, ob)]) as in (m', a # chain))
      | _ \<Rightarrow> sweep (free_object m a) as)"

definition arc_gc_collect ::
  "ArcGC \<Rightarrow> ArcValue list \<Rightarrow> u32 \<Rightarrow> ArcValue list \<Rightarrow> u16 \<Rightarrow> nat list \<Rightarrow> ArcGC outcome" where
  "arc_gc_collect gc stk s glb gn uvs =
     (if length stk < unat s \<or> length glb < unat gn then Undef
      else
        andthen (mark_seq (mem gc) (values_refs (take (unat s) stk))) (\<lambda>m.
        andthen (mark_seq m (values_refs (take (unat gn) glb))) (\<lambda>m.
        andthen (mark_seq m uvs) (\<lambda>m.
          let (m', chain) = sweep m (objects gc);
              n = bytes_allocated gc * ARC_GC_GROW_FACTOR
          in Ret (gc\<lparr>mem := m', objects := chain, collect_count := collect_count gc + 1,
                     next_gc := (if n < ARC_GC_INITIAL_THRESHOLD then ARC_GC_INITIAL_THRESHOLD else n)\<rparr>)))))"

definition arc_gc_free_all :: "ArcGC \<Rightarrow> ArcGC" where
  "arc_gc_free_all gc = gc\<lparr>mem := foldl free_object (mem gc) (objects gc), objects := [], bytes_allocated := 0\<rparr>"

section \<open>Invariant\<close>

definition live :: "ArcGC \<Rightarrow> nat set" where
  "live gc = {a. heap_get gc a \<noteq> None}"

definition is_marked :: "mem_cells \<Rightarrow> nat \<Rightarrow> bool" where
  "is_marked m a \<longleftrightarrow> a < length m \<and> (case m ! a of Some (k, _) \<Rightarrow> k | None \<Rightarrow> False)"

definition heap_wf :: "ArcGC \<Rightarrow> bool" where
  "heap_wf gc \<longleftrightarrow> distinct (objects gc) \<and> set (objects gc) = live gc \<and> (\<forall>a. \<not> is_marked (mem gc) a) \<and>
     (\<forall>a ob. heap_get gc a = Some ob \<longrightarrow> set (obj_refs ob) \<subseteq> live gc)"

inductive reachable :: "(nat \<Rightarrow> ArcObject option) \<Rightarrow> nat set \<Rightarrow> nat \<Rightarrow> bool" for h and roots where
  root: "a \<in> roots \<Longrightarrow> reachable h roots a"
| ref: "reachable h roots a \<Longrightarrow> h a = Some ob \<Longrightarrow> b \<in> set (obj_refs ob) \<Longrightarrow> reachable h roots b"

section \<open>Marking marks exactly the reachable objects\<close>

lemma cell_obj_mark [simp]:
  "m ! a = Some (k, ob) \<Longrightarrow> cell_obj (m[a := Some (k', ob)]) = cell_obj m"
  by (cases "a < length m") (auto simp: cell_obj_def fun_eq_iff nth_list_update)

lemma is_marked_live: "is_marked m a \<Longrightarrow> cell_obj m a \<noteq> None"
  by (auto simp: is_marked_def cell_obj_def split: option.splits)

lemma is_marked_update:
  "a < length m \<Longrightarrow> is_marked (m[a := Some (k, ob)]) b \<longleftrightarrow> (if b = a then k else is_marked m b)"
  by (auto simp: is_marked_def nth_list_update)

lemma mark_correct:
  assumes "\<forall>a ob. cell_obj m a = Some ob \<longrightarrow> (\<forall>b \<in> set (obj_refs ob). cell_obj m b \<noteq> None)"
    and "\<forall>a \<in> set ws. cell_obj m a \<noteq> None"
    and "\<forall>a ob. is_marked m a \<longrightarrow> cell_obj m a = Some ob \<longrightarrow> set (obj_refs ob) \<subseteq> {b. is_marked m b} \<union> set ws"
    and "\<forall>a. is_marked m a \<or> a \<in> set ws \<longrightarrow> reachable (cell_obj m) R a"
  shows "\<exists>m'. mark m ws = Ret m' \<and> cell_obj m' = cell_obj m \<and> length m' = length m \<and>
    (\<forall>a. is_marked m a \<or> a \<in> set ws \<longrightarrow> is_marked m' a) \<and>
    (\<forall>a ob. is_marked m' a \<longrightarrow> cell_obj m a = Some ob \<longrightarrow> set (obj_refs ob) \<subseteq> {b. is_marked m' b}) \<and>
    (\<forall>a. is_marked m' a \<longrightarrow> reachable (cell_obj m) R a)"
  using assms
proof (induction m ws rule: mark.induct)
  case (1 m)
  then show ?case by auto
next
  case (2 m a as)
  from "2.prems"(2) obtain k ob where a: "a < length m" "m ! a = Some (k, ob)"
    by (auto simp: cell_obj_def split: if_splits)
  show ?case
  proof (cases k)
    case True
    then have ma: "is_marked m a" using a by (simp add: is_marked_def)
    have "\<exists>m'. mark m as = Ret m' \<and> cell_obj m' = cell_obj m \<and> length m' = length m \<and>
      (\<forall>b. is_marked m b \<or> b \<in> set as \<longrightarrow> is_marked m' b) \<and>
      (\<forall>b ob. is_marked m' b \<longrightarrow> cell_obj m b = Some ob \<longrightarrow> set (obj_refs ob) \<subseteq> {b. is_marked m' b}) \<and>
      (\<forall>b. is_marked m' b \<longrightarrow> reachable (cell_obj m) R b)"
      using True a ma "2.prems" by (intro "2.IH"(1) [OF a(1,2) refl]) (auto, blast)
    with True a ma show ?thesis by auto
  next
    case False
    let ?m = "m[a := Some (True, ob)]"
    have co: "cell_obj ?m = cell_obj m" and ca: "cell_obj m a = Some ob" using a by (auto simp: cell_obj_def)
    note im = is_marked_update [OF a(1), of True ob]
    have "\<exists>m'. mark ?m (obj_refs ob @ as) = Ret m' \<and> cell_obj m' = cell_obj ?m \<and> length m' = length ?m \<and>
      (\<forall>b. is_marked ?m b \<or> b \<in> set (obj_refs ob @ as) \<longrightarrow> is_marked m' b) \<and>
      (\<forall>b ob. is_marked m' b \<longrightarrow> cell_obj ?m b = Some ob \<longrightarrow> set (obj_refs ob) \<subseteq> {b. is_marked m' b}) \<and>
      (\<forall>b. is_marked m' b \<longrightarrow> reachable (cell_obj ?m) R b)"
    proof (rule "2.IH"(2) [OF a(1,2) refl False])
      show "\<forall>b \<in> set (obj_refs ob @ as). cell_obj ?m b \<noteq> None"
        unfolding co using "2.prems"(1,2) ca by auto
      show "\<forall>b ob'. is_marked ?m b \<longrightarrow> cell_obj ?m b = Some ob' \<longrightarrow>
          set (obj_refs ob') \<subseteq> {b. is_marked ?m b} \<union> set (obj_refs ob @ as)"
        unfolding co im using "2.prems"(3) ca by (fastforce split: if_splits)
      show "\<forall>b. is_marked ?m b \<or> b \<in> set (obj_refs ob @ as) \<longrightarrow> reachable (cell_obj ?m) R b"
        unfolding co im using "2.prems"(4) reachable.ref [of "cell_obj m" R a ob] ca by (auto split: if_splits)
    qed (use "2.prems"(1) co in simp)
    then show ?thesis unfolding co using a False im by (auto split: if_splits)
  qed
qed

section \<open>Sweeping keeps exactly the marked objects\<close>

lemma sweep_correct:
  assumes "distinct chain" "\<forall>a \<in> set chain. cell_obj m a \<noteq> None"
  shows "snd (sweep m chain) = filter (is_marked m) chain \<and>
    (\<forall>a. cell_obj (fst (sweep m chain)) a = (if a \<in> set chain \<and> \<not> is_marked m a then None else cell_obj m a)) \<and>
    (\<forall>a. is_marked (fst (sweep m chain)) a \<longleftrightarrow> is_marked m a \<and> a \<notin> set chain)"
  using assms
proof (induction chain arbitrary: m)
  case Nil
  then show ?case by simp
next
  case (Cons a as)
  obtain k ob where a: "a < length m" "m ! a = Some (k, ob)"
    using Cons.prems(2) by (auto simp: cell_obj_def split: if_splits)
  define m1 where "m1 = (if k then m[a := Some (False, ob)] else m[a := None])"
  have ca: "is_marked m a = k" using a by (simp add: is_marked_def)
  have co: "cell_obj m1 b = (if b = a \<and> \<not> k then None else cell_obj m b)"
    and im: "is_marked m1 b \<longleftrightarrow> is_marked m b \<and> b \<noteq> a" for b
    using a by (auto simp: m1_def cell_obj_def is_marked_def nth_list_update)
  have "\<forall>b \<in> set as. cell_obj m1 b \<noteq> None" using Cons.prems co by auto
  note ih = Cons.IH [OF _ this]
  have f: "filter (is_marked m1) as = filter (is_marked m) as"
    using Cons.prems(1) im by (auto intro!: filter_cong)
  have "sweep m (a # as) = (fst (sweep m1 as), if k then a # snd (sweep m1 as) else snd (sweep m1 as))"
    using a by (simp add: m1_def free_object_def split_def Let_def)
  moreover have "snd (sweep m1 as) = filter (is_marked m) as" using ih Cons.prems(1) f by simp
  moreover have "cell_obj (fst (sweep m1 as)) b = (if b \<in> set (a # as) \<and> \<not> is_marked m b then None else cell_obj m b)"
    "is_marked (fst (sweep m1 as)) b \<longleftrightarrow> is_marked m b \<and> b \<notin> set (a # as)" for b
    using ih Cons.prems(1) ca co [of b] im [of b] by auto
  ultimately show ?case using ca by auto
qed

lemma mark_seqs:
  "andthen (mark_seq m as) (\<lambda>m. andthen (mark_seq m bs) (\<lambda>m. andthen (mark_seq m cs) f))
    = andthen (mark m (as @ bs @ cs)) f"
  by (simp add: mark_seq mark_append andthen_assoc)

text \<open>The addresses a collection starts from.\<close>

definition gc_roots :: "ArcValue list \<Rightarrow> u32 \<Rightarrow> ArcValue list \<Rightarrow> u16 \<Rightarrow> nat list \<Rightarrow> nat list" where
  "gc_roots stk s glb gn uvs = values_refs (take (unat s) stk) @ values_refs (take (unat gn) glb) @ uvs"

lemma collect_correct:
  assumes roots_def: "roots = gc_roots stk s glb gn uvs"
    and wf: "heap_wf gc" and roots: "set roots \<subseteq> live gc" and len: "unat s \<le> length stk" "unat gn \<le> length glb"
  shows "\<exists>gc'. arc_gc_collect gc stk s glb gn uvs = Ret gc' \<and> heap_wf gc' \<and>
    (\<forall>a. heap_get gc' a = (if reachable (heap_get gc) (set roots) a then heap_get gc a else None)) \<and>
    objects gc' = filter (reachable (heap_get gc) (set roots)) (objects gc)"
proof -
  let ?R = "reachable (heap_get gc) (set roots)"
  have wfD: "distinct (objects gc)" "set (objects gc) = live gc" "\<And>a. \<not> is_marked (mem gc) a"
    "\<And>a ob. heap_get gc a = Some ob \<Longrightarrow> set (obj_refs ob) \<subseteq> live gc" using wf by (auto simp: heap_wf_def)
  obtain m where m: "mark (mem gc) roots = Ret m" "cell_obj m = heap_get gc"
    and sub: "\<forall>a \<in> set roots. is_marked m a"
    and closed: "\<forall>a ob. is_marked m a \<longrightarrow> heap_get gc a = Some ob \<longrightarrow> set (obj_refs ob) \<subseteq> {b. is_marked m b}"
    and sound: "\<forall>a. is_marked m a \<longrightarrow> ?R a"
    using mark_correct [of "mem gc" roots "set roots"] wfD(3,4) roots
    by (fastforce simp: live_def intro: reachable.root)
  have marked: "is_marked m a \<longleftrightarrow> ?R a" for a
  proof
    assume "?R a" then show "is_marked m a"
      by (induction rule: reachable.induct) (use sub closed in blast)+
  qed (use sound in blast)
  have mf: "is_marked m = ?R" using marked by blast
  have "\<forall>a \<in> set (objects gc). cell_obj m a \<noteq> None" using wfD(2) m(2) by (auto simp: live_def)
  from sweep_correct [OF wfD(1) this] have sw: "snd (sweep m (objects gc)) = filter ?R (objects gc)"
    "\<And>a. cell_obj (fst (sweep m (objects gc))) a = (if ?R a then heap_get gc a else None)"
    "\<And>a. \<not> is_marked (fst (sweep m (objects gc))) a"
    using mf wfD(2) m(2) is_marked_live [of m] by (auto simp: live_def)
  let ?gc = "gc\<lparr>mem := fst (sweep m (objects gc)), objects := snd (sweep m (objects gc)),
    collect_count := collect_count gc + 1, next_gc := (let n = bytes_allocated gc * ARC_GC_GROW_FACTOR in
      if n < ARC_GC_INITIAL_THRESHOLD then ARC_GC_INITIAL_THRESHOLD else n)\<rparr>"
  have "arc_gc_collect gc stk s glb gn uvs = Ret ?gc"
    using len m(1) by (simp add: arc_gc_collect_def mark_seqs roots_def gc_roots_def split_def Let_def)
  moreover have "heap_wf ?gc"
    using wfD(1,2) sw wfD(4) [unfolded live_def subset_iff]
    by (fastforce simp: heap_wf_def live_def split: if_splits intro: reachable.ref)
  ultimately show ?thesis using sw by auto
qed

section \<open>Allocation\<close>

lemma heap_wf_create [wf_intros]: "heap_wf arc_gc_create"
  by (auto simp: heap_wf_def arc_gc_create_def arc_gc_init_def live_def cell_obj_def is_marked_def)

lemma cell_obj_append:
  "cell_obj (m @ [Some (k, ob)]) a = (if a = length m then Some ob else cell_obj m a)"
  by (auto simp: cell_obj_def nth_append less_Suc_eq)

lemma alloc_heap_get:
  "arc_gc_alloc gc sz ob = (a, gc') \<Longrightarrow> heap_get gc' b = (if b = a then Some ob else heap_get gc b)"
  by (auto simp: arc_gc_alloc_def cell_obj_append)

lemma alloc_fresh_address: "arc_gc_alloc gc sz ob = (a, gc') \<Longrightarrow> heap_get gc a = None"
  by (auto simp: arc_gc_alloc_def cell_obj_def)

lemma alloc_heap_wf [wf_intros]:
  assumes "heap_wf gc" "set (obj_refs ob) \<subseteq> live gc"
  shows "heap_wf (snd (arc_gc_alloc gc sz ob))"
proof -
  obtain a gc' where e: "arc_gc_alloc gc sz ob = (a, gc')" by (cases "arc_gc_alloc gc sz ob")
  note h = alloc_heap_get [OF e] and n = alloc_fresh_address [OF e]
  have l: "live gc' = insert a (live gc)" using h by (auto simp: live_def)
  have o: "objects gc' = a # objects gc" and m: "is_marked (mem gc') b \<longleftrightarrow> is_marked (mem gc) b" for b
    using e by (auto simp: arc_gc_alloc_def is_marked_def nth_append less_Suc_eq)
  have "a \<notin> live gc" using n by (simp add: live_def)
  with assms o m l h show ?thesis unfolding e by (fastforce simp: heap_wf_def split: if_splits)
qed

section \<open>Properties\<close>


text \<open>A heap with a cycle of two arrays, one of them on the stack, and a string nobody holds.\<close>

definition cyclic_heap :: ArcGC where
  "cyclic_heap = \<lparr>mem = [Some (False, ObjArray [VAL_OBJ 1] 8), Some (False, ObjArray [VAL_OBJ 0] 8),
     Some (False, ObjString ''x'')], objects = [2, 1, 0], bytes_allocated = 90, next_gc = 1024,
     stress_mode = False, alloc_count = 3, collect_count = 0\<rparr>"

lemma cyclic_heap_get:
  "heap_get cyclic_heap a = (if a = 0 then Some (ObjArray [VAL_OBJ 1] 8) else if a = 1 then Some (ObjArray [VAL_OBJ 0] 8)
     else if a = 2 then Some (ObjString ''x'') else None)"
  by (simp add: cyclic_heap_def cell_obj_def less_Suc_eq nth_Cons' numeral_2_eq_2)

lemma cyclic_heap_live: "live cyclic_heap = {0, 1, 2}"
  by (auto simp: live_def cyclic_heap_get split: if_splits)

lemma cyclic_heap_wf: "heap_wf cyclic_heap"
  unfolding heap_wf_def cyclic_heap_live cyclic_heap_get
  by (auto simp: cyclic_heap_def is_marked_def values_refs_def less_Suc_eq nth_Cons' split: if_splits)

lemma cyclic_heap_reachable: "reachable (heap_get cyclic_heap) {0} a \<longleftrightarrow> a = 0 \<or> a = 1"
proof
  show "reachable (heap_get cyclic_heap) {0} a \<Longrightarrow> a = 0 \<or> a = 1"
    by (induction rule: reachable.induct) (auto simp: cyclic_heap_get values_refs_def)
  have "reachable (heap_get cyclic_heap) {0} 0" by (rule reachable.root) simp
  moreover from this have "reachable (heap_get cyclic_heap) {0} 1"
    by (rule reachable.ref) (auto simp: cyclic_heap_get values_refs_def)
  ultimately show "a = 0 \<or> a = 1 \<Longrightarrow> reachable (heap_get cyclic_heap) {0} a" by auto
qed


text \<open>C25. A coroutine that is waiting keeps its open upvalues in its own machine, and
  \<^verbatim>\<open>arc_concurrency_mark_obj\<close> does not follow that chain: a collection frees an upvalue that the
  suspended machine will still write to when its function returns.\<close>

definition coro_heap :: ArcGC where
  "coro_heap = \<lparr>mem = [Some (False, ObjUpvalue (AtSlot (Some 1) 0) VAL_NULL),
     Some (False, ObjCoroutine (zero_vm\<lparr>open_upvalues := [0], fp := 1\<rparr>) CORO_SUSPENDED)],
     objects = [1, 0], bytes_allocated = 80, next_gc = 1024, stress_mode = False, alloc_count = 2, collect_count = 0\<rparr>"


end
