(* ===== verification/Arc_Objects.thy ===== *)
theory Arc_Objects
  imports Arc_GC
begin

text \<open>
  The operations of \<^verbatim>\<open>src/runtime/object.c\<close>, the constructors of \<^verbatim>\<open>src/runtime/concurrency.c\<close> and
  \<^verbatim>\<open>src/vm/value_ops.c\<close> on the heap. A constructor returns the address of the new object and the heap; an
  operation on an object takes its address, and is \<^const>\<open>Undef\<close> when the address holds no such object.
  Object sizes are those of the x86-64 System V ABI. Printing recurses over the object graph; its depth
  argument is the recursion depth the C stack affords, and running out of it is \<^const>\<open>Undef\<close>. The
  conversion \<^verbatim>\<open>%g\<close> of the C library is an argument.
\<close>

section \<open>Strings of C\<close>

definition c_str :: "string \<Rightarrow> string" where
  "c_str s = takeWhile (\<lambda>c. c \<noteq> CHR 0x00) s"

fun dec_digits :: "nat \<Rightarrow> string" where
  "dec_digits n = (if n < 10 then [char_of (48 + n)] else dec_digits (n div 10) @ [char_of (48 + n mod 10)])"

declare dec_digits.simps [simp del]

definition dec_int :: "int \<Rightarrow> string" where
  "dec_int i = (if i < 0 then CHR ''-'' # dec_digits (nat (- i)) else dec_digits (nat i))"

definition pad4 :: "string \<Rightarrow> string" where
  "pad4 s = replicate (4 - length s) (CHR ''0'') @ s"

definition hex_digit :: "nat \<Rightarrow> char" where
  "hex_digit n = (if n < 10 then char_of (48 + n) else char_of (55 + n))"

section \<open>Constructors\<close>

text \<open>\<^verbatim>\<open>sizeof\<close> of the object structures.\<close>

fun sizeof_obj :: "ArcObjType \<Rightarrow> u64" where
  "sizeof_obj OBJ_STRING = 24"
| "sizeof_obj OBJ_ARRAY = 32"
| "sizeof_obj OBJ_MAP = 40"
| "sizeof_obj OBJ_CLOSURE = 40"
| "sizeof_obj OBJ_UPVALUE = 48"
| "sizeof_obj OBJ_RECORD = 48"
| "sizeof_obj OBJ_BITVEC = 32"
| "sizeof_obj OBJ_COROUTINE = 32"
| "sizeof_obj OBJ_THREAD = 40"
| "sizeof_obj OBJ_MUTEX = 64"
| "sizeof_obj OBJ_CHANNEL = 184"

definition arc_obj_string_new :: "ArcGC \<Rightarrow> string \<Rightarrow> nat \<times> ArcGC" where
  "arc_obj_string_new gc s = arc_gc_alloc gc (sizeof_obj OBJ_STRING + of_nat (length s) + 1) (ObjString s)"

text \<open>The length is a \<^verbatim>\<open>uint32_t\<close> sum; when it wraps the two copies overrun the object.\<close>

definition arc_obj_string_concat :: "ArcGC \<Rightarrow> string \<Rightarrow> string \<Rightarrow> (nat \<times> ArcGC) outcome" where
  "arc_obj_string_concat gc a b =
     (if 2 ^ 32 \<le> length a + length b then Undef
      else Ret (arc_gc_alloc gc (sizeof_obj OBJ_STRING + of_nat (length a + length b) + 1) (ObjString (a @ b))))"

definition arc_obj_array_new :: "ArcGC \<Rightarrow> int \<Rightarrow> nat \<times> ArcGC" where
  "arc_obj_array_new gc initial_cap =
     arc_gc_alloc gc (sizeof_obj OBJ_ARRAY) (ObjArray [] (if 0 < initial_cap then nat initial_cap else 8))"

text \<open>Doubling a capacity of type \<^verbatim>\<open>int32_t\<close>; overflow is undefined.\<close>

definition grow_i32 :: "nat \<Rightarrow> nat \<Rightarrow> nat outcome" where
  "grow_i32 n c =
     (if n < c then Ret c
      else let c' = (if c < 8 then 8 else c * 2) in if 2 ^ 31 \<le> c' then Undef else Ret c')"

definition arc_obj_array_push :: "ArcGC \<Rightarrow> nat \<Rightarrow> ArcValue \<Rightarrow> ArcGC outcome" where
  "arc_obj_array_push gc a v =
     (case heap_get gc a of
        Some (ObjArray xs c) \<Rightarrow>
          andthen (grow_i32 (length xs) c) (\<lambda>c'. Ret (heap_put gc a (ObjArray (xs @ [v]) c')))
      | _ \<Rightarrow> Undef)"

definition arc_obj_map_new :: "ArcGC \<Rightarrow> int \<Rightarrow> nat \<times> ArcGC" where
  "arc_obj_map_new gc initial_cap =
     arc_gc_alloc gc (sizeof_obj OBJ_MAP) (ObjMap [] (if 0 < initial_cap then nat initial_cap else 8))"

definition arc_obj_closure_new :: "ArcGC \<Rightarrow> u16 \<Rightarrow> nat \<Rightarrow> nat \<times> ArcGC" where
  "arc_obj_closure_new gc func_idx upvalue_count =
     arc_gc_alloc gc (sizeof_obj OBJ_CLOSURE) (ObjClosure func_idx (replicate upvalue_count None))"

definition arc_obj_upvalue_new :: "ArcGC \<Rightarrow> nat option \<Rightarrow> nat \<Rightarrow> nat \<times> ArcGC" where
  "arc_obj_upvalue_new gc vm_id slot =
     arc_gc_alloc gc (sizeof_obj OBJ_UPVALUE) (ObjUpvalue (AtSlot vm_id slot) VAL_NULL)"

definition arc_obj_record_new :: "ArcGC \<Rightarrow> string \<Rightarrow> u16 \<Rightarrow> nat \<times> ArcGC" where
  "arc_obj_record_new gc type_name field_count =
     arc_gc_alloc gc (sizeof_obj OBJ_RECORD) (ObjRecord type_name [] (if 0 < field_count then field_count else 4))"

definition arc_obj_bitvec_new :: "ArcGC \<Rightarrow> u32 \<Rightarrow> nat \<times> ArcGC" where
  "arc_obj_bitvec_new gc bit_count =
     (let byte_count = (bit_count + 7) div 8
      in arc_gc_alloc gc (sizeof_obj OBJ_BITVEC)
           (ObjBitvec (replicate (if 0 < byte_count then unat byte_count else 1) 0) bit_count))"

definition arc_obj_thread_new :: "ArcGC \<Rightarrow> nat \<times> ArcGC" where
  "arc_obj_thread_new gc = arc_gc_alloc gc (sizeof_obj OBJ_THREAD) (ObjThread None False)"

definition arc_obj_mutex_new :: "ArcGC \<Rightarrow> nat \<times> ArcGC" where
  "arc_obj_mutex_new gc = arc_gc_alloc gc (sizeof_obj OBJ_MUTEX) (ObjMutex False)"

definition obj_channel_new :: "ArcGC \<Rightarrow> u32 \<Rightarrow> nat \<times> ArcGC" where
  "obj_channel_new gc capacity =
     arc_gc_alloc gc (sizeof_obj OBJ_CHANNEL) (ObjChannel (arc_obj_channel_new VAL_NULL capacity))"

text \<open>The machine of a coroutine: the frame of its function with all locals null. More than 1024
  locals overrun the stack of the machine.\<close>

definition entry_vm :: "ArcVm \<Rightarrow> u16 \<Rightarrow> ArcFuncRecord \<Rightarrow> ArcValue list \<Rightarrow> ArcVm outcome" where
  "entry_vm vm func_idx fn args =
     (if ARC_STACK_MAX < unat (local_count fn) then Undef
      else Ret (vm\<lparr>frames := (frames vm)[0 := \<lparr>fr_func_idx = func_idx, return_ip = 0, base_slot = 0\<rparr>],
        fp := 1, ip := code_offset fn, sp := ucast (local_count fn),
        stack := map (\<lambda>i. if i < length args then args ! i else VAL_NULL) [0..<unat (local_count fn)]
                 @ drop (unat (local_count fn)) (stack vm)\<rparr>))"

definition arc_obj_coroutine_new :: "ArcGC \<Rightarrow> ArcBytecodeImage \<Rightarrow> u16 \<Rightarrow> (nat \<times> ArcGC) outcome" where
  "arc_obj_coroutine_new gc img func_idx =
     andthen (if unat func_idx < length (items (img_functions img))
              then entry_vm zero_vm func_idx (items (img_functions img) ! unat func_idx) []
              else Ret zero_vm) (\<lambda>vm.
       Ret (arc_gc_alloc gc (sizeof_obj OBJ_COROUTINE) (ObjCoroutine vm CORO_READY)))"

section \<open>Equality\<close>

fun same_contents :: "ArcObject \<Rightarrow> ArcObject \<Rightarrow> bool" where
  "same_contents (ObjString s) (ObjString t) = (length s = length t \<and> s = t)"
| "same_contents (ObjBitvec x n) (ObjBitvec y m) =
     (n = m \<and> take (unat ((n + 7) div 8)) x = take (unat ((n + 7) div 8)) y)"
| "same_contents _ _ = False"

definition arc_obj_equal :: "ArcGC \<Rightarrow> nat \<Rightarrow> nat \<Rightarrow> bool" where
  "arc_obj_equal gc a b \<longleftrightarrow>
     a = b \<or>
     (case heap_get gc a of
        Some x \<Rightarrow> (case heap_get gc b of Some y \<Rightarrow> same_contents x y | None \<Rightarrow> False)
      | None \<Rightarrow> False)"

fun arc_val_equal :: "ArcGC \<Rightarrow> ArcValue \<Rightarrow> ArcValue \<Rightarrow> bool" where
  "arc_val_equal gc VAL_NULL VAL_NULL = True"
| "arc_val_equal gc (VAL_BOOL a) (VAL_BOOL b) = (a = b)"
| "arc_val_equal gc (VAL_I64 a) (VAL_I64 b) = (a = b)"
| "arc_val_equal gc (VAL_F64 a) (VAL_F64 b) = f64_eq a b"
| "arc_val_equal gc (VAL_OBJ a) (VAL_OBJ b) = arc_obj_equal gc a b"
| "arc_val_equal gc _ _ = False"

lemma same_contents_iff:
  "same_contents x y \<longleftrightarrow> (\<exists>s. x = ObjString s \<and> y = ObjString s) \<or>
     (\<exists>p q n. x = ObjBitvec p n \<and> y = ObjBitvec q n \<and>
        take (unat ((n + 7) div 8)) p = take (unat ((n + 7) div 8)) q)"
  by (cases x; cases y) auto

lemma same_contents_sym: "same_contents x y \<Longrightarrow> same_contents y x"
  by (auto simp: same_contents_iff)

lemma same_contents_trans: "same_contents x y \<Longrightarrow> same_contents y z \<Longrightarrow> same_contents x z"
  by (auto simp: same_contents_iff)

lemma arc_obj_equal_sym: "arc_obj_equal gc a b \<Longrightarrow> arc_obj_equal gc b a"
  by (auto simp: arc_obj_equal_def same_contents_sym split: option.splits)

lemma arc_obj_equal_trans: "arc_obj_equal gc a b \<Longrightarrow> arc_obj_equal gc b c \<Longrightarrow> arc_obj_equal gc a c"
  by (auto simp: arc_obj_equal_def intro: same_contents_trans split: option.splits)

interpretation value_keys: key_equality "arc_val_equal gc" for gc
proof
  show "arc_val_equal gc a b \<Longrightarrow> arc_val_equal gc b a" for a b
    by (cases a; cases b) (auto simp: f64_eq_sym arc_obj_equal_sym)
  show "arc_val_equal gc a b \<Longrightarrow> arc_val_equal gc b c \<Longrightarrow> arc_val_equal gc a c" for a b c
    by (cases a; cases b; cases c) (auto intro: f64_eq_trans arc_obj_equal_trans)
qed

section \<open>Maps, records, bit vectors\<close>

definition arc_obj_map_set :: "ArcGC \<Rightarrow> nat \<Rightarrow> ArcValue \<Rightarrow> ArcValue \<Rightarrow> (bool \<times> ArcGC) outcome" where
  "arc_obj_map_set gc a key v =
     (case heap_get gc a of
        Some (ObjMap kvs c) \<Rightarrow>
          (case al_update (arc_val_equal gc) kvs key v of
             Some kvs' \<Rightarrow> Ret (True, heap_put gc a (ObjMap kvs' c))
           | None \<Rightarrow> andthen (grow_i32 (length kvs) c) (\<lambda>c'.
               Ret (False, heap_put gc a (ObjMap (kvs @ [(key, v)]) c'))))
      | _ \<Rightarrow> Undef)"

definition arc_obj_map_get :: "ArcGC \<Rightarrow> nat \<Rightarrow> ArcValue \<Rightarrow> ArcValue option outcome" where
  "arc_obj_map_get gc a key =
     (case heap_get gc a of Some (ObjMap kvs c) \<Rightarrow> Ret (al_find (arc_val_equal gc) kvs key) | _ \<Rightarrow> Undef)"

definition arc_obj_record_set :: "ArcGC \<Rightarrow> nat \<Rightarrow> string \<Rightarrow> ArcValue \<Rightarrow> (bool \<times> ArcGC) outcome" where
  "arc_obj_record_set gc a field v =
     (case heap_get gc a of
        Some (ObjRecord t fs c) \<Rightarrow>
          (case al_update (=) fs field v of
             Some fs' \<Rightarrow> Ret (True, heap_put gc a (ObjRecord t fs' c))
           | None \<Rightarrow>
               let c' = (if unat c \<le> length fs then (if c < 4 then 4 else c * 2) else c)
               in if length fs < unat c'
                  then Ret (False, heap_put gc a (ObjRecord t (fs @ [(field, v)]) c'))
                  else Undef)
      | _ \<Rightarrow> Undef)"

definition arc_obj_record_get :: "ArcGC \<Rightarrow> nat \<Rightarrow> string \<Rightarrow> ArcValue option outcome" where
  "arc_obj_record_get gc a field =
     (case heap_get gc a of Some (ObjRecord t fs c) \<Rightarrow> Ret (al_find (=) fs field) | _ \<Rightarrow> Undef)"

text \<open>\<^verbatim>\<open>while (b) { count += b & 1; b >>= 1; }\<close>\<close>

function popcount_byte :: "u8 \<Rightarrow> nat" where
  "popcount_byte b = (if b = 0 then 0 else (if odd b then 1 else 0) + popcount_byte (drop_bit 1 b))"
  by pat_completeness auto

termination
proof (relation "measure unat")
  fix b :: u8 assume "b \<noteq> 0"
  then have "unat b div 2 < unat b" by (simp add: unat_gt_0)
  moreover have "drop_bit 1 b = b div 2" by (simp add: drop_bit_Suc)
  ultimately show "(drop_bit 1 b, b) \<in> measure unat" by (simp only: in_measure unat_div) simp
qed simp

declare popcount_byte.simps [simp del]

definition bitvec_popcount :: "u8 list \<Rightarrow> u32 \<Rightarrow> nat" where
  "bitvec_popcount bytes bit_count = sum_list (map popcount_byte (take (unat ((bit_count + 7) div 8)) bytes))"

section \<open>Printing\<close>

text \<open>Printing a value, given how objects are printed; and the loops over the elements of an array or
  record (with the field label) and over the pairs of a map.\<close>

definition print_value :: "(f64 \<Rightarrow> string) \<Rightarrow> (nat \<Rightarrow> string outcome) \<Rightarrow> ArcValue \<Rightarrow> string outcome" where
  "print_value g obj v =
     (case v of
        VAL_NULL \<Rightarrow> Ret ''null''
      | VAL_BOOL b \<Rightarrow> Ret (if b then ''true'' else ''false'')
      | VAL_I64 i \<Rightarrow> Ret (dec_int (sint i))
      | VAL_F64 x \<Rightarrow> Ret (g x)
      | VAL_OBJ a \<Rightarrow> obj a)"

primrec print_list :: "(ArcValue \<Rightarrow> string outcome) \<Rightarrow> (string \<times> ArcValue) list \<Rightarrow> bool \<Rightarrow> string outcome" where
  "print_list pv [] first = Ret []"
| "print_list pv (x # xs) first =
     andthen (pv (snd x)) (\<lambda>s. andthen (print_list pv xs False) (\<lambda>t.
       Ret ((if first then [] else '', '') @ fst x @ s @ t)))"

primrec print_pairs :: "(ArcValue \<Rightarrow> string outcome) \<Rightarrow> (ArcValue \<times> ArcValue) list \<Rightarrow> bool \<Rightarrow> string outcome" where
  "print_pairs pv [] first = Ret []"
| "print_pairs pv (kv # kvs) first =
     andthen (pv (fst kv)) (\<lambda>s. andthen (pv (snd kv)) (\<lambda>t. andthen (print_pairs pv kvs False) (\<lambda>u.
       Ret ((if first then [] else '', '') @ s @ '': '' @ t @ u))))"

primrec arc_obj_print :: "(f64 \<Rightarrow> string) \<Rightarrow> ArcGC \<Rightarrow> nat \<Rightarrow> nat \<Rightarrow> string outcome" where
  "arc_obj_print g gc 0 = (\<lambda>a. Undef)"
| "arc_obj_print g gc (Suc d) = (\<lambda>a.
     case heap_get gc a of
       None \<Rightarrow> Undef
     | Some (ObjString s) \<Rightarrow> Ret (c_str s)
     | Some (ObjArray xs _) \<Rightarrow>
         andthen (print_list (print_value g (arc_obj_print g gc d)) (map (\<lambda>x. ([], x)) xs) True)
           (\<lambda>s. Ret (''['' @ s @ '']''))
     | Some (ObjMap kvs _) \<Rightarrow>
         andthen (print_pairs (print_value g (arc_obj_print g gc d)) kvs True) (\<lambda>s. Ret (''{'' @ s @ ''}''))
     | Some (ObjClosure f _) \<Rightarrow> Ret (''<closure '' @ dec_digits (unat f) @ ''>'')
     | Some (ObjUpvalue _ _) \<Rightarrow> Ret ''<upvalue>''
     | Some (ObjRecord t fs _) \<Rightarrow>
         andthen (print_list (print_value g (arc_obj_print g gc d)) (map (\<lambda>(n, x). (c_str n @ '': '', x)) fs) True)
           (\<lambda>s. Ret (c_str t @ ''{'' @ s @ ''}''))
     | Some (ObjBitvec _ n) \<Rightarrow> Ret (''<bitvec '' @ dec_digits (unat n) @ ''>'')
     | Some (ObjCoroutine _ _) \<Rightarrow> Ret ''<coroutine>''
     | Some (ObjThread _ _) \<Rightarrow> Ret ''<thread>''
     | Some (ObjMutex _) \<Rightarrow> Ret ''<mutex>''
     | Some (ObjChannel _) \<Rightarrow> Ret ''<channel>'')"

definition arc_val_print :: "(f64 \<Rightarrow> string) \<Rightarrow> ArcGC \<Rightarrow> nat \<Rightarrow> ArcValue \<Rightarrow> string outcome" where
  "arc_val_print g gc d v = print_value g (arc_obj_print g gc d) v"

section \<open>Heap updates\<close>

lemma heap_get_put:
  "heap_get gc a \<noteq> None \<Longrightarrow> heap_get (heap_put gc a ob) b = (if b = a then Some ob else heap_get gc b)"
  by (auto simp: cell_obj_def heap_put_def nth_list_update split: if_splits)

lemma arc_val_equal_put:
  assumes "heap_get gc a = Some x" "obj_type x = obj_type y" "obj_type x \<noteq> OBJ_STRING" "obj_type x \<noteq> OBJ_BITVEC"
  shows "arc_val_equal (heap_put gc a y) = arc_val_equal gc"
proof -
  have no: "\<not> same_contents x z" "\<not> same_contents z x" "\<not> same_contents y z" "\<not> same_contents z y" for z
    using assms(2-4) by (auto simp: same_contents_iff)
  have "arc_obj_equal (heap_put gc a y) b c = arc_obj_equal gc b c" for b c
    using assms(1) no by (auto simp: arc_obj_equal_def heap_get_put split: option.splits)
  then have "arc_val_equal (heap_put gc a y) u w = arc_val_equal gc u w" for u w
    by (cases u; cases w) auto
  then show ?thesis by blast
qed

lemma grow_i32_ok: "n < 2 ^ 30 \<Longrightarrow> \<exists>c'. grow_i32 n c = Ret c'"
  by (auto simp: grow_i32_def Let_def)

lemma al_set_update: "al_set eq ps k v = (case al_update eq ps k v of Some qs \<Rightarrow> qs | None \<Rightarrow> ps @ [(k, v)])"
  by (simp add: al_set_def)

lemma map_set_result:
  assumes "heap_get gc a = Some (ObjMap kvs c)" "length kvs < 2 ^ 30"
  shows "\<exists>c'. arc_obj_map_set gc a k v =
    Ret (al_find (arc_val_equal gc) kvs k \<noteq> None, heap_put gc a (ObjMap (al_set (arc_val_equal gc) kvs k v) c'))"
proof (cases "al_update (arc_val_equal gc) kvs k v")
  case None
  then have "al_find (arc_val_equal gc) kvs k = None" by (simp only: al_update_None al_find_None)
  moreover obtain c' where "grow_i32 (length kvs) c = Ret c'" using grow_i32_ok [OF assms(2)] by blast
  ultimately show ?thesis using None assms(1) by (auto simp: arc_obj_map_set_def al_set_update)
next
  case (Some qs)
  then have "\<not> (\<forall>(k', w) \<in> set kvs. \<not> arc_val_equal gc k' k)"
    unfolding al_update_None [where v = v, symmetric] by simp
  then have "al_find (arc_val_equal gc) kvs k \<noteq> None" unfolding al_find_None .
  with Some assms(1) show ?thesis by (auto simp: arc_obj_map_set_def al_set_update)
qed

lemma popcount_byte_card: "popcount_byte b = card {i. bit b i}"
proof (induction b rule: popcount_byte.induct)
  case (1 b)
  show ?case
  proof (cases "b = 0")
    case False
    have fin: "finite {i. bit (w :: u8) i}" for w
      by (rule finite_subset [of _ "{..<8}"]) (auto dest: bit_imp_le_length)
    have set: "{i. bit b i} = (if odd b then {0} else {}) \<union> Suc ` {i. bit (drop_bit 1 b) i}"
    proof (rule set_eqI)
      fix i show "i \<in> {i. bit b i} \<longleftrightarrow> i \<in> (if odd b then {0} else {}) \<union> Suc ` {i. bit (drop_bit 1 b) i}"
        by (cases i) (auto simp: bit_drop_bit_eq bit_0 simp flip: bit_Suc)
    qed
    have "card {i. bit b i} = (if odd b then 1 else 0) + card {i. bit (drop_bit 1 b) i}"
      unfolding set using fin [of "drop_bit 1 b"] by (subst card_Un_disjoint) (auto simp: card_image)
    with 1 False show ?thesis by (simp add: popcount_byte.simps [of b])
  qed (simp add: popcount_byte.simps)
qed

section \<open>Properties\<close>

text \<open>C23. A map behaves as a finite map under the language's equality: after \<^verbatim>\<open>arc_obj_map_set\<close> the key
  (unless it is a NaN, which is not equal to itself) has the new value, every key different from it has the
  value it had, the result tells whether the key was present, and no other object changes.\<close>

theorem map_set_get:
  assumes "heap_get gc a = Some (ObjMap kvs c)" "length kvs < 2 ^ 30"
  shows "\<exists>gc'. arc_obj_map_set gc a k v = Ret (arc_obj_map_get gc a k \<noteq> Ret None, gc') \<and>
    (arc_val_equal gc k k \<longrightarrow> arc_obj_map_get gc' a k = Ret (Some v)) \<and>
    (\<forall>k'. \<not> arc_val_equal gc k k' \<longrightarrow> arc_obj_map_get gc' a k' = arc_obj_map_get gc a k') \<and>
    (\<forall>b. b \<noteq> a \<longrightarrow> heap_get gc' b = heap_get gc b)"
proof -
  let ?eq = "arc_val_equal gc"
  obtain c' where s: "arc_obj_map_set gc a k v =
      Ret (al_find ?eq kvs k \<noteq> None, heap_put gc a (ObjMap (al_set ?eq kvs k v) c'))"
    using map_set_result [OF assms] by blast
  define gc' where "gc' = heap_put gc a (ObjMap (al_set ?eq kvs k v) c')"
  have eq: "arc_val_equal gc' = ?eq" unfolding gc'_def by (rule arc_val_equal_put [OF assms(1)]) simp_all
  have g: "arc_obj_map_get gc' a k' = Ret (al_find ?eq (al_set ?eq kvs k v) k')"
    "arc_obj_map_get gc a k' = Ret (al_find ?eq kvs k')" for k'
    using assms(1) eq by (simp_all add: arc_obj_map_get_def gc'_def heap_get_put)
  have "heap_get gc' b = heap_get gc b" if "b \<noteq> a" for b
    using that assms(1) by (simp add: gc'_def heap_get_put)
  then show ?thesis
    using s g value_keys.find_set_same value_keys.find_set_other by (auto simp flip: gc'_def)
qed

definition map_heap :: ArcGC where
  "map_heap = \<lparr>mem = [Some (False, ObjMap [(VAL_I64 1, VAL_NULL)] 8)], objects = [0], bytes_allocated = 40,
     next_gc = 1024, stress_mode = False, alloc_count = 1, collect_count = 0\<rparr>"

theorem map_set_get_witness:
  "\<exists>gc'. arc_obj_map_set map_heap 0 (VAL_I64 7) (VAL_BOOL True) = Ret (False, gc') \<and>
    arc_obj_map_get gc' 0 (VAL_I64 7) = Ret (Some (VAL_BOOL True)) \<and>
    arc_obj_map_get gc' 0 (VAL_I64 1) = Ret (Some VAL_NULL)"
proof -
  have "heap_get map_heap 0 = Some (ObjMap [(VAL_I64 1, VAL_NULL)] 8)" by (simp add: map_heap_def cell_obj_def)
  with map_set_get [OF this, of "VAL_I64 7" "VAL_BOOL True"] show ?thesis
    by (auto simp: arc_obj_map_get_def)
qed

text \<open>C24. The population count of a bit vector is the number of set bits of its bytes.\<close>

theorem bitvec_popcount_card:
  "bitvec_popcount bytes n = (\<Sum>b \<leftarrow> take (unat ((n + 7) div 8)) bytes. card {i. bit b i})"
  unfolding bitvec_popcount_def by (simp only: popcount_byte_card [abs_def])

end
