(* ===== verification/Opcodes.thy ===== *)
theory Opcodes
  imports Arc_Prelude
begin

text \<open>
  The opcode table of \<^verbatim>\<open>src/bytecode/opcodes.h\<close>: the X-macro rows as a datatype with one column
  function per macro argument, the decoder that every \<^verbatim>\<open>switch\<close> over an opcode byte performs, the
  four accessor functions the header generates, the intrinsic ids, and the assembler's mnemonic
  lookup (\<^verbatim>\<open>lookup_opcode\<close> and \<^verbatim>\<open>is_opcode\<close> of \<^verbatim>\<open>tools/arcana-asm.c\<close>), which is shown to invert
  the mnemonic column.
\<close>

section \<open>The table\<close>

datatype (plugins only: code size) ArcOpcode =
    OP_CONST | OP_POP | OP_DUP | OP_LOAD_LOCAL | OP_STORE_LOCAL | OP_LOAD_GLOBAL
    | OP_STORE_GLOBAL | OP_CAST_I64 | OP_CAST_F64 | OP_CAST_STR | OP_ADD | OP_SUB | OP_MUL
    | OP_DIV | OP_MOD | OP_NEG | OP_STR_LEN | OP_STR_SLICE | OP_STR_INDEX | OP_BIT_AND
    | OP_BIT_OR | OP_BIT_XOR | OP_BIT_NOT | OP_SHL | OP_SHR | OP_EQ | OP_NEQ | OP_LT | OP_LE
    | OP_GT | OP_GE | OP_NOT | OP_JUMP | OP_JUMP_IF_FALSE | OP_JUMP_IF_TRUE | OP_TRY_BEGIN
    | OP_TRY_END | OP_THROW | OP_CALL | OP_RETURN | OP_CLOSURE | OP_GET_UPVAL | OP_SET_UPVAL
    | OP_CLOSE_UPVAL | OP_ARRAY_NEW | OP_INDEX_GET | OP_INDEX_SET | OP_LENGTH | OP_MAP_NEW
    | OP_RECORD_NEW | OP_FIELD_GET | OP_FIELD_SET | OP_CORO_NEW | OP_CORO_RESUME | OP_CORO_YIELD
    | OP_CORO_STATUS | OP_THREAD_SPAWN | OP_THREAD_JOIN | OP_MUTEX_NEW | OP_MUTEX_LOCK
    | OP_MUTEX_UNLOCK | OP_CHAN_NEW | OP_CHAN_SEND | OP_CHAN_RECV | OP_INTRINSIC | OP_HALT

text \<open>The rows in the order of the macro.\<close>

definition ARC_OPCODES :: "ArcOpcode list" where
  "ARC_OPCODES =
    [OP_CONST, OP_POP, OP_DUP, OP_LOAD_LOCAL, OP_STORE_LOCAL, OP_LOAD_GLOBAL, OP_STORE_GLOBAL
     , OP_CAST_I64, OP_CAST_F64, OP_CAST_STR, OP_ADD, OP_SUB, OP_MUL, OP_DIV, OP_MOD, OP_NEG
     , OP_STR_LEN, OP_STR_SLICE, OP_STR_INDEX, OP_BIT_AND, OP_BIT_OR, OP_BIT_XOR, OP_BIT_NOT
     , OP_SHL, OP_SHR, OP_EQ, OP_NEQ, OP_LT, OP_LE, OP_GT, OP_GE, OP_NOT, OP_JUMP
     , OP_JUMP_IF_FALSE, OP_JUMP_IF_TRUE, OP_TRY_BEGIN, OP_TRY_END, OP_THROW, OP_CALL, OP_RETURN
     , OP_CLOSURE, OP_GET_UPVAL, OP_SET_UPVAL, OP_CLOSE_UPVAL, OP_ARRAY_NEW, OP_INDEX_GET
     , OP_INDEX_SET, OP_LENGTH, OP_MAP_NEW, OP_RECORD_NEW, OP_FIELD_GET, OP_FIELD_SET
     , OP_CORO_NEW, OP_CORO_RESUME, OP_CORO_YIELD, OP_CORO_STATUS, OP_THREAD_SPAWN
     , OP_THREAD_JOIN, OP_MUTEX_NEW, OP_MUTEX_LOCK, OP_MUTEX_UNLOCK, OP_CHAN_NEW, OP_CHAN_SEND
     , OP_CHAN_RECV, OP_INTRINSIC, OP_HALT]"

primrec op_byte :: "ArcOpcode \<Rightarrow> u8" where
  "op_byte OP_CONST = 0x01"
| "op_byte OP_POP = 0x02"
| "op_byte OP_DUP = 0x03"
| "op_byte OP_LOAD_LOCAL = 0x10"
| "op_byte OP_STORE_LOCAL = 0x11"
| "op_byte OP_LOAD_GLOBAL = 0x12"
| "op_byte OP_STORE_GLOBAL = 0x13"
| "op_byte OP_CAST_I64 = 0x14"
| "op_byte OP_CAST_F64 = 0x15"
| "op_byte OP_CAST_STR = 0x16"
| "op_byte OP_ADD = 0x20"
| "op_byte OP_SUB = 0x21"
| "op_byte OP_MUL = 0x22"
| "op_byte OP_DIV = 0x23"
| "op_byte OP_MOD = 0x24"
| "op_byte OP_NEG = 0x25"
| "op_byte OP_STR_LEN = 0x26"
| "op_byte OP_STR_SLICE = 0x27"
| "op_byte OP_STR_INDEX = 0x28"
| "op_byte OP_BIT_AND = 0x29"
| "op_byte OP_BIT_OR = 0x2A"
| "op_byte OP_BIT_XOR = 0x2B"
| "op_byte OP_BIT_NOT = 0x2C"
| "op_byte OP_SHL = 0x2D"
| "op_byte OP_SHR = 0x2E"
| "op_byte OP_EQ = 0x30"
| "op_byte OP_NEQ = 0x31"
| "op_byte OP_LT = 0x32"
| "op_byte OP_LE = 0x33"
| "op_byte OP_GT = 0x34"
| "op_byte OP_GE = 0x35"
| "op_byte OP_NOT = 0x36"
| "op_byte OP_JUMP = 0x40"
| "op_byte OP_JUMP_IF_FALSE = 0x41"
| "op_byte OP_JUMP_IF_TRUE = 0x42"
| "op_byte OP_TRY_BEGIN = 0x43"
| "op_byte OP_TRY_END = 0x44"
| "op_byte OP_THROW = 0x45"
| "op_byte OP_CALL = 0x50"
| "op_byte OP_RETURN = 0x51"
| "op_byte OP_CLOSURE = 0x52"
| "op_byte OP_GET_UPVAL = 0x53"
| "op_byte OP_SET_UPVAL = 0x54"
| "op_byte OP_CLOSE_UPVAL = 0x55"
| "op_byte OP_ARRAY_NEW = 0x60"
| "op_byte OP_INDEX_GET = 0x61"
| "op_byte OP_INDEX_SET = 0x62"
| "op_byte OP_LENGTH = 0x63"
| "op_byte OP_MAP_NEW = 0x64"
| "op_byte OP_RECORD_NEW = 0x65"
| "op_byte OP_FIELD_GET = 0x66"
| "op_byte OP_FIELD_SET = 0x67"
| "op_byte OP_CORO_NEW = 0x70"
| "op_byte OP_CORO_RESUME = 0x71"
| "op_byte OP_CORO_YIELD = 0x72"
| "op_byte OP_CORO_STATUS = 0x73"
| "op_byte OP_THREAD_SPAWN = 0x74"
| "op_byte OP_THREAD_JOIN = 0x75"
| "op_byte OP_MUTEX_NEW = 0x76"
| "op_byte OP_MUTEX_LOCK = 0x77"
| "op_byte OP_MUTEX_UNLOCK = 0x78"
| "op_byte OP_CHAN_NEW = 0x79"
| "op_byte OP_CHAN_SEND = 0x7A"
| "op_byte OP_CHAN_RECV = 0x7B"
| "op_byte OP_INTRINSIC = 0xF0"
| "op_byte OP_HALT = 0xFF"

primrec op_operands :: "ArcOpcode \<Rightarrow> nat" where
  "op_operands OP_CONST = 2"
| "op_operands OP_POP = 0"
| "op_operands OP_DUP = 0"
| "op_operands OP_LOAD_LOCAL = 2"
| "op_operands OP_STORE_LOCAL = 2"
| "op_operands OP_LOAD_GLOBAL = 2"
| "op_operands OP_STORE_GLOBAL = 2"
| "op_operands OP_CAST_I64 = 0"
| "op_operands OP_CAST_F64 = 0"
| "op_operands OP_CAST_STR = 0"
| "op_operands OP_ADD = 0"
| "op_operands OP_SUB = 0"
| "op_operands OP_MUL = 0"
| "op_operands OP_DIV = 0"
| "op_operands OP_MOD = 0"
| "op_operands OP_NEG = 0"
| "op_operands OP_STR_LEN = 0"
| "op_operands OP_STR_SLICE = 0"
| "op_operands OP_STR_INDEX = 0"
| "op_operands OP_BIT_AND = 0"
| "op_operands OP_BIT_OR = 0"
| "op_operands OP_BIT_XOR = 0"
| "op_operands OP_BIT_NOT = 0"
| "op_operands OP_SHL = 0"
| "op_operands OP_SHR = 0"
| "op_operands OP_EQ = 0"
| "op_operands OP_NEQ = 0"
| "op_operands OP_LT = 0"
| "op_operands OP_LE = 0"
| "op_operands OP_GT = 0"
| "op_operands OP_GE = 0"
| "op_operands OP_NOT = 0"
| "op_operands OP_JUMP = 4"
| "op_operands OP_JUMP_IF_FALSE = 4"
| "op_operands OP_JUMP_IF_TRUE = 4"
| "op_operands OP_TRY_BEGIN = 4"
| "op_operands OP_TRY_END = 0"
| "op_operands OP_THROW = 0"
| "op_operands OP_CALL = 4"
| "op_operands OP_RETURN = 0"
| "op_operands OP_CLOSURE = 2"
| "op_operands OP_GET_UPVAL = 2"
| "op_operands OP_SET_UPVAL = 2"
| "op_operands OP_CLOSE_UPVAL = 0"
| "op_operands OP_ARRAY_NEW = 2"
| "op_operands OP_INDEX_GET = 0"
| "op_operands OP_INDEX_SET = 0"
| "op_operands OP_LENGTH = 0"
| "op_operands OP_MAP_NEW = 2"
| "op_operands OP_RECORD_NEW = 2"
| "op_operands OP_FIELD_GET = 2"
| "op_operands OP_FIELD_SET = 2"
| "op_operands OP_CORO_NEW = 2"
| "op_operands OP_CORO_RESUME = 0"
| "op_operands OP_CORO_YIELD = 0"
| "op_operands OP_CORO_STATUS = 0"
| "op_operands OP_THREAD_SPAWN = 4"
| "op_operands OP_THREAD_JOIN = 0"
| "op_operands OP_MUTEX_NEW = 0"
| "op_operands OP_MUTEX_LOCK = 0"
| "op_operands OP_MUTEX_UNLOCK = 0"
| "op_operands OP_CHAN_NEW = 2"
| "op_operands OP_CHAN_SEND = 0"
| "op_operands OP_CHAN_RECV = 0"
| "op_operands OP_INTRINSIC = 4"
| "op_operands OP_HALT = 0"

primrec op_pops :: "ArcOpcode \<Rightarrow> int" where
  "op_pops OP_CONST = 0"
| "op_pops OP_POP = 1"
| "op_pops OP_DUP = 1"
| "op_pops OP_LOAD_LOCAL = 0"
| "op_pops OP_STORE_LOCAL = 1"
| "op_pops OP_LOAD_GLOBAL = 0"
| "op_pops OP_STORE_GLOBAL = 1"
| "op_pops OP_CAST_I64 = 1"
| "op_pops OP_CAST_F64 = 1"
| "op_pops OP_CAST_STR = 1"
| "op_pops OP_ADD = 2"
| "op_pops OP_SUB = 2"
| "op_pops OP_MUL = 2"
| "op_pops OP_DIV = 2"
| "op_pops OP_MOD = 2"
| "op_pops OP_NEG = 1"
| "op_pops OP_STR_LEN = 1"
| "op_pops OP_STR_SLICE = 3"
| "op_pops OP_STR_INDEX = 2"
| "op_pops OP_BIT_AND = 2"
| "op_pops OP_BIT_OR = 2"
| "op_pops OP_BIT_XOR = 2"
| "op_pops OP_BIT_NOT = 1"
| "op_pops OP_SHL = 2"
| "op_pops OP_SHR = 2"
| "op_pops OP_EQ = 2"
| "op_pops OP_NEQ = 2"
| "op_pops OP_LT = 2"
| "op_pops OP_LE = 2"
| "op_pops OP_GT = 2"
| "op_pops OP_GE = 2"
| "op_pops OP_NOT = 1"
| "op_pops OP_JUMP = 0"
| "op_pops OP_JUMP_IF_FALSE = 1"
| "op_pops OP_JUMP_IF_TRUE = 1"
| "op_pops OP_TRY_BEGIN = 0"
| "op_pops OP_TRY_END = 0"
| "op_pops OP_THROW = 1"
| "op_pops OP_CALL = -1"
| "op_pops OP_RETURN = 1"
| "op_pops OP_CLOSURE = 0"
| "op_pops OP_GET_UPVAL = 0"
| "op_pops OP_SET_UPVAL = 1"
| "op_pops OP_CLOSE_UPVAL = 0"
| "op_pops OP_ARRAY_NEW = -1"
| "op_pops OP_INDEX_GET = 2"
| "op_pops OP_INDEX_SET = 3"
| "op_pops OP_LENGTH = 1"
| "op_pops OP_MAP_NEW = -1"
| "op_pops OP_RECORD_NEW = 0"
| "op_pops OP_FIELD_GET = 1"
| "op_pops OP_FIELD_SET = 2"
| "op_pops OP_CORO_NEW = 0"
| "op_pops OP_CORO_RESUME = 2"
| "op_pops OP_CORO_YIELD = 1"
| "op_pops OP_CORO_STATUS = 1"
| "op_pops OP_THREAD_SPAWN = -1"
| "op_pops OP_THREAD_JOIN = 1"
| "op_pops OP_MUTEX_NEW = 0"
| "op_pops OP_MUTEX_LOCK = 1"
| "op_pops OP_MUTEX_UNLOCK = 1"
| "op_pops OP_CHAN_NEW = 0"
| "op_pops OP_CHAN_SEND = 2"
| "op_pops OP_CHAN_RECV = 1"
| "op_pops OP_INTRINSIC = -1"
| "op_pops OP_HALT = 0"

primrec op_pushes :: "ArcOpcode \<Rightarrow> int" where
  "op_pushes OP_CONST = 1"
| "op_pushes OP_POP = 0"
| "op_pushes OP_DUP = 2"
| "op_pushes OP_LOAD_LOCAL = 1"
| "op_pushes OP_STORE_LOCAL = 0"
| "op_pushes OP_LOAD_GLOBAL = 1"
| "op_pushes OP_STORE_GLOBAL = 0"
| "op_pushes OP_CAST_I64 = 1"
| "op_pushes OP_CAST_F64 = 1"
| "op_pushes OP_CAST_STR = 1"
| "op_pushes OP_ADD = 1"
| "op_pushes OP_SUB = 1"
| "op_pushes OP_MUL = 1"
| "op_pushes OP_DIV = 1"
| "op_pushes OP_MOD = 1"
| "op_pushes OP_NEG = 1"
| "op_pushes OP_STR_LEN = 1"
| "op_pushes OP_STR_SLICE = 1"
| "op_pushes OP_STR_INDEX = 1"
| "op_pushes OP_BIT_AND = 1"
| "op_pushes OP_BIT_OR = 1"
| "op_pushes OP_BIT_XOR = 1"
| "op_pushes OP_BIT_NOT = 1"
| "op_pushes OP_SHL = 1"
| "op_pushes OP_SHR = 1"
| "op_pushes OP_EQ = 1"
| "op_pushes OP_NEQ = 1"
| "op_pushes OP_LT = 1"
| "op_pushes OP_LE = 1"
| "op_pushes OP_GT = 1"
| "op_pushes OP_GE = 1"
| "op_pushes OP_NOT = 1"
| "op_pushes OP_JUMP = 0"
| "op_pushes OP_JUMP_IF_FALSE = 0"
| "op_pushes OP_JUMP_IF_TRUE = 0"
| "op_pushes OP_TRY_BEGIN = 0"
| "op_pushes OP_TRY_END = 0"
| "op_pushes OP_THROW = 0"
| "op_pushes OP_CALL = 1"
| "op_pushes OP_RETURN = 0"
| "op_pushes OP_CLOSURE = 1"
| "op_pushes OP_GET_UPVAL = 1"
| "op_pushes OP_SET_UPVAL = 0"
| "op_pushes OP_CLOSE_UPVAL = 0"
| "op_pushes OP_ARRAY_NEW = 1"
| "op_pushes OP_INDEX_GET = 1"
| "op_pushes OP_INDEX_SET = 0"
| "op_pushes OP_LENGTH = 1"
| "op_pushes OP_MAP_NEW = 1"
| "op_pushes OP_RECORD_NEW = 1"
| "op_pushes OP_FIELD_GET = 1"
| "op_pushes OP_FIELD_SET = 1"
| "op_pushes OP_CORO_NEW = 1"
| "op_pushes OP_CORO_RESUME = 1"
| "op_pushes OP_CORO_YIELD = 1"
| "op_pushes OP_CORO_STATUS = 1"
| "op_pushes OP_THREAD_SPAWN = 1"
| "op_pushes OP_THREAD_JOIN = 1"
| "op_pushes OP_MUTEX_NEW = 1"
| "op_pushes OP_MUTEX_LOCK = 0"
| "op_pushes OP_MUTEX_UNLOCK = 0"
| "op_pushes OP_CHAN_NEW = 1"
| "op_pushes OP_CHAN_SEND = 0"
| "op_pushes OP_CHAN_RECV = 1"
| "op_pushes OP_INTRINSIC = 0"
| "op_pushes OP_HALT = 0"

primrec op_mnemonic :: "ArcOpcode \<Rightarrow> string" where
  "op_mnemonic OP_CONST = ''const''"
| "op_mnemonic OP_POP = ''pop''"
| "op_mnemonic OP_DUP = ''dup''"
| "op_mnemonic OP_LOAD_LOCAL = ''load_local''"
| "op_mnemonic OP_STORE_LOCAL = ''store_local''"
| "op_mnemonic OP_LOAD_GLOBAL = ''load_global''"
| "op_mnemonic OP_STORE_GLOBAL = ''store_global''"
| "op_mnemonic OP_CAST_I64 = ''cast_i64''"
| "op_mnemonic OP_CAST_F64 = ''cast_f64''"
| "op_mnemonic OP_CAST_STR = ''cast_str''"
| "op_mnemonic OP_ADD = ''add''"
| "op_mnemonic OP_SUB = ''sub''"
| "op_mnemonic OP_MUL = ''mul''"
| "op_mnemonic OP_DIV = ''div''"
| "op_mnemonic OP_MOD = ''mod''"
| "op_mnemonic OP_NEG = ''neg''"
| "op_mnemonic OP_STR_LEN = ''str_len''"
| "op_mnemonic OP_STR_SLICE = ''str_slice''"
| "op_mnemonic OP_STR_INDEX = ''str_index''"
| "op_mnemonic OP_BIT_AND = ''bit_and''"
| "op_mnemonic OP_BIT_OR = ''bit_or''"
| "op_mnemonic OP_BIT_XOR = ''bit_xor''"
| "op_mnemonic OP_BIT_NOT = ''bit_not''"
| "op_mnemonic OP_SHL = ''shl''"
| "op_mnemonic OP_SHR = ''shr''"
| "op_mnemonic OP_EQ = ''eq''"
| "op_mnemonic OP_NEQ = ''neq''"
| "op_mnemonic OP_LT = ''lt''"
| "op_mnemonic OP_LE = ''le''"
| "op_mnemonic OP_GT = ''gt''"
| "op_mnemonic OP_GE = ''ge''"
| "op_mnemonic OP_NOT = ''not''"
| "op_mnemonic OP_JUMP = ''jump''"
| "op_mnemonic OP_JUMP_IF_FALSE = ''jump_if_false''"
| "op_mnemonic OP_JUMP_IF_TRUE = ''jump_if_true''"
| "op_mnemonic OP_TRY_BEGIN = ''try_begin''"
| "op_mnemonic OP_TRY_END = ''try_end''"
| "op_mnemonic OP_THROW = ''throw''"
| "op_mnemonic OP_CALL = ''call''"
| "op_mnemonic OP_RETURN = ''return''"
| "op_mnemonic OP_CLOSURE = ''closure''"
| "op_mnemonic OP_GET_UPVAL = ''get_upvalue''"
| "op_mnemonic OP_SET_UPVAL = ''set_upvalue''"
| "op_mnemonic OP_CLOSE_UPVAL = ''close_upvalue''"
| "op_mnemonic OP_ARRAY_NEW = ''array_new''"
| "op_mnemonic OP_INDEX_GET = ''index_get''"
| "op_mnemonic OP_INDEX_SET = ''index_set''"
| "op_mnemonic OP_LENGTH = ''length''"
| "op_mnemonic OP_MAP_NEW = ''map_new''"
| "op_mnemonic OP_RECORD_NEW = ''record_new''"
| "op_mnemonic OP_FIELD_GET = ''field_get''"
| "op_mnemonic OP_FIELD_SET = ''field_set''"
| "op_mnemonic OP_CORO_NEW = ''coro_new''"
| "op_mnemonic OP_CORO_RESUME = ''coro_resume''"
| "op_mnemonic OP_CORO_YIELD = ''coro_yield''"
| "op_mnemonic OP_CORO_STATUS = ''coro_status''"
| "op_mnemonic OP_THREAD_SPAWN = ''thread_spawn''"
| "op_mnemonic OP_THREAD_JOIN = ''thread_join''"
| "op_mnemonic OP_MUTEX_NEW = ''mutex_new''"
| "op_mnemonic OP_MUTEX_LOCK = ''mutex_lock''"
| "op_mnemonic OP_MUTEX_UNLOCK = ''mutex_unlock''"
| "op_mnemonic OP_CHAN_NEW = ''chan_new''"
| "op_mnemonic OP_CHAN_SEND = ''chan_send''"
| "op_mnemonic OP_CHAN_RECV = ''chan_recv''"
| "op_mnemonic OP_INTRINSIC = ''intrinsic''"
| "op_mnemonic OP_HALT = ''halt''"

section \<open>The generated accessors\<close>

definition opcode_of_byte :: "u8 \<Rightarrow> ArcOpcode option" where
  "opcode_of_byte b = List.find (\<lambda>op. op_byte op = b) ARC_OPCODES"

definition arc_op_operand_bytes :: "u8 \<Rightarrow> int" where
  "arc_op_operand_bytes b = (case opcode_of_byte b of Some op \<Rightarrow> int (op_operands op) | None \<Rightarrow> -1)"

definition arc_op_mnemonic :: "u8 \<Rightarrow> string" where
  "arc_op_mnemonic b = (case opcode_of_byte b of Some op \<Rightarrow> op_mnemonic op | None \<Rightarrow> ''???'')"

definition arc_op_pops :: "u8 \<Rightarrow> int" where
  "arc_op_pops b = (case opcode_of_byte b of Some op \<Rightarrow> op_pops op | None \<Rightarrow> -1)"

definition arc_op_pushes :: "u8 \<Rightarrow> int" where
  "arc_op_pushes b = (case opcode_of_byte b of Some op \<Rightarrow> op_pushes op | None \<Rightarrow> -1)"

section \<open>Intrinsic ids\<close>

definition ARC_INTRINSIC_COUNT :: nat where
  "ARC_INTRINSIC_COUNT = 9"

datatype ArcIntrinsicId =
    ARC_INTRINSIC_PRINT | ARC_INTRINSIC_CLOCK | ARC_INTRINSIC_TYPE | ARC_INTRINSIC_ASSERT | ARC_INTRINSIC_TOSTRING
  | ARC_INTRINSIC_INPUT | ARC_INTRINSIC_LEN | ARC_INTRINSIC_PUSH | ARC_INTRINSIC_KEYS

definition ARC_INTRINSICS :: "ArcIntrinsicId list" where
  "ARC_INTRINSICS = [ARC_INTRINSIC_PRINT, ARC_INTRINSIC_CLOCK, ARC_INTRINSIC_TYPE, ARC_INTRINSIC_ASSERT,
     ARC_INTRINSIC_TOSTRING, ARC_INTRINSIC_INPUT, ARC_INTRINSIC_LEN,
     ARC_INTRINSIC_PUSH, ARC_INTRINSIC_KEYS]"

definition intrinsic_of_id :: "u16 \<Rightarrow> ArcIntrinsicId option" where
  "intrinsic_of_id i = (if unat i < length ARC_INTRINSICS then Some (ARC_INTRINSICS ! unat i) else None)"

section \<open>The assembler's mnemonic lookup\<close>

definition is_opcode :: "string \<Rightarrow> bool" where
  "is_opcode mn = List.list_ex (\<lambda>op. op_mnemonic op = mn) ARC_OPCODES"

definition lookup_opcode :: "string \<Rightarrow> u8" where
  "lookup_opcode mn =
     (case List.find (\<lambda>op. op_mnemonic op = mn) ARC_OPCODES of
        Some op \<Rightarrow> op_byte op | None \<Rightarrow> 0xFF)"

section \<open>Facts about the table\<close>

lemma all_opcodes: "op \<in> set ARC_OPCODES"
  by (cases op) (simp_all add: ARC_OPCODES_def)

lemma distinct_bytes: "distinct (map op_byte ARC_OPCODES)"
  by (simp add: ARC_OPCODES_def)

lemma distinct_mnemonics: "distinct (map op_mnemonic ARC_OPCODES)"
  by (simp add: ARC_OPCODES_def)

lemma op_byte_inj: "op_byte a = op_byte b \<Longrightarrow> a = b"
  using distinct_bytes all_opcodes [of a] all_opcodes [of b] by (auto simp: distinct_map inj_on_def)

lemma op_mnemonic_inj: "op_mnemonic a = op_mnemonic b \<Longrightarrow> a = b"
  using distinct_mnemonics all_opcodes [of a] all_opcodes [of b] by (auto simp: distinct_map inj_on_def)

text \<open>Every decoder loop over the table finds the one row it is looking for.\<close>

lemma find_inj:
  assumes "x \<in> set xs" "\<And>y. f y = f x \<Longrightarrow> y = x"
  shows "List.find (\<lambda>y. f y = f x) xs = Some x"
  using assms(1) by (induction xs) (auto dest: assms(2))

lemma opcode_of_op_byte [simp]: "opcode_of_byte (op_byte op) = Some op"
  unfolding opcode_of_byte_def by (rule find_inj [OF all_opcodes]) (rule op_byte_inj)

lemma opcode_of_byte_Some: "opcode_of_byte b = Some op \<longleftrightarrow> b = op_byte op"
proof
  assume "opcode_of_byte b = Some op"
  then show "b = op_byte op" by (auto simp: opcode_of_byte_def find_Some_iff)
qed simp

lemma arc_op_operand_bytes_bounds: "arc_op_operand_bytes b \<in> {-1, 0, 2, 4}"
proof (cases "opcode_of_byte b")
  case None
  then show ?thesis by (simp add: arc_op_operand_bytes_def)
next
  case (Some op)
  then show ?thesis by (cases op) (simp_all add: arc_op_operand_bytes_def)
qed

lemma arc_op_operand_bytes_neg: "arc_op_operand_bytes b < 0 \<longleftrightarrow> opcode_of_byte b = None"
  by (auto simp: arc_op_operand_bytes_def split: option.splits)

end
