(* ===== verification/Bytecode_Verifier.thy ===== *)
theory Bytecode_Verifier
  imports Arc_Objects Opcodes
begin

text \<open>
  The bytecode verifier, \<^verbatim>\<open>src/verifier/verifier.c\<close>: a linear sweep over the code of every function that
  decodes the instructions, checks their operands and simulates the height of the stack. The array
  \<^verbatim>\<open>height_at\<close> (present for code of 1 to 65536 bytes) is a list of the values of its \<^verbatim>\<open>int16_t\<close> elements. A
  read outside the code section and a signed overflow are \<open>Undef\<close>. The loop has fuel; one unit per byte
  of the function and one more is enough unless the 32-bit instruction pointer wraps around
  (\<open>sweep_fuel\<close>), in which case the loop of the C code need not end.
\<close>

section \<open>Results\<close>

record ArcVerifyError =
  ve_message :: string
  ve_func_idx :: u16
  ve_offset :: u32

record ArcVerifyResult =
  ve_errors :: "ArcVerifyError list"
  ve_valid :: bool

definition ARC_VERIFY_MAX_ERRORS :: nat where
  "ARC_VERIFY_MAX_ERRORS = 32"

definition MAX_CODE_LEN :: nat where
  "MAX_CODE_LEN = 65536"

definition verr :: "ArcVerifyResult \<Rightarrow> u16 \<Rightarrow> u32 \<Rightarrow> string \<Rightarrow> ArcVerifyResult" where
  "verr r fi off msg =
     (if ARC_VERIFY_MAX_ERRORS \<le> length (ve_errors r) then r
      else r\<lparr>ve_errors := ve_errors r @ [\<lparr>ve_message = take 255 msg, ve_func_idx = fi, ve_offset = off\<rparr>],
             ve_valid := False\<rparr>)"

section \<open>Operands\<close>

definition code_u16 :: "ArcBytecodeImage \<Rightarrow> u32 \<Rightarrow> u16 outcome" where
  "code_u16 img i = (if unat i + 2 \<le> length (img_code img) then Ret (arc_read_u16 (img_code img) (unat i)) else Undef)"

text \<open>\<^verbatim>\<open>(uint32_t)((int32_t)(ip + 4) + offset)\<close> with the offset read at \<^verbatim>\<open>ip\<close>\<close>

definition jump_target :: "ArcBytecodeImage \<Rightarrow> u32 \<Rightarrow> u32 outcome" where
  "jump_target img i =
     (if unat i + 4 \<le> length (img_code img) then
        (let t = sint (i + 4) + sint (arc_read_i32 (img_code img) (unat i))
         in if - (2 ^ 31) \<le> t \<and> t < 2 ^ 31 then Ret (of_int t) else Undef)
      else Undef)"

definition func_end :: "ArcFuncRecord \<Rightarrow> u32" where
  "func_end fn = code_offset fn + code_length fn"

definition verify_operands ::
    "ArcVerifyResult \<Rightarrow> ArcBytecodeImage \<Rightarrow> ArcFuncRecord \<Rightarrow> u16 \<Rightarrow> u32 \<Rightarrow> ArcOpcode \<Rightarrow> u32 \<Rightarrow> ArcVerifyResult outcome" where
  "verify_operands result img fn fi instr_start op pc =
     (if op = OP_CONST then
        andthen (code_u16 img pc) (\<lambda>idx. Ret (
          if length (items (img_constants img)) \<le> unat idx
          then verr result fi instr_start (''invalid constant index '' @ dec_digits (unat idx)) else result))
      else if op = OP_LOAD_LOCAL \<or> op = OP_STORE_LOCAL then
        andthen (code_u16 img pc) (\<lambda>slot. Ret (
          if local_count fn \<le> slot
          then verr result fi instr_start (''local slot '' @ dec_digits (unat slot) @ '' >= local_count '' @ dec_digits (unat (local_count fn)))
          else result))
      else if op = OP_CALL \<or> op = OP_THREAD_SPAWN \<or> op = OP_INTRINSIC then
        andthen (code_u16 img pc) (\<lambda>idx.
          let r1 = (if (op = OP_CALL \<or> op = OP_THREAD_SPAWN) \<and> length (items (img_functions img)) \<le> unat idx
                    then verr result fi instr_start (''invalid function index '' @ dec_digits (unat idx)) else result)
          in Ret (if op = OP_INTRINSIC \<and> ARC_INTRINSIC_COUNT \<le> unat idx
                  then verr r1 fi instr_start (''invalid intrinsic id '' @ dec_digits (unat idx)) else r1))
      else if op = OP_JUMP \<or> op = OP_JUMP_IF_FALSE \<or> op = OP_JUMP_IF_TRUE then
        andthen (jump_target img pc) (\<lambda>target. Ret (
          if target < code_offset fn \<or> func_end fn < target
          then verr result fi instr_start (''jump target '' @ dec_digits (unat target) @ '' out of function bounds ['' @
                 dec_digits (unat (code_offset fn)) @ '','' @ dec_digits (unat (func_end fn)) @ '']'')
          else result))
      else Ret result)"

section \<open>Stack heights\<close>

text \<open>The conversion \<^verbatim>\<open>(int16_t)\<close>.\<close>

definition to_i16 :: "int \<Rightarrow> int" where
  "to_i16 h = sint (of_int h :: 16 word)"

definition record_jump_heights ::
    "ArcVerifyResult \<Rightarrow> ArcFuncRecord \<Rightarrow> ArcBytecodeImage \<Rightarrow> u16 \<Rightarrow> int list \<Rightarrow> ArcOpcode \<Rightarrow> u32 \<Rightarrow> int \<Rightarrow> nat \<Rightarrow> u32 \<Rightarrow>
     (ArcVerifyResult \<times> int list \<times> int) outcome" where
  "record_jump_heights result fn img fi height_at op pc height op_bytes instr_start =
     andthen
       (if op = OP_JUMP \<or> op = OP_JUMP_IF_FALSE \<or> op = OP_JUMP_IF_TRUE then
          andthen (jump_target img pc) (\<lambda>target.
            if code_offset fn \<le> target \<and> target < func_end fn then
              (let rel = unat (target - code_offset fn) in
               Ret (if height_at ! rel = -2 then (result, height_at[rel := to_i16 height])
                    else if height_at ! rel \<noteq> height
                    then (verr result fi instr_start (''stack height mismatch at jump target '' @ dec_digits (unat target) @
                            '': expected '' @ dec_int (height_at ! rel) @ '', got '' @ dec_int height), height_at)
                    else (result, height_at)))
            else Ret (result, height_at))
        else Ret (result, height_at)) (\<lambda>(result, height_at).
     let next_rel = pc + of_nat op_bytes - code_offset fn;
         out = (if op = OP_JUMP \<or> op = OP_HALT \<or> op = OP_RETURN then
                  (if next_rel < code_length fn \<and> height_at ! unat next_rel \<noteq> -2 then height_at ! unat next_rel
                   else if next_rel < code_length fn then 0 else height)
                else height)
     in Ret (result, height_at, out))"

section \<open>The sweep\<close>

record vsweep =
  vs_result :: ArcVerifyResult
  vs_heights :: "int list option"
  vs_ip :: u32
  vs_height :: int
  vs_halts :: bool

text \<open>The check at the head of the loop for positions that were reached before.\<close>

definition check_join :: "ArcFuncRecord \<Rightarrow> u16 \<Rightarrow> vsweep \<Rightarrow> vsweep" where
  "check_join fn fi s =
     (case vs_heights s of
        None \<Rightarrow> s
      | Some height_at \<Rightarrow>
          let rel = vs_ip s - code_offset fn; h = height_at ! unat rel in
          if rel < code_length fn then
            if h = -2 then s\<lparr>vs_heights := Some (height_at[unat rel := to_i16 (vs_height s)])\<rparr>
            else if h \<noteq> vs_height s then
              s\<lparr>vs_result := verr (vs_result s) fi (vs_ip s) (''stack height mismatch at join: expected '' @ dec_int h @
                  '', got '' @ dec_int (vs_height s)), vs_height := h\<rparr>
            else s
          else s)"

text \<open>The simulated effect of an instruction on the height. The table gives -1 for a variable number of
  operands; the branch that would subtract the argument count is inside \<^verbatim>\<open>if (pops >= 0)\<close> and never taken.\<close>

definition stack_effect :: "ArcBytecodeImage \<Rightarrow> u16 \<Rightarrow> u32 \<Rightarrow> ArcOpcode \<Rightarrow> u32 \<Rightarrow> vsweep \<Rightarrow> vsweep outcome" where
  "stack_effect img fi instr_start op pc s =
     andthen
       (if 0 \<le> op_pops op then
          (if op_pops op = -1 then
             (if unat pc + 2 < length (img_code img) then Ret (vs_height s - int (unat (img_code img ! (unat pc + 2)))) else Undef)
           else Ret (vs_height s - op_pops op))
        else Ret (vs_height s)) (\<lambda>h.
     let s1 = (if h < 0 then s\<lparr>vs_result := verr (vs_result s) fi instr_start (''stack underflow (height '' @ dec_int h @ '')''),
                 vs_height := 0\<rparr> else s\<lparr>vs_height := h\<rparr>);
         h' = (if 0 \<le> op_pushes op then vs_height s1 + op_pushes op else vs_height s1)
     in if 2 ^ 31 \<le> h' then Undef
        else Ret (s1\<lparr>vs_height := h', vs_halts := (vs_halts s1 \<or> op = OP_HALT \<or> op = OP_RETURN)\<rparr>))"

text \<open>One round of the loop; \<open>False\<close> means that the loop is left by a \<^verbatim>\<open>break\<close>.\<close>

definition verify_instr :: "ArcBytecodeImage \<Rightarrow> ArcFuncRecord \<Rightarrow> u16 \<Rightarrow> vsweep \<Rightarrow> (bool \<times> vsweep) outcome" where
  "verify_instr img fn fi s0 =
     (let s = check_join fn fi s0; instr_start = vs_ip s in
      if length (img_code img) \<le> unat instr_start then Undef
      else
        let b = img_code img ! unat instr_start; pc = instr_start + 1 in
        case opcode_of_byte b of
          None \<Rightarrow> Ret (False, s\<lparr>vs_result := verr (vs_result s) fi instr_start
                    (''unknown opcode 0x'' @ [hex_digit (unat b div 16), hex_digit (unat b mod 16)]), vs_ip := pc\<rparr>)
        | Some op \<Rightarrow>
            let n = op_operands op in
            if func_end fn < pc + of_nat n
            then Ret (False, s\<lparr>vs_result := verr (vs_result s) fi instr_start ''instruction truncated'', vs_ip := pc\<rparr>)
            else
              andthen (verify_operands (vs_result s) img fn fi instr_start op pc) (\<lambda>r.
              andthen (stack_effect img fi instr_start op pc (s\<lparr>vs_result := r\<rparr>)) (\<lambda>s.
              andthen (case vs_heights s of
                         None \<Rightarrow> Ret s
                       | Some hs \<Rightarrow>
                           andthen (record_jump_heights (vs_result s) fn img fi hs op pc (vs_height s) n instr_start)
                             (\<lambda>(r, hs, h). Ret (s\<lparr>vs_result := r, vs_heights := Some hs, vs_height := h\<rparr>))) (\<lambda>s.
                Ret (True, s\<lparr>vs_ip := pc + of_nat n\<rparr>)))))"

fun verify_loop :: "nat \<Rightarrow> ArcBytecodeImage \<Rightarrow> ArcFuncRecord \<Rightarrow> u16 \<Rightarrow> vsweep \<Rightarrow> vsweep outcome" where
  "verify_loop 0 img fn fi s = (if vs_ip s < func_end fn then Undef else Ret s)"
| "verify_loop (Suc n) img fn fi s =
     (if vs_ip s < func_end fn
      then andthen (verify_instr img fn fi s) (\<lambda>(go, s'). if go then verify_loop n img fn fi s' else Ret s')
      else Ret s)"

definition verify_function :: "ArcVerifyResult \<Rightarrow> ArcBytecodeImage \<Rightarrow> u16 \<Rightarrow> ArcVerifyResult outcome" where
  "verify_function result img fi =
     (let fn = items (img_functions img) ! unat fi in
      if of_nat (length (img_code img)) < func_end fn
      then Ret (verr result fi 0 ''function code extends beyond code section'')
      else
        let heights = (if 0 < code_length fn \<and> unat (code_length fn) \<le> MAX_CODE_LEN
                       then Some (replicate (unat (code_length fn)) (-2)) else None) in
        andthen (verify_loop (Suc (unat (code_length fn))) img fn fi
                   \<lparr>vs_result = result, vs_heights = heights, vs_ip = code_offset fn, vs_height = 0, vs_halts = False\<rparr>) (\<lambda>s.
          Ret (if vs_halts s then vs_result s
               else verr (vs_result s) fi (code_offset fn) ''function has no halt or return'')))"

text \<open>The loop over the functions, from index \<open>fi\<close>.\<close>

fun verify_functions :: "nat \<Rightarrow> ArcBytecodeImage \<Rightarrow> nat \<Rightarrow> ArcVerifyResult \<Rightarrow> ArcVerifyResult outcome" where
  "verify_functions 0 img fi result = Ret result"
| "verify_functions (Suc n) img fi result =
     andthen (verify_function result img (of_nat fi)) (verify_functions n img (Suc fi))"

definition arc_verify :: "ArcBytecodeImage \<Rightarrow> ArcVerifyResult outcome" where
  "arc_verify img =
     (let result = \<lparr>ve_errors = [], ve_valid = True\<rparr> in
      if items (img_functions img) = [] then Ret (verr result 0 0 ''no functions defined'')
      else verify_functions (length (items (img_functions img))) img 0 result)"

section \<open>What acceptance means\<close>

text \<open>The instructions of a piece of code with their offsets, as a straight decoding.\<close>

function decode :: "u8 list \<Rightarrow> nat \<Rightarrow> (nat \<times> ArcOpcode) list option" where
  "decode [] i = Some []"
| "decode (b # bs) i =
     (case opcode_of_byte b of
        None \<Rightarrow> None
      | Some op \<Rightarrow>
          if op_operands op \<le> length bs
          then map_option ((#) (i, op)) (decode (drop (op_operands op) bs) (i + 1 + op_operands op)) else None)"
  by pat_completeness auto

termination
  by (relation "measure (\<lambda>(bs, i). length bs)") auto

text \<open>The operands of the instruction at offset \<open>i\<close> refer to things that exist.\<close>

definition operand_ok :: "ArcBytecodeImage \<Rightarrow> ArcFuncRecord \<Rightarrow> nat \<Rightarrow> ArcOpcode \<Rightarrow> bool" where
  "operand_ok img fn i op \<longleftrightarrow>
     (let x = unat (arc_read_u16 (img_code img) (i + 1)) in
      if op = OP_CONST then x < length (items (img_constants img))
      else if op = OP_LOAD_LOCAL \<or> op = OP_STORE_LOCAL then x < unat (local_count fn)
      else if op = OP_CALL \<or> op = OP_THREAD_SPAWN then x < length (items (img_functions img))
      else if op = OP_INTRINSIC then x < ARC_INTRINSIC_COUNT
      else if op = OP_JUMP \<or> op = OP_JUMP_IF_FALSE \<or> op = OP_JUMP_IF_TRUE then
        \<exists>t. jump_target img (of_nat (i + 1)) = Ret t \<and> code_offset fn \<le> t \<and> t \<le> func_end fn
      else True)"

text \<open>A result is either without errors or invalid; reporting an error makes it invalid for good.\<close>

definition res_ok :: "ArcVerifyResult \<Rightarrow> bool" where
  "res_ok r \<longleftrightarrow> (ve_valid r \<longrightarrow> ve_errors r = [])"

lemma verr_invalid [simp]: "res_ok r \<Longrightarrow> \<not> ve_valid (verr r fi off msg)"
  by (auto simp: verr_def res_ok_def ARC_VERIFY_MAX_ERRORS_def)

lemma verr_res_ok [simp]: "res_ok r \<Longrightarrow> res_ok (verr r fi off msg)"
  by (auto simp: verr_def res_ok_def)

lemma check_join_keeps:
  assumes "res_ok (vs_result s)"
  shows "res_ok (vs_result (check_join fn fi s))" "vs_ip (check_join fn fi s) = vs_ip s"
    "vs_halts (check_join fn fi s) = vs_halts s"
    "ve_valid (vs_result (check_join fn fi s)) \<Longrightarrow> vs_result (check_join fn fi s) = vs_result s"
  using assms by (auto simp: check_join_def Let_def split: option.splits if_splits)

lemma verify_operands_keeps:
  assumes "verify_operands r img fn fi i op pc = Ret r'" "res_ok r"
  shows "res_ok r'" "ve_valid r' \<Longrightarrow> r' = r"
  using assms by (auto simp: verify_operands_def andthen_Ret Let_def split: if_splits)

lemma valid_if_verr: "res_ok r \<Longrightarrow> ve_valid (if c then verr r fi off msg else r) \<longleftrightarrow> \<not> c \<and> ve_valid r"
  by simp

lemma verify_operands_ok:
  assumes v: "verify_operands r img fn fi i op pc = Ret r'" and r: "res_ok r" "ve_valid r'" and pc: "unat pc = k + 1"
  shows "operand_ok img fn k op"
proof -
  have "of_nat (k + 1) = pc" using pc by (metis of_nat_unat ucast_id)
  then have [simp]: "1 + of_nat k = pc" by simp
  note defs = verify_operands_def operand_ok_def andthen_Ret code_u16_def Let_def pc
  consider "op = OP_CONST" | "op = OP_LOAD_LOCAL \<or> op = OP_STORE_LOCAL" | "op = OP_CALL \<or> op = OP_THREAD_SPAWN"
    | "op = OP_INTRINSIC" | "op = OP_JUMP \<or> op = OP_JUMP_IF_FALSE \<or> op = OP_JUMP_IF_TRUE"
    | "operand_ok img fn k op" unfolding operand_ok_def Let_def by argo
  then show ?thesis
  proof cases
    case 5
    then obtain t where "jump_target img pc = Ret t" "r' = (if t < code_offset fn \<or> func_end fn < t
          then verr r fi i (''jump target '' @ dec_digits (unat t) @ '' out of function bounds ['' @
                 dec_digits (unat (code_offset fn)) @ '','' @ dec_digits (unat (func_end fn)) @ '']'') else r)"
      using v by (auto simp only: defs ArcOpcode.distinct if_False if_True simp_thms outcome.inject)
    then show ?thesis using r 5 by (auto simp: operand_ok_def valid_if_verr Let_def not_less split: if_splits)
  qed (use v r in \<open>auto simp: defs valid_if_verr not_le word_le_nat_alt split: if_splits\<close>)
qed

lemma stack_effect_keeps:
  assumes "stack_effect img fi i op pc s = Ret s'" "res_ok (vs_result s)"
  shows "res_ok (vs_result s')" "ve_valid (vs_result s') \<Longrightarrow> vs_result s' = vs_result s" "vs_ip s' = vs_ip s"
    "vs_halts s' = (vs_halts s \<or> op = OP_HALT \<or> op = OP_RETURN)"
  using assms by (auto simp: stack_effect_def andthen_Ret Let_def split: if_splits)

lemma record_jump_heights_keeps:
  assumes "record_jump_heights r fn img fi hs op pc h n i = Ret (r', hs', h')" "res_ok r"
  shows "res_ok r'" "ve_valid r' \<Longrightarrow> r' = r"
  using assms by (auto simp: record_jump_heights_def andthen_Ret Let_def split: if_splits prod.splits)

lemma verify_instr_valid:
  assumes e: "verify_instr img fn fi s = Ret (go, s')" and r: "res_ok (vs_result s)"
    and b: "vs_ip s < func_end fn" "unat (func_end fn) \<le> length (img_code img)" "length (img_code img) + 4 < 2 ^ 32"
  shows "res_ok (vs_result s')"
    and "ve_valid (vs_result s') \<Longrightarrow> ve_valid (vs_result s) \<and> go \<and>
      (\<exists>op. opcode_of_byte (img_code img ! unat (vs_ip s)) = Some op \<and>
        unat (vs_ip s') = unat (vs_ip s) + 1 + op_operands op \<and> unat (vs_ip s') \<le> unat (func_end fn) \<and>
        operand_ok img fn (unat (vs_ip s)) op \<and> vs_halts s' = (vs_halts s \<or> op = OP_HALT \<or> op = OP_RETURN))"
proof -
  let ?j = "check_join fn fi s" and ?pc = "vs_ip s + 1"
  note j = check_join_keeps [OF r, of fn fi]
  have lt: "unat (vs_ip s) < length (img_code img)" using b by (simp add: word_less_nat_alt)
  have "res_ok (vs_result s') \<and> (ve_valid (vs_result s') \<longrightarrow> ve_valid (vs_result s) \<and> go \<and>
      (\<exists>op. opcode_of_byte (img_code img ! unat (vs_ip s)) = Some op \<and>
        unat (vs_ip s') = unat (vs_ip s) + 1 + op_operands op \<and> unat (vs_ip s') \<le> unat (func_end fn) \<and>
        operand_ok img fn (unat (vs_ip s)) op \<and> vs_halts s' = (vs_halts s \<or> op = OP_HALT \<or> op = OP_RETURN)))"
  proof (cases "opcode_of_byte (img_code img ! unat (vs_ip s))")
    case None
    then show ?thesis using e lt j by (auto simp: verify_instr_def Let_def)
  next
    case (Some op)
    have n: "op_operands op \<le> 4" by (cases op) simp_all
    have pc: "unat ?pc = unat (vs_ip s) + 1" using lt b(3) by (simp add: unat_word_ariths)
    have next_pc: "unat (?pc + of_nat (op_operands op)) = unat (vs_ip s) + 1 + op_operands op"
      using lt b(3) n by (simp add: unat_word_ariths unsigned_of_nat take_bit_nat_eq_self)
    show ?thesis
    proof (cases "func_end fn < ?pc + of_nat (op_operands op)")
      case True
      then show ?thesis using e lt j Some by (auto simp: verify_instr_def Let_def)
    next
      case False
      then obtain r1 s2 s3 where 1: "verify_operands (vs_result ?j) img fn fi (vs_ip s) op ?pc = Ret r1"
        and 2: "stack_effect img fi (vs_ip s) op ?pc (?j\<lparr>vs_result := r1\<rparr>) = Ret s2"
        and 3: "(case vs_heights s2 of None \<Rightarrow> Ret s2
              | Some hs \<Rightarrow> andthen (record_jump_heights (vs_result s2) fn img fi hs op ?pc (vs_height s2) (op_operands op) (vs_ip ?j))
                  (\<lambda>(r, hs, h). Ret (s2\<lparr>vs_result := r, vs_heights := Some hs, vs_height := h\<rparr>))) = Ret s3"
        and 4: "go" "s' = s3\<lparr>vs_ip := ?pc + of_nat (op_operands op)\<rparr>"
        using e lt Some by (auto simp: verify_instr_def Let_def andthen_Ret j(2))
      note k1 = verify_operands_keeps [OF 1 j(1)]
      have k2: "res_ok (vs_result s2)" "ve_valid (vs_result s2) \<Longrightarrow> vs_result s2 = r1"
          "vs_halts s2 = (vs_halts s \<or> op = OP_HALT \<or> op = OP_RETURN)"
        using stack_effect_keeps [OF 2] k1(1) j(3) by auto
      have k3: "res_ok (vs_result s3)" "ve_valid (vs_result s3) \<Longrightarrow> vs_result s3 = vs_result s2" "vs_halts s3 = vs_halts s2"
        using 3 k2(1) by (auto simp: andthen_Ret dest: record_jump_heights_keeps split: option.splits prod.splits)
      have "unat (?pc + of_nat (op_operands op)) \<le> unat (func_end fn)" using False by (simp add: not_less word_le_nat_alt)
      moreover have "operand_ok img fn (unat (vs_ip s)) op" if "ve_valid (vs_result s3)"
        using verify_operands_ok [OF 1 j(1) _ pc] that k3 k2 by simp
      ultimately show ?thesis using 4 k1 k2 k3 j(4) next_pc Some by auto
    qed
  qed
  then show "res_ok (vs_result s')"
    and "ve_valid (vs_result s') \<Longrightarrow> ve_valid (vs_result s) \<and> go \<and>
      (\<exists>op. opcode_of_byte (img_code img ! unat (vs_ip s)) = Some op \<and>
        unat (vs_ip s') = unat (vs_ip s) + 1 + op_operands op \<and> unat (vs_ip s') \<le> unat (func_end fn) \<and>
        operand_ok img fn (unat (vs_ip s)) op \<and> vs_halts s' = (vs_halts s \<or> op = OP_HALT \<or> op = OP_RETURN))"
    by blast+
qed

text \<open>The bytes of the function from offset \<open>i\<close>.\<close>

abbreviation code_from :: "ArcBytecodeImage \<Rightarrow> ArcFuncRecord \<Rightarrow> nat \<Rightarrow> u8 list" where
  "code_from img fn i \<equiv> take (unat (func_end fn) - i) (drop i (img_code img))"

lemma decode_step:
  assumes "i < unat (func_end fn)" "unat (func_end fn) \<le> length (img_code img)"
    "opcode_of_byte (img_code img ! i) = Some op" "i + 1 + op_operands op \<le> unat (func_end fn)"
    "decode (code_from img fn (i + 1 + op_operands op)) (i + 1 + op_operands op) = Some is"
  shows "decode (code_from img fn i) i = Some ((i, op) # is)"
proof -
  have "code_from img fn i = img_code img ! i # code_from img fn (Suc i)"
    using assms(1,2) by (simp add: Cons_nth_drop_Suc [symmetric] take_Cons' Suc_diff_Suc flip: drop_Suc)
  moreover have "drop (op_operands op) (code_from img fn (Suc i)) = code_from img fn (i + 1 + op_operands op)"
    by (simp add: drop_take algebra_simps)
  moreover have "op_operands op \<le> length (code_from img fn (Suc i))" using assms(2,4) by simp
  ultimately show ?thesis using assms(3,5) by simp
qed

lemma verify_loop_valid:
  assumes "verify_loop n img fn fi s = Ret s'" "res_ok (vs_result s)"
    and "unat (func_end fn) \<le> length (img_code img)" "length (img_code img) + 4 < 2 ^ 32"
  shows "res_ok (vs_result s') \<and> (ve_valid (vs_result s') \<longrightarrow> ve_valid (vs_result s) \<and>
    (\<exists>is. decode (code_from img fn (unat (vs_ip s))) (unat (vs_ip s)) = Some is \<and>
      (\<forall>(i, op) \<in> set is. operand_ok img fn i op) \<and>
      vs_halts s' = (vs_halts s \<or> (\<exists>(i, op) \<in> set is. op = OP_HALT \<or> op = OP_RETURN))))"
  using assms
proof (induction n arbitrary: s)
  case 0
  then show ?case by (auto simp: word_less_nat_alt split: if_splits)
next
  case (Suc n)
  show ?case
  proof (cases "vs_ip s < func_end fn")
    case False
    then show ?thesis using Suc.prems by (auto simp: word_less_nat_alt)
  next
    case True
    obtain go s1 where 1: "verify_instr img fn fi s = Ret (go, s1)" "(if go then verify_loop n img fn fi s1 else Ret s1) = Ret s'"
      using Suc.prems(1) True by (auto simp: andthen_Ret split: prod.splits)
    note i = verify_instr_valid [OF 1(1) Suc.prems(2) True Suc.prems(3,4)]
    show ?thesis
    proof (cases go)
      case False
      then show ?thesis using 1(2) i by auto
    next
      case go: True
      note ih = Suc.IH [of s1, OF _ i(1) Suc.prems(3,4)]
      have ok: "res_ok (vs_result s')" using ih 1(2) go by simp
      show ?thesis
      proof (intro conjI impI ok)
        assume v: "ve_valid (vs_result s')"
        with ih 1(2) go obtain is' where js: "ve_valid (vs_result s1)"
            "decode (code_from img fn (unat (vs_ip s1))) (unat (vs_ip s1)) = Some is'"
            "\<forall>(i, op) \<in> set is'. operand_ok img fn i op"
            "vs_halts s' = (vs_halts s1 \<or> (\<exists>(i, op) \<in> set is'. op = OP_HALT \<or> op = OP_RETURN))" by auto
        from i(2) [OF js(1)] obtain op where op: "ve_valid (vs_result s)" "opcode_of_byte (img_code img ! unat (vs_ip s)) = Some op"
            "unat (vs_ip s1) = unat (vs_ip s) + 1 + op_operands op" "unat (vs_ip s1) \<le> unat (func_end fn)"
            "operand_ok img fn (unat (vs_ip s)) op" "vs_halts s1 = (vs_halts s \<or> op = OP_HALT \<or> op = OP_RETURN)" by blast
        have lt: "unat (vs_ip s) < unat (func_end fn)" using True by (simp add: word_less_nat_alt)
        have "decode (code_from img fn (unat (vs_ip s))) (unat (vs_ip s)) = Some ((unat (vs_ip s), op) # is')"
          using decode_step [OF lt Suc.prems(3) op(2)] op(3,4) js(2) by simp
        then show "ve_valid (vs_result s)" "\<exists>is. decode (code_from img fn (unat (vs_ip s))) (unat (vs_ip s)) = Some is \<and>
            (\<forall>(i, op) \<in> set is. operand_ok img fn i op) \<and>
            vs_halts s' = (vs_halts s \<or> (\<exists>(i, op) \<in> set is. op = OP_HALT \<or> op = OP_RETURN))"
          using op js by auto
      qed
    qed
  qed
qed

lemma verify_function_valid:
  assumes e: "verify_function r img fi = Ret r'" and r: "res_ok r" and l: "length (img_code img) + 4 < 2 ^ 32"
    and fn: "fn = items (img_functions img) ! unat fi"
  shows "res_ok r'"
    and "ve_valid r' \<Longrightarrow> ve_valid r \<and> unat (code_offset fn) + unat (code_length fn) \<le> length (img_code img) \<and>
      (\<exists>is. decode (take (unat (code_length fn)) (drop (unat (code_offset fn)) (img_code img))) (unat (code_offset fn)) = Some is \<and>
        (\<forall>(i, op) \<in> set is. operand_ok img fn i op) \<and> (\<exists>(i, op) \<in> set is. op = OP_HALT \<or> op = OP_RETURN))"
proof -
  let ?o = "unat (code_offset fn)"
  have le: "unat (func_end fn) \<le> length (img_code img)" if "\<not> of_nat (length (img_code img)) < func_end fn"
    using that l by (simp add: not_less word_le_nat_alt)
  let ?s0 = "\<lparr>vs_result = r, vs_heights = (if 0 < code_length fn \<and> unat (code_length fn) \<le> MAX_CODE_LEN
                       then Some (replicate (unat (code_length fn)) (-2)) else None),
       vs_ip = code_offset fn, vs_height = 0, vs_halts = False\<rparr>"
  have step: "\<exists>s. verify_loop (Suc (unat (code_length fn))) img fn fi ?s0 = Ret s \<and>
      r' = (if vs_halts s then vs_result s else verr (vs_result s) fi (code_offset fn) ''function has no halt or return'')"
    if "\<not> of_nat (length (img_code img)) < func_end fn"
    using e that unfolding verify_function_def Let_def fn [symmetric] by (simp only: if_False andthen_Ret) auto
  show "res_ok r'"
  proof (cases "of_nat (length (img_code img)) < func_end fn")
    case True
    then show ?thesis using e r by (auto simp: verify_function_def Let_def simp flip: fn)
  next
    case False
    with step obtain s where "verify_loop (Suc (unat (code_length fn))) img fn fi ?s0 = Ret s"
      "r' = (if vs_halts s then vs_result s else verr (vs_result s) fi (code_offset fn) ''function has no halt or return'')" by blast
    with verify_loop_valid [OF this(1) _ le [OF False] l] r show ?thesis by simp
  qed
  assume v: "ve_valid r'"
  then have b: "\<not> of_nat (length (img_code img)) < func_end fn" using e r by (auto simp: verify_function_def Let_def simp flip: fn)
  obtain s where s: "verify_loop (Suc (unat (code_length fn))) img fn fi ?s0 = Ret s"
      "r' = (if vs_halts s then vs_result s else verr (vs_result s) fi (code_offset fn) ''function has no halt or return'')"
    using step [OF b] by blast
  note loop = verify_loop_valid [OF s(1) _ le [OF b] l]
  have h: "vs_halts s" "ve_valid (vs_result s)" using s(2) v loop r by (auto split: if_splits)
  then obtain is' where js: "ve_valid r" "decode (code_from img fn ?o) ?o = Some is'"
      "\<forall>(i, op) \<in> set is'. operand_ok img fn i op" "\<exists>(i, op) \<in> set is'. op = OP_HALT \<or> op = OP_RETURN"
    using loop r by auto
  have "?o < unat (func_end fn)"
  proof (rule ccontr)
    assume "\<not> ?o < unat (func_end fn)"
    with js(2,4) show False by auto
  qed
  then have fe: "unat (func_end fn) = ?o + unat (code_length fn)"
    using unat_less_4294967296 [of "code_offset fn"] unat_less_4294967296 [of "code_length fn"]
    by (cases "?o + unat (code_length fn) < 4294967296") (simp_all add: func_end_def unat_word_ariths le_mod_geq)
  from js fe show "ve_valid r \<and> ?o + unat (code_length fn) \<le> length (img_code img) \<and>
      (\<exists>is. decode (take (unat (code_length fn)) (drop ?o (img_code img))) ?o = Some is \<and>
        (\<forall>(i, op) \<in> set is. operand_ok img fn i op) \<and> (\<exists>(i, op) \<in> set is. op = OP_HALT \<or> op = OP_RETURN))"
    using le [OF b] by auto
qed

lemma verify_functions_valid:
  assumes "verify_functions n img k r = Ret r'" "res_ok r" "length (img_code img) + 4 < 2 ^ 32" "k + n < 65536"
  shows "res_ok r' \<and> (ve_valid r' \<longrightarrow> ve_valid r \<and> (\<forall>j. k \<le> j \<and> j < k + n \<longrightarrow>
    (let fn = items (img_functions img) ! j in
     unat (code_offset fn) + unat (code_length fn) \<le> length (img_code img) \<and>
      (\<exists>is. decode (take (unat (code_length fn)) (drop (unat (code_offset fn)) (img_code img))) (unat (code_offset fn)) = Some is \<and>
        (\<forall>(i, op) \<in> set is. operand_ok img fn i op) \<and> (\<exists>(i, op) \<in> set is. op = OP_HALT \<or> op = OP_RETURN)))))"
  using assms
proof (induction n arbitrary: k r)
  case (Suc n)
  then obtain r1 where 1: "verify_function r img (of_nat k) = Ret r1" "verify_functions n img (Suc k) r1 = Ret r'"
    by (auto simp: andthen_Ret)
  have k: "unat (of_nat k :: u16) = k" using Suc.prems(4) by simp
  note f = verify_function_valid [OF 1(1) Suc.prems(2,3) refl, unfolded k]
  note ih = Suc.IH [OF 1(2) f(1) Suc.prems(3)]
  have split: "k \<le> j \<and> j < k + Suc n \<longleftrightarrow> j = k \<or> (Suc k \<le> j \<and> j < Suc k + n)" for j by auto
  show ?case using ih f(2) Suc.prems(4) unfolding split Let_def by auto
qed simp

lemma accepted_functions:
  assumes "arc_verify img = Ret r" "ve_valid r" "fn \<in> set (items (img_functions img))"
    and "length (img_code img) + 4 < 2 ^ 32" "length (items (img_functions img)) < 65536"
  shows "unat (code_offset fn) + unat (code_length fn) \<le> length (img_code img) \<and>
    (\<exists>is. decode (take (unat (code_length fn)) (drop (unat (code_offset fn)) (img_code img))) (unat (code_offset fn)) = Some is \<and>
       (\<forall>(i, op) \<in> set is. operand_ok img fn i op) \<and> (\<exists>(i, op) \<in> set is. op = OP_HALT \<or> op = OP_RETURN))"
proof -
  have ok: "res_ok \<lparr>ve_errors = [], ve_valid = True\<rparr>" by (simp add: res_ok_def)
  have "verify_functions (length (items (img_functions img))) img 0 \<lparr>ve_errors = [], ve_valid = True\<rparr> = Ret r"
    using assms(1,3) by (auto simp: arc_verify_def Let_def split: if_splits)
  from verify_functions_valid [OF this ok assms(4)] assms(2,3,5) show ?thesis
    by (auto simp: in_set_conv_nth Let_def)
qed

lemma decode_bounds: "decode bs i = Some is \<Longrightarrow> (j, op) \<in> set is \<Longrightarrow> i \<le> j \<and> j + 1 + op_operands op \<le> i + length bs"
  by (induction bs i arbitrary: "is" rule: decode.induct) (fastforce split: option.splits if_splits)+


text \<open>An image with one function that returns a constant.\<close>

definition return_const :: ArcBytecodeImage where
  "return_const = arc_image_init\<lparr>img_constants := \<lparr>items = [ARC_CONST_I64 42], cap = 8\<rparr>,
     img_functions := \<lparr>items = [\<lparr>name_const_idx = 0, arity = 0, local_count = 0, max_stack = 1, code_offset = 0,
       code_length = 4, upvalues = []\<rparr>], cap = 8\<rparr>,
     img_code := [op_byte OP_CONST, 0, 0, op_byte OP_RETURN]\<rparr>"

text \<open>Evaluation of the verifier on a concrete image.\<close>

lemma verify_loop_numeral:
  "verify_loop (numeral k) img fn fi s =
     (if vs_ip s < func_end fn
      then andthen (verify_instr img fn fi s) (\<lambda>(go, s'). if go then verify_loop (pred_numeral k) img fn fi s' else Ret s')
      else Ret s)"
  by (simp add: numeral_eq_Suc)

lemma replicate_numeral_Cons: "replicate (numeral k) x = x # replicate (pred_numeral k) x"
  by (simp add: numeral_eq_Suc)

lemmas verify_eval = arc_verify_def arc_image_init_def verify_function_def Let_def func_end_def verify_instr_def
  check_join_def MAX_CODE_LEN_def verify_operands_def code_u16_def stack_effect_def record_jump_heights_def
  arc_read_u16_def to_i16_def verify_loop_numeral replicate_numeral_Cons

lemmas const_return_bytes = opcode_of_op_byte [of OP_CONST, simplified] opcode_of_op_byte [of OP_RETURN, simplified]


section \<open>Termination of the sweep\<close>

lemma check_join_ip [simp]: "vs_ip (check_join fn fi s) = vs_ip s"
  by (auto simp: check_join_def Let_def split: option.split)

lemma verify_instr_advances:
  assumes e: "verify_instr img fn fi s = Ret (True, s')" and b: "unat (vs_ip s) + 5 < 2 ^ 32"
  shows "unat (vs_ip s) < unat (vs_ip s')" "unat (vs_ip s') \<le> unat (func_end fn)"
proof -
  have lt: "\<not> length (img_code img) \<le> unat (vs_ip s)" using e by (auto simp: verify_instr_def Let_def)
  obtain op where byte: "opcode_of_byte (img_code img ! unat (vs_ip s)) = Some op"
    using e lt by (cases "opcode_of_byte (img_code img ! unat (vs_ip s))") (simp_all add: verify_instr_def Let_def)
  have le: "\<not> func_end fn < vs_ip s + 1 + of_nat (op_operands op)" using e lt byte by (auto simp: verify_instr_def Let_def)
  then have op: "vs_ip s' = vs_ip s + 1 + of_nat (op_operands op)" "\<not> func_end fn < vs_ip s'"
    using e lt byte by (auto simp: verify_instr_def Let_def andthen_Ret)
  have "op_operands op \<le> 4" by (cases op) simp_all
  then have "unat (vs_ip s') = unat (vs_ip s) + 1 + op_operands op"
    using b op(1) by (simp add: unat_word_ariths unsigned_of_nat take_bit_nat_eq_self)
  then show "unat (vs_ip s) < unat (vs_ip s')" "unat (vs_ip s') \<le> unat (func_end fn)"
    using op(2) by (simp_all add: not_less word_le_nat_alt)
qed

lemma verify_loop_fuel:
  assumes "unat (func_end fn) - unat (vs_ip s) \<le> n" "unat (func_end fn) + 4 < 2 ^ 32"
  shows "verify_loop (n + m) img fn fi s = verify_loop n img fn fi s"
  using assms(1)
proof (induction n arbitrary: s)
  case 0
  then show ?case by (cases m) (auto simp: word_less_nat_alt)
next
  case (Suc n)
  show ?case
  proof (cases "vs_ip s < func_end fn")
    case True
    then have b: "unat (vs_ip s) + 5 < 2 ^ 32" using assms(2) by (simp add: word_less_nat_alt)
    have "verify_loop (n + m) img fn fi s' = verify_loop n img fn fi s'"
      if "verify_instr img fn fi s = Ret (True, s')" for s'
      using verify_instr_advances [OF that b] Suc.prems by (intro Suc.IH) linarith
    then show ?thesis by (auto simp: andthen_def split: outcome.split)
  qed simp
qed



end
