(* ===== verification/Arc_Scope.thy ===== *)
theory Arc_Scope
  imports Arc_Prelude
begin

text \<open>
  Lexical scopes of the semantic lowering pass: \<^verbatim>\<open>src/semantic/scope.h\<close> and \<^verbatim>\<open>scope.c\<close>.
  The two fixed arrays are lists of their full length, so that popped entries stay behind the
  count exactly as in the code; a failing \<^verbatim>\<open>assert\<close> is \<^const>\<open>Undef\<close>. The abstract view of a
  scope is the stack of frames it holds, each a list of names; a lookup finds the innermost,
  most recent binding.
\<close>

section \<open>State and operations\<close>

definition SCOPE_MAX_LOCALS :: nat where "SCOPE_MAX_LOCALS = 256"
definition SCOPE_MAX_DEPTH :: nat where "SCOPE_MAX_DEPTH = 64"

record ScopeLocal =
  sl_name :: string
  sl_slot :: nat

record ArcScope =
  locals :: "ScopeLocal list"
  sc_local_count :: nat
  scope_starts :: "nat list"
  scope_depth :: nat

definition arc_scope_init :: "ArcScope \<Rightarrow> ArcScope" where
  "arc_scope_init s = s\<lparr>sc_local_count := 0, scope_depth := 0\<rparr>"

definition arc_scope_push :: "ArcScope \<Rightarrow> ArcScope outcome" where
  "arc_scope_push s =
     (if scope_depth s < SCOPE_MAX_DEPTH
      then Ret (s\<lparr>scope_starts := (scope_starts s)[scope_depth s := sc_local_count s],
                  scope_depth := scope_depth s + 1\<rparr>)
      else Undef)"

definition arc_scope_pop :: "ArcScope \<Rightarrow> ArcScope outcome" where
  "arc_scope_pop s =
     (if 0 < scope_depth s
      then Ret (s\<lparr>scope_depth := scope_depth s - 1,
                  sc_local_count := scope_starts s ! (scope_depth s - 1)\<rparr>)
      else Undef)"

text \<open>\<^verbatim>\<open>for (int i = local_count - 1; i >= 0; i--)\<close>: the argument is \<^verbatim>\<open>i + 1\<close>.\<close>

fun scope_find_loop :: "ScopeLocal list \<Rightarrow> string \<Rightarrow> nat \<Rightarrow> int" where
  "scope_find_loop ls name 0 = -1"
| "scope_find_loop ls name (Suc i) =
     (if sl_name (ls ! i) = name then int (sl_slot (ls ! i)) else scope_find_loop ls name i)"

definition arc_scope_find :: "ArcScope \<Rightarrow> string \<Rightarrow> int" where
  "arc_scope_find s name = scope_find_loop (locals s) name (sc_local_count s)"

definition arc_scope_add :: "ArcScope \<Rightarrow> string \<Rightarrow> (nat \<times> ArcScope) outcome" where
  "arc_scope_add s name =
     (if sc_local_count s < SCOPE_MAX_LOCALS
      then Ret (sc_local_count s,
                s\<lparr>locals := (locals s)[sc_local_count s := \<lparr>sl_name = name, sl_slot = sc_local_count s\<rparr>],
                  sc_local_count := sc_local_count s + 1\<rparr>)
      else Undef)"

section \<open>Invariant\<close>

text \<open>The visible names in declaration order, and the frame starts.\<close>

definition scope_names :: "ArcScope \<Rightarrow> string list" where
  "scope_names s = map sl_name (take (sc_local_count s) (locals s))"

definition frame_starts :: "ArcScope \<Rightarrow> nat list" where
  "frame_starts s = take (scope_depth s) (scope_starts s)"

definition scope_wf :: "ArcScope \<Rightarrow> bool" where
  "scope_wf s \<longleftrightarrow>
     length (locals s) = SCOPE_MAX_LOCALS \<and> length (scope_starts s) = SCOPE_MAX_DEPTH \<and>
     sc_local_count s \<le> SCOPE_MAX_LOCALS \<and> scope_depth s \<le> SCOPE_MAX_DEPTH \<and>
     (\<forall>i < sc_local_count s. sl_slot (locals s ! i) = i) \<and>
     sorted (frame_starts s) \<and> (\<forall>x \<in> set (frame_starts s). x \<le> sc_local_count s)"

lemma scope_wfD:
  assumes "scope_wf s"
  shows "length (locals s) = SCOPE_MAX_LOCALS" "length (scope_starts s) = SCOPE_MAX_DEPTH"
    "sc_local_count s \<le> SCOPE_MAX_LOCALS" "scope_depth s \<le> SCOPE_MAX_DEPTH"
    "\<And>i. i < sc_local_count s \<Longrightarrow> sl_slot (locals s ! i) = i"
    "sorted (frame_starts s)" "\<And>x. x \<in> set (frame_starts s) \<Longrightarrow> x \<le> sc_local_count s"
  using assms by (auto simp: scope_wf_def)

lemma arc_scope_init_wf [wf_intros]:
  "length (locals s) = SCOPE_MAX_LOCALS \<Longrightarrow> length (scope_starts s) = SCOPE_MAX_DEPTH \<Longrightarrow>
    scope_wf (arc_scope_init s)"
  by (simp add: scope_wf_def arc_scope_init_def frame_starts_def)

section \<open>Effect on the abstract frames\<close>

lemma arc_scope_push_abs:
  assumes "scope_wf s" "arc_scope_push s = Ret s'"
  shows "scope_names s' = scope_names s" "frame_starts s' = frame_starts s @ [length (scope_names s)]" "scope_wf s'"
proof -
  note wf = scope_wfD [OF assms(1)]
  from assms(2) have d: "scope_depth s < SCOPE_MAX_DEPTH"
    and s': "s' = s\<lparr>scope_starts := (scope_starts s)[scope_depth s := sc_local_count s], scope_depth := scope_depth s + 1\<rparr>"
    by (auto simp: arc_scope_push_def split: if_splits)
  have fs: "frame_starts s' = frame_starts s @ [sc_local_count s]"
    using d wf(2) by (simp add: s' frame_starts_def take_Suc_conv_app_nth)
  then show "frame_starts s' = frame_starts s @ [length (scope_names s)]"
    using wf(1,3) by (simp add: scope_names_def)
  show "scope_names s' = scope_names s" by (simp add: s' scope_names_def)
  show "scope_wf s'"
    unfolding scope_wf_def fs using wf d by (auto simp: s' sorted_append)
qed

lemma arc_scope_pop_abs:
  assumes "scope_wf s" "arc_scope_pop s = Ret s'"
  shows "frame_starts s = frame_starts s' @ [sc_local_count s']" "scope_names s' = take (sc_local_count s') (scope_names s)"
    "sc_local_count s' \<le> sc_local_count s" "scope_wf s'"
proof -
  note wf = scope_wfD [OF assms(1)]
  from assms(2) have d: "0 < scope_depth s"
    and s': "s' = s\<lparr>scope_depth := scope_depth s - 1, sc_local_count := scope_starts s ! (scope_depth s - 1)\<rparr>"
    by (auto simp: arc_scope_pop_def split: if_splits)
  have "take (Suc (scope_depth s - 1)) (scope_starts s)
      = take (scope_depth s - 1) (scope_starts s) @ [scope_starts s ! (scope_depth s - 1)]"
    using d wf(2,4) by (intro take_Suc_conv_app_nth) simp
  then show fs: "frame_starts s = frame_starts s' @ [sc_local_count s']"
    using d by (simp add: s' frame_starts_def)
  with wf(7) show le: "sc_local_count s' \<le> sc_local_count s" by simp
  then show "scope_names s' = take (sc_local_count s') (scope_names s)"
    by (simp add: s' scope_names_def take_map min_def)
  have "locals s' = locals s" "scope_starts s' = scope_starts s" "scope_depth s' \<le> scope_depth s"
    by (simp_all add: s')
  with wf le fs show "scope_wf s'"
    by (fastforce simp: scope_wf_def sorted_append)
qed

lemma arc_scope_add_abs:
  assumes "scope_wf s" "arc_scope_add s x = Ret (i, s')"
  shows "i = length (scope_names s)" "scope_names s' = scope_names s @ [x]" "frame_starts s' = frame_starts s" "scope_wf s'"
proof -
  note wf = scope_wfD [OF assms(1)]
  from assms(2) have d: "sc_local_count s < SCOPE_MAX_LOCALS" and i: "i = sc_local_count s"
    and s': "s' = s\<lparr>locals := (locals s)[sc_local_count s := \<lparr>sl_name = x, sl_slot = sc_local_count s\<rparr>],
                  sc_local_count := sc_local_count s + 1\<rparr>"
    by (auto simp: arc_scope_add_def split: if_splits)
  show "i = length (scope_names s)" using i wf(1,3) by (simp add: scope_names_def)
  show "scope_names s' = scope_names s @ [x]"
    using d wf(1) by (simp add: s' scope_names_def take_Suc_conv_app_nth)
  show fs: "frame_starts s' = frame_starts s" by (simp add: s' frame_starts_def)
  show "scope_wf s'"
    unfolding scope_wf_def fs using wf d by (auto simp: s' nth_list_update less_Suc_eq intro: le_SucI)
qed

section \<open>Lookup\<close>

text \<open>The most recent position of a name.\<close>

fun last_index :: "'a \<Rightarrow> 'a list \<Rightarrow> nat option" where
  "last_index x [] = None"
| "last_index x (y # ys) =
     (case last_index x ys of Some i \<Rightarrow> Some (Suc i) | None \<Rightarrow> if y = x then Some 0 else None)"

lemma last_index_snoc: "last_index x (ys @ [y]) = (if y = x then Some (length ys) else last_index x ys)"
  by (induction ys) auto

lemma last_index_None: "last_index x ys = None \<longleftrightarrow> x \<notin> set ys"
  by (induction ys) (auto split: option.splits)

lemma last_index_Some:
  "last_index x ys = Some i \<Longrightarrow> i < length ys \<and> ys ! i = x \<and> (\<forall>j. i < j \<and> j < length ys \<longrightarrow> ys ! j \<noteq> x)"
proof (induction ys rule: rev_induct)
  case (snoc y ys)
  then show ?case
    by (cases "y = x") (auto simp: last_index_snoc nth_append less_Suc_eq)
qed simp

lemma scope_find_loop_last:
  assumes "n \<le> length ls" "\<forall>i < n. sl_slot (ls ! i) = i"
  shows "scope_find_loop ls x n = (case last_index x (map sl_name (take n ls)) of Some i \<Rightarrow> int i | None \<Rightarrow> -1)"
  using assms
proof (induction n)
  case (Suc n)
  then have "map sl_name (take (Suc n) ls) = map sl_name (take n ls) @ [sl_name (ls ! n)]"
    by (simp add: take_Suc_conv_app_nth)
  with Suc show ?case by (simp add: last_index_snoc)
qed simp

lemma arc_scope_find_last:
  "scope_wf s \<Longrightarrow> arc_scope_find s x = (case last_index x (scope_names s) of Some i \<Rightarrow> int i | None \<Rightarrow> -1)"
  unfolding arc_scope_find_def scope_names_def
  by (rule scope_find_loop_last) (use scope_wfD [of s] in auto)

section \<open>Sequences of operations\<close>

datatype scope_op = Push | Pop | Add string

fun scope_step :: "ArcScope \<Rightarrow> scope_op \<Rightarrow> ArcScope outcome" where
  "scope_step s Push = arc_scope_push s"
| "scope_step s Pop = arc_scope_pop s"
| "scope_step s (Add x) = andthen (arc_scope_add s x) (\<lambda>(_, s). Ret s)"

fun scope_run :: "ArcScope \<Rightarrow> scope_op list \<Rightarrow> ArcScope outcome" where
  "scope_run s [] = Ret s"
| "scope_run s (op # ops) = andthen (scope_step s op) (\<lambda>s. scope_run s ops)"

lemma scope_run_append: "scope_run s (as @ bs) = andthen (scope_run s as) (\<lambda>s. scope_run s bs)"
  by (induction as arbitrary: s) (auto simp: andthen_def split: outcome.splits)

lemma scope_step_wf: "scope_wf s \<Longrightarrow> scope_step s op = Ret s' \<Longrightarrow> scope_wf s'"
  by (cases op) (auto simp: andthen_Ret dest: arc_scope_push_abs arc_scope_pop_abs arc_scope_add_abs)

lemma scope_run_wf: "scope_wf s \<Longrightarrow> scope_run s ops = Ret s' \<Longrightarrow> scope_wf s'"
  by (induction ops arbitrary: s) (auto simp: andthen_Ret dest: scope_step_wf)

text \<open>What the lowering of a block emits: every scope it opens it closes again.\<close>

inductive balanced :: "scope_op list \<Rightarrow> bool" where
  "balanced []"
| "balanced ops \<Longrightarrow> balanced (Add x # ops)"
| "balanced ops \<Longrightarrow> balanced ops' \<Longrightarrow> balanced (Push # ops @ Pop # ops')"

lemma scope_block:
  assumes "scope_wf s" "scope_run s (Push # ops @ [Pop]) = Ret s'"
    and body: "\<And>a b. scope_wf a \<Longrightarrow> scope_run a ops = Ret b \<Longrightarrow>
      scope_wf b \<and> frame_starts b = frame_starts a \<and> (\<exists>ys. scope_names b = scope_names a @ ys)"
  shows "scope_wf s' \<and> frame_starts s' = frame_starts s \<and> scope_names s' = scope_names s"
proof -
  from assms(2) obtain s1 s2 where 1: "arc_scope_push s = Ret s1" and 2: "scope_run s1 ops = Ret s2"
    and 3: "arc_scope_pop s2 = Ret s'"
    by (auto simp: scope_run_append andthen_Ret)
  note p = arc_scope_push_abs [OF assms(1) 1]
  from body [OF p(3) 2] obtain ys where b: "scope_wf s2" "frame_starts s2 = frame_starts s1"
    "scope_names s2 = scope_names s1 @ ys" by auto
  note q = arc_scope_pop_abs [OF b(1) 3]
  from q(1) b(2) p(2) have "frame_starts s' = frame_starts s" "sc_local_count s' = length (scope_names s)"
    by simp_all
  with q b(3) p(1) show ?thesis by simp
qed

lemma balanced_run:
  assumes "balanced ops"
  shows "scope_wf s \<Longrightarrow> scope_run s ops = Ret s' \<Longrightarrow>
    scope_wf s' \<and> frame_starts s' = frame_starts s \<and> (\<exists>ys. scope_names s' = scope_names s @ ys)"
  using assms
proof (induction arbitrary: s s' rule: balanced.induct)
  case (2 ops x)
  then obtain i s1 where a: "arc_scope_add s x = Ret (i, s1)" "scope_run s1 ops = Ret s'"
    by (auto simp: andthen_Ret)
  note b = arc_scope_add_abs [OF "2.prems"(1) a(1)]
  from "2.IH" [OF b(4) a(2)] b show ?case by auto
next
  case (3 ops ops')
  have "scope_run s ((Push # ops @ [Pop]) @ ops') = Ret s'" using "3.prems"(2) by simp
  then obtain s1 where a: "scope_run s (Push # ops @ [Pop]) = Ret s1" "scope_run s1 ops' = Ret s'"
    unfolding scope_run_append [of s "Push # ops @ [Pop]"] andthen_Ret by blast
  from scope_block [OF "3.prems"(1) a(1) "3.IH"(1)] have
    "scope_wf s1" "frame_starts s1 = frame_starts s" "scope_names s1 = scope_names s" by blast+
  with "3.IH"(2) [OF _ a(2)] show ?case by simp
qed auto

section \<open>Properties\<close>

text \<open>C19. A lookup returns the slot of the innermost, most recently declared binding of the name, and
  -1 exactly when the name is not in scope. The slot of a binding is its position.\<close>

theorem scope_find_innermost:
  assumes "scope_wf s"
  shows "(arc_scope_find s x = -1 \<longleftrightarrow> x \<notin> set (scope_names s)) \<and>
    (\<forall>i. arc_scope_find s x = int i \<longleftrightarrow>
       i < length (scope_names s) \<and> scope_names s ! i = x \<and>
       (\<forall>j. i < j \<and> j < length (scope_names s) \<longrightarrow> scope_names s ! j \<noteq> x))"
proof (cases "last_index x (scope_names s)")
  case None
  then have "arc_scope_find s x = -1" "x \<notin> set (scope_names s)"
    using arc_scope_find_last [OF assms, of x] last_index_None [of x "scope_names s"] by simp_all
  then show ?thesis by auto
next
  case (Some i)
  have "x \<in> set (scope_names s)" using Some last_index_None [of x "scope_names s"] by simp
  moreover have "k = i" if "k < length (scope_names s)" "scope_names s ! k = x"
    "\<forall>j. k < j \<and> j < length (scope_names s) \<longrightarrow> scope_names s ! j \<noteq> x" for k
    using that last_index_Some [OF Some] by (metis linorder_neqE_nat)
  ultimately show ?thesis
    using arc_scope_find_last [OF assms, of x] Some last_index_Some [OF Some] by auto
qed

definition empty_scope :: ArcScope where
  "empty_scope = \<lparr>locals = replicate 256 \<lparr>sl_name = [], sl_slot = 0\<rparr>, sc_local_count = 0,
     scope_starts = replicate 64 0, scope_depth = 0\<rparr>"

lemma empty_scope_wf: "scope_wf empty_scope"
  by (simp add: scope_wf_def empty_scope_def SCOPE_MAX_LOCALS_def SCOPE_MAX_DEPTH_def frame_starts_def)

definition shadowed_scope :: "ArcScope outcome" where
  "shadowed_scope = scope_run empty_scope [Add ''a'', Push, Add ''a'', Add ''b'']"

lemma shadowed_scope_run:
  "\<exists>s. shadowed_scope = Ret s \<and> scope_names s = [''a'', ''a'', ''b'']"
  by (simp add: shadowed_scope_def empty_scope_def arc_scope_add_def arc_scope_push_def
      SCOPE_MAX_LOCALS_def SCOPE_MAX_DEPTH_def scope_names_def numeral_eq_Suc)

theorem scope_find_innermost_witness:
  "\<exists>s. shadowed_scope = Ret s \<and> scope_wf s \<and> arc_scope_find s ''a'' = 1 \<and> arc_scope_find s ''c'' = -1"
proof -
  obtain s where s: "shadowed_scope = Ret s" "scope_names s = [''a'', ''a'', ''b'']"
    using shadowed_scope_run by blast
  have wf: "scope_wf s" using s(1) unfolding shadowed_scope_def by (rule scope_run_wf [OF empty_scope_wf])
  have "arc_scope_find s ''a'' = int 1"
    unfolding scope_find_innermost [OF wf, of "''a''", THEN conjunct2, rule_format, of 1] s(2)
    by (auto simp: less_Suc_eq numeral_eq_Suc)
  moreover have "arc_scope_find s ''c'' = -1"
    using scope_find_innermost [OF wf, of "''c''"] s(2) by simp
  ultimately show ?thesis using s(1) wf by auto
qed

text \<open>C12. A block leaves no trace: after \<^verbatim>\<open>arc_scope_push\<close>, any balanced sequence of declarations and
  nested blocks, and \<^verbatim>\<open>arc_scope_pop\<close>, every name resolves to what it resolved to before, and the slots
  of the block are free again.\<close>

theorem scope_block_restores:
  assumes "scope_wf s" "balanced ops" "scope_run s (Push # ops @ [Pop]) = Ret s'"
  shows "scope_wf s' \<and> scope_names s' = scope_names s \<and> frame_starts s' = frame_starts s \<and>
    (\<forall>x. arc_scope_find s' x = arc_scope_find s x)"
  using scope_block [OF assms(1,3) balanced_run [OF assms(2)]] assms(1)
  by (simp add: arc_scope_find_last)

lemma shadow_block_run:
  "\<exists>s. scope_run empty_scope [Push, Add ''a'', Push, Add ''b'', Pop, Pop] = Ret s"
  by (simp add: empty_scope_def arc_scope_add_def arc_scope_push_def arc_scope_pop_def
      SCOPE_MAX_LOCALS_def SCOPE_MAX_DEPTH_def numeral_eq_Suc)

theorem scope_block_restores_witness:
  "\<exists>s. scope_run empty_scope [Push, Add ''a'', Push, Add ''b'', Pop, Pop] = Ret s \<and>
    scope_names s = scope_names empty_scope"
proof -
  have "balanced [Add ''a'', Push, Add ''b'', Pop]"
    using balanced.intros(2) [OF balanced.intros(3) [OF balanced.intros(2) [OF balanced.intros(1)] balanced.intros(1)]]
    by simp
  from scope_block_restores [OF empty_scope_wf this] shadow_block_run show ?thesis by auto
qed

end
