(* ===== verification/Arc_Arena.thy ===== *)
theory Arc_Arena
  imports Arc_Prelude
begin

text \<open>
  The bump allocator of the compiler: \<^verbatim>\<open>src/common/arena.h\<close> and \<^verbatim>\<open>arena.c\<close>. The list of blocks is the
  \<^verbatim>\<open>next\<close> chain from \<^verbatim>\<open>head\<close>; a pointer into the arena is the identity of a block and an offset in
  its \<^verbatim>\<open>data\<close>. Sizes are 64-bit words, so the rounding and the room check wrap as \<^verbatim>\<open>size_t\<close> does.
  Whether \<^verbatim>\<open>calloc\<close> succeeds is an argument. The \<^verbatim>\<open>memset\<close> of the fresh object is out of bounds, and
  the call undefined, when the object does not fit its block.
\<close>

section \<open>State and operations\<close>

definition ARC_ARENA_BLOCK_SIZE :: u64 where
  "ARC_ARENA_BLOCK_SIZE = 64 * 1024"

record ArcArenaBlock =
  blk_id :: nat
  blk_used :: u64
  blk_cap :: u64

record ArcArena =
  blocks :: "ArcArenaBlock list"
  total :: u64

type_synonym arena_ptr = "nat \<times> u64"

definition arc_arena_init :: ArcArena where
  "arc_arena_init = \<lparr>blocks = [], total = 0\<rparr>"

definition arena_new_block :: "bool \<Rightarrow> nat \<Rightarrow> u64 \<Rightarrow> ArcArenaBlock option" where
  "arena_new_block alloc_ok i min_size =
     (let c = (if ARC_ARENA_BLOCK_SIZE < min_size then min_size else ARC_ARENA_BLOCK_SIZE)
      in if alloc_ok then Some \<lparr>blk_id = i, blk_used = 0, blk_cap = c\<rparr> else None)"

definition align8 :: "u64 \<Rightarrow> u64" where
  "align8 sz = (sz + 7) AND NOT 7"

text \<open>The \<^verbatim>\<open>memset\<close> of \<open>sz\<close> bytes at offset \<open>off\<close> of a block with capacity \<open>c\<close>.\<close>

definition zero_fill :: "u64 \<Rightarrow> u64 \<Rightarrow> u64 \<Rightarrow> 'a \<Rightarrow> 'a outcome" where
  "zero_fill c off sz x = (if unat off + unat sz \<le> unat c then Ret x else Undef)"

definition arc_arena_alloc :: "bool \<Rightarrow> ArcArena \<Rightarrow> u64 \<Rightarrow> (arena_ptr option \<times> ArcArena) outcome" where
  "arc_arena_alloc alloc_ok a sz0 =
     (let sz = align8 sz0;
          fresh = (case arena_new_block alloc_ok (length (blocks a)) sz of
              None \<Rightarrow> Ret (None, a)
            | Some blk \<Rightarrow> zero_fill (blk_cap blk) 0 sz
                (Some (blk_id blk, 0), a\<lparr>blocks := blk\<lparr>blk_used := sz\<rparr> # blocks a, total := total a + sz\<rparr>))
      in case blocks a of
           [] \<Rightarrow> fresh
         | h # bs \<Rightarrow>
             if blk_used h + sz \<le> blk_cap h
             then zero_fill (blk_cap h) (blk_used h) sz
               (Some (blk_id h, blk_used h), a\<lparr>blocks := h\<lparr>blk_used := blk_used h + sz\<rparr> # bs, total := total a + sz\<rparr>)
             else fresh)"

definition arc_arena_free :: "ArcArena \<Rightarrow> ArcArena" where
  "arc_arena_free a = a\<lparr>blocks := [], total := 0\<rparr>"

section \<open>Alignment\<close>

lemma and_not_7: "(x :: u64) AND NOT 7 = push_bit 3 (drop_bit 3 x)"
proof (rule bit_word_eqI)
  fix n assume "n < LENGTH(64)"
  have seven: "(7 :: u64) = mask 3" by (simp add: mask_eq_exp_minus_1)
  show "bit (x AND NOT 7) n = bit (push_bit 3 (drop_bit 3 x)) n"
    unfolding seven using \<open>n < LENGTH(64)\<close>
    by (auto simp: bit_simps not_less le_add_diff_inverse)
qed

lemma unat_align8:
  assumes "unat sz < 2 ^ 63"
  shows "unat (align8 sz) = 8 * ((unat sz + 7) div 8)"
proof -
  have "unat (sz + 7) = unat sz + 7" using assms by (simp add: unat_word_ariths)
  moreover have "unat (push_bit 3 w :: u64) = take_bit 64 (push_bit 3 (unat w))" for w :: u64
    by (simp only: unsigned_push_bit_eq len_num1 len_bit0) simp
  moreover have "take_bit 64 (8 * ((unat sz + 7) div 8)) = 8 * ((unat sz + 7) div 8)"
    using assms by (intro take_bit_nat_eq_self) simp
  moreover have "take_bit 64 (unat sz + 7) = unat sz + 7"
    using assms by (intro take_bit_nat_eq_self) simp
  ultimately show ?thesis
    unfolding align8_def and_not_7 by (simp only: unsigned_drop_bit_eq) (simp add: push_bit_eq_mult drop_bit_eq_div mult.commute)
qed

section \<open>Regions\<close>

text \<open>An object of \<open>n\<close> bytes at a pointer lies in the used part of its block.\<close>

type_synonym region = "arena_ptr \<times> nat"

fun region_in :: "ArcArena \<Rightarrow> region \<Rightarrow> bool" where
  "region_in a ((i, off), n) \<longleftrightarrow> (\<exists>b \<in> set (blocks a). blk_id b = i \<and> unat off + n \<le> unat (blk_used b))"

fun region_disjoint :: "region \<Rightarrow> region \<Rightarrow> bool" where
  "region_disjoint ((i, off), n) ((i', off'), n') \<longleftrightarrow>
     i \<noteq> i' \<or> unat off + n \<le> unat off' \<or> unat off' + n' \<le> unat off"

lemma region_cases: obtains i off n where "(r :: region) = ((i, off), n)"
  by (cases r) (metis prod.exhaust)

lemma region_in_shrink: "region_in a (q, n) \<Longrightarrow> m \<le> n \<Longrightarrow> region_in a (q, m)"
  by (cases q) fastforce

lemma region_disjoint_shrink: "region_disjoint r (q, n) \<Longrightarrow> m \<le> n \<Longrightarrow> region_disjoint r (q, m)"
  by (cases r rule: region_cases; cases q) auto

definition block_wf :: "ArcArenaBlock \<Rightarrow> bool" where
  "block_wf b \<longleftrightarrow> unat (blk_used b) \<le> unat (blk_cap b) \<and> unat (blk_cap b) \<le> 2 ^ 62 \<and> 8 dvd unat (blk_used b)"

definition arena_wf :: "ArcArena \<Rightarrow> bool" where
  "arena_wf a \<longleftrightarrow> map blk_id (blocks a) = rev [0..<length (blocks a)] \<and> list_all block_wf (blocks a)"

lemma arena_wf_init [wf_intros]: "arena_wf arc_arena_init"
  by (simp add: arena_wf_def arc_arena_init_def)

lemma arena_wf_free [wf_intros]: "arena_wf (arc_arena_free a)"
  by (simp add: arena_wf_def arc_arena_free_def)

lemma arena_ids: "arena_wf a \<Longrightarrow> b \<in> set (blocks a) \<Longrightarrow> blk_id b < length (blocks a)"
proof -
  assume "arena_wf a" "b \<in> set (blocks a)"
  then have "blk_id b \<in> set (rev [0..<length (blocks a)])" unfolding arena_wf_def by (metis image_eqI set_map)
  then show ?thesis by simp
qed

text \<open>The two ways an allocation succeeds.\<close>

lemma alloc_fresh:
  assumes wf: "arena_wf a" and n: "unat n \<le> 2 ^ 62" "8 dvd unat n"
    and blk: "arena_new_block True (length (blocks a)) n = Some blk"
    and a': "a' = a\<lparr>blocks := blk\<lparr>blk_used := n\<rparr> # blocks a, total := total a + n\<rparr>"
  shows "arena_wf a'" "region_in a' ((blk_id blk, 0), unat n)" "unat n \<le> unat (blk_cap blk)"
    "region_in a r \<Longrightarrow> region_in a' r \<and> region_disjoint r ((blk_id blk, 0), unat n)"
proof -
  have b: "blk_id blk = length (blocks a)" "unat n \<le> unat (blk_cap blk)" "unat (blk_cap blk) \<le> 2 ^ 62"
    using blk n by (auto simp: arena_new_block_def Let_def word_less_nat_alt ARC_ARENA_BLOCK_SIZE_def split: if_splits)
  then show "unat n \<le> unat (blk_cap blk)" by simp
  show "arena_wf a'" using wf b n by (simp add: a' arena_wf_def block_wf_def)
  show "region_in a' ((blk_id blk, 0), unat n)" by (simp add: a')
  show "region_in a r \<Longrightarrow> region_in a' r \<and> region_disjoint r ((blk_id blk, 0), unat n)"
    using arena_ids [OF wf] b(1) by (cases r rule: region_cases) (fastforce simp: a')
qed

lemma alloc_bump:
  assumes wf: "arena_wf a" and n: "unat n \<le> 2 ^ 62" "8 dvd unat n"
    and bs: "blocks a = h # bs" and room: "blk_used h + n \<le> blk_cap h"
    and a': "a' = a\<lparr>blocks := h\<lparr>blk_used := blk_used h + n\<rparr> # bs, total := total a + n\<rparr>"
  shows "arena_wf a'" "region_in a' ((blk_id h, blk_used h), unat n)" "8 dvd unat (blk_used h)"
    "unat (blk_used h) + unat n \<le> unat (blk_cap h)"
    "region_in a r \<Longrightarrow> region_in a' r \<and> region_disjoint r ((blk_id h, blk_used h), unat n)"
proof -
  have h: "unat (blk_used h) \<le> 2 ^ 62" "unat (blk_cap h) \<le> 2 ^ 62" "8 dvd unat (blk_used h)"
    using wf bs by (auto simp: arena_wf_def block_wf_def)
  have sum: "unat (blk_used h + n) = unat (blk_used h) + unat n"
    using h(1) n(1) by (simp add: unat_word_ariths)
  show "8 dvd unat (blk_used h)" by (rule h)
  show le: "unat (blk_used h) + unat n \<le> unat (blk_cap h)" using room sum by (simp add: word_le_nat_alt)
  show "arena_wf a'" using wf bs sum le h n by (simp add: a' arena_wf_def block_wf_def)
  show "region_in a' ((blk_id h, blk_used h), unat n)" using sum by (simp add: a')
  have "blk_id b \<noteq> blk_id h" if "b \<in> set bs" for b
    using wf bs that by (auto simp: arena_wf_def) (metis atLeast0LessThan image_eqI lessThan_iff less_irrefl set_map set_rev set_upt)
  with sum bs show "region_in a r \<Longrightarrow> region_in a' r \<and> region_disjoint r ((blk_id h, blk_used h), unat n)"
    by (cases r rule: region_cases) (fastforce simp: a')
qed

section \<open>Properties\<close>

text \<open>C20. An allocation of up to \<open>2^62 - 8\<close> bytes is defined; it returns null only when \<^verbatim>\<open>calloc\<close> fails, and
  then leaves the arena alone; otherwise the object is 8-aligned, large enough, inside its block and
  disjoint from every object that was live before, none of which moves.\<close>

theorem arena_alloc_fresh_region:
  assumes "arena_wf a" "unat sz \<le> 2 ^ 62 - 8"
  shows "\<exists>p a'. arc_arena_alloc ok a sz = Ret (p, a') \<and> arena_wf a' \<and>
    (case p of None \<Rightarrow> \<not> ok \<and> a' = a
     | Some q \<Rightarrow> 8 dvd unat (snd q) \<and> region_in a' (q, unat sz) \<and>
         (\<forall>r. region_in a r \<longrightarrow> region_in a' r \<and> region_disjoint r (q, unat sz)))"
proof -
  let ?n = "align8 sz"
  have n: "unat ?n \<le> 2 ^ 62" "8 dvd unat ?n" "unat sz \<le> unat ?n"
    using unat_align8 [of sz] assms(2) by simp_all
  note mono = region_disjoint_shrink [OF _ n(3)] region_in_shrink [OF _ n(3)]
  show ?thesis
  proof (cases "\<exists>h bs. blocks a = h # bs \<and> blk_used h + ?n \<le> blk_cap h")
    case True
    then obtain h bs where h: "blocks a = h # bs" "blk_used h + ?n \<le> blk_cap h" by blast
    note b = alloc_bump [OF assms(1) n(1,2) h refl]
    from h b(4) have "arc_arena_alloc ok a sz = Ret (Some (blk_id h, blk_used h),
        a\<lparr>blocks := h\<lparr>blk_used := blk_used h + ?n\<rparr> # bs, total := total a + ?n\<rparr>)"
      by (simp add: arc_arena_alloc_def Let_def zero_fill_def)
    with b mono show ?thesis by (fastforce simp del: region_in.simps region_disjoint.simps)
  next
    case no_room: False
    show ?thesis
    proof (cases ok)
      case False
      with no_room have "arc_arena_alloc ok a sz = Ret (None, a)"
        by (auto simp: arc_arena_alloc_def Let_def arena_new_block_def split: list.splits)
      with False assms(1) show ?thesis by auto
    next
      case True
      then obtain blk where blk: "arena_new_block True (length (blocks a)) ?n = Some blk"
        by (auto simp: arena_new_block_def Let_def)
      note b = alloc_fresh [OF assms(1) n(1,2) blk refl]
      from no_room blk b(3) True have "arc_arena_alloc ok a sz = Ret (Some (blk_id blk, 0),
          a\<lparr>blocks := blk\<lparr>blk_used := ?n\<rparr> # blocks a, total := total a + ?n\<rparr>)"
        by (auto simp: arc_arena_alloc_def Let_def zero_fill_def split: list.splits)
      with b mono show ?thesis by (fastforce simp del: region_in.simps region_disjoint.simps)
    qed
  qed
qed

theorem arena_alloc_fresh_region_witness:
  "\<exists>p a'. arc_arena_alloc True \<lparr>blocks = [\<lparr>blk_id = 0, blk_used = 16, blk_cap = 65536\<rparr>], total = 16\<rparr> 5 = Ret (p, a') \<and>
    arena_wf a' \<and> (case p of None \<Rightarrow> False | Some q \<Rightarrow> region_disjoint ((0, 0), 16) (q, 5))"
proof -
  let ?a = "\<lparr>blocks = [\<lparr>blk_id = 0, blk_used = 16, blk_cap = 65536\<rparr>], total = 16\<rparr>"
  have "arena_wf ?a" "unat (5 :: u64) \<le> 2 ^ 62 - 8" "region_in ?a ((0, 0), 16)"
    by (simp_all add: arena_wf_def block_wf_def)
  with arena_alloc_fresh_region [of ?a 5 True] show ?thesis
    by (fastforce split: option.splits simp del: region_in.simps region_disjoint.simps)
qed

text \<open>C21. The room check is done in \<^verbatim>\<open>size_t\<close>: a request close to \<open>2^64\<close> bytes passes it by wrapping around,
  and the object returned does not fit its block.\<close>

theorem arena_alloc_wraps:
  assumes "blocks a = h # bs" "8 \<le> blk_used h" "blk_used h \<le> blk_cap h" "unat (blk_cap h) < 2 ^ 63"
  shows "arc_arena_alloc ok a (- 8) = Undef"
proof -
  have "align8 (- 8) = - 8" by (simp add: align8_def)
  moreover have "blk_used h + (- 8) \<le> blk_cap h"
    using assms(2,3) by (simp add: word_le_nat_alt unat_sub)
  moreover have "\<not> unat (blk_used h) + unat (- 8 :: u64) \<le> unat (blk_cap h)" using assms(4) by simp
  ultimately show ?thesis using assms(1) by (simp add: arc_arena_alloc_def Let_def zero_fill_def)
qed

theorem arena_alloc_wraps_witness:
  "arc_arena_alloc True \<lparr>blocks = [\<lparr>blk_id = 0, blk_used = 16, blk_cap = 65536\<rparr>], total = 16\<rparr> (- 8) = Undef"
  by (rule arena_alloc_wraps [of _ "\<lparr>blk_id = 0, blk_used = 16, blk_cap = 65536\<rparr>" "[]"]) simp_all

end
