(* ===== verification/VM_State.thy ===== *)
theory VM_State
  imports Arc_Objects Opcodes "HOL-Library.Signed_Division"
begin

text \<open>
  The state in which the virtual machine runs and the primitives of \<^verbatim>\<open>src/vm/vm_ops.h\<close> and the head of
  \<^verbatim>\<open>src/vm/vm.c\<close>. The world holds the collector's heap, the main machine, the output streams, the lines of
  the standard input that are left and \<open>ctx\<close>, the machines active on this OS thread, innermost first: a
  coroutine that is resumed is pushed there, and its machine lives in its heap object, where upvalues of
  other machines can reach it; \<open>spawned\<close> and \<open>finished\<close> are the thread objects whose OS threads were
  started and have ended. An operation of the machine is a function from worlds to results: a value,
  an error status handed to the caller, undefined behaviour, or blocked on a mutex, channel or join. The
  behaviour of \<^verbatim>\<open>%g\<close>, \<^verbatim>\<open>strtod\<close>, \<^verbatim>\<open>clock\<close> and of thread creation is the record \<open>libc\<close>, together with the depth of recursion
  the C stack affords.
\<close>

section \<open>World and results\<close>

record libc =
  fmt_g :: "f64 \<Rightarrow> string"
  strtod :: "string \<Rightarrow> f64 \<times> nat"
  clock_seconds :: "nat \<Rightarrow> f64"
  thread_create :: "nat \<Rightarrow> bool"
  stack_depth :: nat

record world =
  gc :: ArcGC
  main_vm :: ArcVm
  ctx :: "nat option list"
  streams :: "nat \<Rightarrow> string"
  stdin_lines :: "string list"
  clock_calls :: nat
  spawned :: "nat list"
  finished :: "nat list"

datatype 'a vres = VRet 'a world | VErr ArcStatus world | VUndef | VBlock

type_synonym 'a vmM = "world \<Rightarrow> 'a vres"

definition vret :: "'a \<Rightarrow> 'a vmM" where
  "vret x = (\<lambda>w. VRet x w)"

definition vbind :: "'a vmM \<Rightarrow> ('a \<Rightarrow> 'b vmM) \<Rightarrow> 'b vmM" where
  "vbind m k = (\<lambda>w. case m w of VRet x w' \<Rightarrow> k x w' | VErr e w' \<Rightarrow> VErr e w' | VUndef \<Rightarrow> VUndef | VBlock \<Rightarrow> VBlock)"

definition vundef :: "'a vmM" where
  "vundef = (\<lambda>w. VUndef)"

definition vguard :: "bool \<Rightarrow> unit vmM" where
  "vguard b = (if b then vret () else vundef)"

definition vlift :: "'a outcome \<Rightarrow> 'a vmM" where
  "vlift r = (case r of Ret x \<Rightarrow> vret x | _ \<Rightarrow> vundef)"

section \<open>Machines of the world\<close>

definition get_vm :: "world \<Rightarrow> nat option \<Rightarrow> ArcVm option" where
  "get_vm w i =
     (case i of
        None \<Rightarrow> Some (main_vm w)
      | Some a \<Rightarrow> (case heap_get (gc w) a of
            Some (ObjCoroutine vm _) \<Rightarrow> Some vm
          | Some (ObjThread (Some vm) _) \<Rightarrow> Some vm
          | _ \<Rightarrow> None))"

definition put_vm :: "world \<Rightarrow> nat option \<Rightarrow> ArcVm \<Rightarrow> world" where
  "put_vm w i vm =
     (case i of
        None \<Rightarrow> w\<lparr>main_vm := vm\<rparr>
      | Some a \<Rightarrow> (case heap_get (gc w) a of
            Some (ObjCoroutine _ s) \<Rightarrow> w\<lparr>gc := heap_put (gc w) a (ObjCoroutine vm s)\<rparr>
          | Some (ObjThread _ j) \<Rightarrow> w\<lparr>gc := heap_put (gc w) a (ObjThread (Some vm) j)\<rparr>
          | _ \<Rightarrow> w))"

definition vm_of :: "nat option \<Rightarrow> ArcVm vmM" where
  "vm_of i = (\<lambda>w. case get_vm w i of Some vm \<Rightarrow> VRet vm w | None \<Rightarrow> VUndef)"

definition set_vm :: "nat option \<Rightarrow> ArcVm \<Rightarrow> unit vmM" where
  "set_vm i vm = (\<lambda>w. case get_vm w i of Some _ \<Rightarrow> VRet () (put_vm w i vm) | None \<Rightarrow> VUndef)"

definition me :: "nat option vmM" where
  "me = (\<lambda>w. case ctx w of [] \<Rightarrow> VUndef | i # _ \<Rightarrow> VRet i w)"

text \<open>The machine that is executing (\<^verbatim>\<open>ArcVm* vm\<close>), and an update of it.\<close>

definition cur :: "ArcVm vmM" where
  "cur = vbind me vm_of"

definition setcur :: "ArcVm \<Rightarrow> unit vmM" where
  "setcur vm = vbind me (\<lambda>i. set_vm i vm)"

definition modcur :: "(ArcVm \<Rightarrow> ArcVm) \<Rightarrow> unit vmM" where
  "modcur f = vbind cur (\<lambda>vm. setcur (f vm))"

text \<open>Operations on the heap.\<close>

definition heap :: "ArcGC vmM" where
  "heap = (\<lambda>w. VRet (gc w) w)"

definition heap_new :: "(ArcGC \<Rightarrow> nat \<times> ArcGC) \<Rightarrow> nat vmM" where
  "heap_new f = (\<lambda>w. let (a, g) = f (gc w) in VRet a (w\<lparr>gc := g\<rparr>))"

definition heap_op :: "(ArcGC \<Rightarrow> ('a \<times> ArcGC) outcome) \<Rightarrow> 'a vmM" where
  "heap_op f = (\<lambda>w. case f (gc w) of Ret (x, g) \<Rightarrow> VRet x (w\<lparr>gc := g\<rparr>) | _ \<Rightarrow> VUndef)"

definition obj_at :: "nat \<Rightarrow> ArcObject vmM" where
  "obj_at a = (\<lambda>w. case heap_get (gc w) a of Some ob \<Rightarrow> VRet ob w | None \<Rightarrow> VUndef)"

definition print_to :: "nat \<Rightarrow> string \<Rightarrow> unit vmM" where
  "print_to n s = (\<lambda>w. VRet () (w\<lparr>streams := (streams w)(n := streams w n @ s)\<rparr>))"

section \<open>Errors, stack and code access\<close>

text \<open>\<^verbatim>\<open>vm_error\<close> records the error (the message is cut at 255 characters); every caller then returns
  \<^const>\<open>ARC_ERR_RUNTIME\<close>.\<close>

definition vm_record_error :: "nat option \<Rightarrow> string \<Rightarrow> unit vmM" where
  "vm_record_error i msg =
     vbind (vm_of i) (\<lambda>vm.
     vbind (vguard (unat (fp vm) \<le> ARC_FRAMES_MAX)) (\<lambda>_.
       set_vm i (vm\<lparr>error := \<lparr>err_code = ARC_ERR_RUNTIME, err_message = take 255 msg, err_ip = ip vm,
         err_func_idx = (if fp vm = 0 then 0 else fr_func_idx (frames vm ! (unat (fp vm) - 1)))\<rparr>\<rparr>)))"

definition vm_error :: "string \<Rightarrow> 'a vmM" where
  "vm_error msg = vbind me (\<lambda>i. vbind (vm_record_error i msg) (\<lambda>_ w. VErr ARC_ERR_RUNTIME w))"

definition vm_push :: "ArcValue \<Rightarrow> unit vmM" where
  "vm_push v =
     vbind cur (\<lambda>vm.
       if ARC_STACK_MAX \<le> unat (sp vm) then vm_error ''stack overflow''
       else setcur (vm\<lparr>stack := (stack vm)[unat (sp vm) := v], sp := sp vm + 1\<rparr>))"

definition vm_pop :: "ArcValue vmM" where
  "vm_pop =
     vbind cur (\<lambda>vm.
       if sp vm = 0 then vm_error ''stack underflow''
       else vbind (vguard (unat (sp vm) \<le> ARC_STACK_MAX)) (\<lambda>_.
            vbind (setcur (vm\<lparr>sp := sp vm - 1\<rparr>)) (\<lambda>_. vret (stack vm ! unat (sp vm - 1)))))"

definition vm_read_byte :: "ArcBytecodeImage \<Rightarrow> u8 vmM" where
  "vm_read_byte img =
     vbind cur (\<lambda>vm.
     vbind (vguard (unat (ip vm) < length (img_code img))) (\<lambda>_.
     vbind (setcur (vm\<lparr>ip := ip vm + 1\<rparr>)) (\<lambda>_. vret (img_code img ! unat (ip vm)))))"

definition vm_read_u16 :: "ArcBytecodeImage \<Rightarrow> u16 vmM" where
  "vm_read_u16 img =
     vbind cur (\<lambda>vm.
     vbind (vguard (unat (ip vm) + 2 \<le> length (img_code img))) (\<lambda>_.
     vbind (setcur (vm\<lparr>ip := ip vm + 2\<rparr>)) (\<lambda>_. vret (arc_read_u16 (img_code img) (unat (ip vm))))))"

definition vm_read_i32 :: "ArcBytecodeImage \<Rightarrow> u32 vmM" where
  "vm_read_i32 img =
     vbind cur (\<lambda>vm.
     vbind (vguard (unat (ip vm) + 4 \<le> length (img_code img))) (\<lambda>_.
     vbind (setcur (vm\<lparr>ip := ip vm + 4\<rparr>)) (\<lambda>_. vret (arc_read_i32 (img_code img) (unat (ip vm))))))"

text \<open>A read or write of \<^verbatim>\<open>vm->stack[i]\<close> with a 32-bit index, and the innermost frame.\<close>

definition stack_at :: "u32 \<Rightarrow> ArcValue vmM" where
  "stack_at i = vbind cur (\<lambda>vm. vbind (vguard (unat i < ARC_STACK_MAX)) (\<lambda>_. vret (stack vm ! unat i)))"

definition stack_put :: "u32 \<Rightarrow> ArcValue \<Rightarrow> unit vmM" where
  "stack_put i v = vbind (vguard (unat i < ARC_STACK_MAX)) (\<lambda>_. modcur (\<lambda>vm. vm\<lparr>stack := (stack vm)[unat i := v]\<rparr>))"

definition top_frame :: "ArcFrame vmM" where
  "top_frame =
     vbind cur (\<lambda>vm. vbind (vguard (unat (fp vm - 1) < ARC_FRAMES_MAX)) (\<lambda>_. vret (frames vm ! unat (fp vm - 1))))"

definition push_new :: "(ArcGC \<Rightarrow> nat \<times> ArcGC) \<Rightarrow> unit vmM" where
  "push_new f = vbind (heap_new f) (\<lambda>a. vm_push (VAL_OBJ a))"

section \<open>Type tests\<close>

text \<open>\<^verbatim>\<open>ARC_IS_STRING(v)\<close> with \<^verbatim>\<open>ARC_AS_STRING(v)\<close>, and likewise for the other object types.\<close>

definition as_obj :: "ArcGC \<Rightarrow> ArcValue \<Rightarrow> ArcObject option" where
  "as_obj g v = (case v of VAL_OBJ a \<Rightarrow> heap_get g a | _ \<Rightarrow> None)"

definition as_string :: "ArcGC \<Rightarrow> ArcValue \<Rightarrow> string option" where
  "as_string g v = (case as_obj g v of Some (ObjString s) \<Rightarrow> Some s | _ \<Rightarrow> None)"

definition as_closure :: "ArcGC \<Rightarrow> ArcValue \<Rightarrow> (u16 \<times> nat option list) option" where
  "as_closure g v = (case as_obj g v of Some (ObjClosure f us) \<Rightarrow> Some (f, us) | _ \<Rightarrow> None)"

section \<open>Two's complement arithmetic of C\<close>

text \<open>Signed 64-bit arithmetic is defined when the result is representable.\<close>

definition i64_result :: "int \<Rightarrow> i64 vmM" where
  "i64_result r = (if - (2 ^ 63) \<le> r \<and> r < 2 ^ 63 then vret (of_int r) else vundef)"

text \<open>\<^verbatim>\<open>(uint32_t)((int32_t)vm->ip + offset)\<close>\<close>

definition ip_plus :: "u32 \<Rightarrow> u32 \<Rightarrow> u32 vmM" where
  "ip_plus i off =
     (let r = sint i + sint off in if - (2 ^ 31) \<le> r \<and> r < 2 ^ 31 then vret (of_int r) else vundef)"

section \<open>Decimal input\<close>

definition is_space :: "char \<Rightarrow> bool" where
  "is_space c \<longleftrightarrow> c \<in> {CHR '' '', CHR 0x09, CHR 0x0A, CHR 0x0B, CHR 0x0C, CHR 0x0D}"

definition digit_value :: "char \<Rightarrow> nat option" where
  "digit_value c = (let n = of_char c in if 48 \<le> n \<and> n \<le> (57 :: nat) then Some (n - 48) else None)"

fun dec_value :: "nat \<Rightarrow> string \<Rightarrow> nat \<times> string" where
  "dec_value acc [] = (acc, [])"
| "dec_value acc (c # cs) = (case digit_value c of Some d \<Rightarrow> dec_value (acc * 10 + d) cs | None \<Rightarrow> (acc, c # cs))"

text \<open>\<^verbatim>\<open>strtoll(s, &end, 10)\<close> followed by the check that the whole string was consumed: white space, a
  sign, at least one digit; the value saturates.\<close>

definition strtoll_whole :: "string \<Rightarrow> i64 option" where
  "strtoll_whole s =
     (let t = dropWhile is_space (c_str s);
          (neg, u) = (case t of c # cs \<Rightarrow> if c = CHR ''-'' then (True, cs) else if c = CHR ''+'' then (False, cs) else (False, t)
                      | [] \<Rightarrow> (False, t));
          (n, rest) = dec_value 0 u
      in if length rest = length u \<or> rest \<noteq> [] then None
         else Some (of_int (if neg then max (- (2 ^ 63)) (- int n) else min (2 ^ 63 - 1) (int n))))"

end
