(* ===== verification/VM_Core.thy ===== *)
theory VM_Core
  imports VM_State
begin

text \<open>
  The opcode handlers of \<^verbatim>\<open>src/vm/vm.c\<close>: constants, stack, locals and globals, branches, calls and
  returns, exceptions and casts.
\<close>

section \<open>Constants, stack, locals, globals\<close>

definition vm_const_to_val :: "ArcConstant \<Rightarrow> ArcValue vmM" where
  "vm_const_to_val c =
     (case c of
        ARC_CONST_NULL \<Rightarrow> vret VAL_NULL
      | ARC_CONST_BOOL b \<Rightarrow> vret (VAL_BOOL b)
      | ARC_CONST_I64 i \<Rightarrow> vret (VAL_I64 i)
      | ARC_CONST_F64 d \<Rightarrow> vret (VAL_F64 d)
      | ARC_CONST_STRING s \<Rightarrow> vbind (heap_new (\<lambda>g. arc_obj_string_new g s)) (\<lambda>a. vret (VAL_OBJ a)))"

text \<open>\<^verbatim>\<open>while (global_count <= idx && global_count < ARC_GLOBALS_MAX) globals[global_count++] = null;\<close>\<close>

definition fill_globals :: "u16 \<Rightarrow> ArcVm \<Rightarrow> ArcVm" where
  "fill_globals idx vm =
     (let n = unat (global_count vm); m = min (unat idx + 1) ARC_GLOBALS_MAX
      in if n < m then vm\<lparr>globals := take n (globals vm) @ replicate (m - n) VAL_NULL @ drop m (globals vm),
                          global_count := of_nat m\<rparr>
         else vm)"

definition vm_exec_stack_local_global :: "ArcBytecodeImage \<Rightarrow> ArcOpcode \<Rightarrow> unit vmM" where
  "vm_exec_stack_local_global img op =
     (if op = OP_CONST then
        vbind (vm_read_u16 img) (\<lambda>idx.
          if length (items (img_constants img)) \<le> unat idx
          then vm_error (''invalid constant index '' @ dec_digits (unat idx))
          else vbind (vm_const_to_val (items (img_constants img) ! unat idx)) vm_push)
      else if op = OP_POP then vbind vm_pop (\<lambda>_. vret ())
      else if op = OP_DUP then
        vbind cur (\<lambda>vm. if sp vm = 0 then vm_error ''dup: empty stack''
          else vbind (stack_at (sp vm - 1)) vm_push)
      else if op = OP_LOAD_LOCAL then
        vbind (vm_read_u16 img) (\<lambda>slot. vbind top_frame (\<lambda>fr.
          vbind (stack_at (base_slot fr + ucast slot)) vm_push))
      else if op = OP_STORE_LOCAL then
        vbind (vm_read_u16 img) (\<lambda>slot. vbind vm_pop (\<lambda>v. vbind top_frame (\<lambda>fr.
          stack_put (base_slot fr + ucast slot) v)))
      else if op = OP_LOAD_GLOBAL then
        vbind (vm_read_u16 img) (\<lambda>idx. vbind cur (\<lambda>vm.
          vbind (if global_count vm \<le> idx then setcur (fill_globals idx vm) else vret ()) (\<lambda>_.
          if ARC_GLOBALS_MAX \<le> unat idx
          then vm_error (''global index '' @ dec_digits (unat idx) @ '' out of bounds'')
          else vbind cur (\<lambda>vm. vm_push (globals vm ! unat idx)))))
      else if op = OP_STORE_GLOBAL then
        vbind (vm_read_u16 img) (\<lambda>idx. vbind vm_pop (\<lambda>v.
          if ARC_GLOBALS_MAX \<le> unat idx
          then vm_error (''global index '' @ dec_digits (unat idx) @ '' out of bounds'')
          else modcur (\<lambda>vm. vm\<lparr>globals := (globals vm)[unat idx := v],
                 global_count := (if global_count vm \<le> idx then idx + 1 else global_count vm)\<rparr>)))
      else vm_error ''bad stack/local/global op'')"

section \<open>Branches\<close>

definition vm_jump :: "u32 \<Rightarrow> unit vmM" where
  "vm_jump off = vbind cur (\<lambda>vm. vbind (ip_plus (ip vm) off) (\<lambda>i. setcur (vm\<lparr>ip := i\<rparr>)))"

definition vm_exec_branch :: "ArcBytecodeImage \<Rightarrow> ArcOpcode \<Rightarrow> unit vmM" where
  "vm_exec_branch img op =
     vbind (vm_read_i32 img) (\<lambda>off.
       if op = OP_JUMP then vm_jump off
       else if op = OP_JUMP_IF_FALSE then
         vbind vm_pop (\<lambda>c. if \<not> arc_val_is_truthy c then vm_jump off else vret ())
       else if op = OP_JUMP_IF_TRUE then
         vbind vm_pop (\<lambda>c. if arc_val_is_truthy c then vm_jump off else vret ())
       else vm_error ''bad branch op'')"

section \<open>Calls and returns\<close>

text \<open>\<^verbatim>\<open>for (i = argc; i < local_count; i++) if (!vm_push(vm, null)) return ARC_ERR_RUNTIME;\<close>\<close>

fun push_nulls :: "nat \<Rightarrow> unit vmM" where
  "push_nulls 0 = vret ()"
| "push_nulls (Suc n) = vbind (vm_push VAL_NULL) (\<lambda>_. push_nulls n)"

text \<open>With the function index \<^verbatim>\<open>0xFFFF\<close> the callee is the closure below the arguments.\<close>

definition resolve_callee :: "u16 \<Rightarrow> u8 \<Rightarrow> u16 vmM" where
  "resolve_callee func_idx argc =
     vbind cur (\<lambda>vm.
       if func_idx = 0xFFFF \<and> unat argc < unat (sp vm)
       then vbind (stack_at (sp vm - ucast argc - 1)) (\<lambda>v. vbind heap (\<lambda>g.
              vret (case as_closure g v of Some (f, _) \<Rightarrow> f | None \<Rightarrow> func_idx)))
       else vret func_idx)"

definition vm_exec_call :: "ArcBytecodeImage \<Rightarrow> unit vmM" where
  "vm_exec_call img =
     vbind (vm_read_u16 img) (\<lambda>fi0. vbind (vm_read_byte img) (\<lambda>argc. vbind (vm_read_byte img) (\<lambda>_.
     vbind (resolve_callee fi0 argc) (\<lambda>fi. vbind cur (\<lambda>vm.
       if length (items (img_functions img)) \<le> unat fi
       then vm_error (''invalid function index '' @ dec_digits (unat fi))
       else if ARC_FRAMES_MAX \<le> unat (fp vm) then vm_error ''call stack overflow''
       else let callee = items (img_functions img) ! unat fi in
         if argc \<noteq> arity callee
         then vm_error (''arity mismatch: expected '' @ dec_digits (unat (arity callee)) @ '', got '' @ dec_digits (unat argc))
         else
           vbind (setcur (vm\<lparr>frames := (frames vm)[unat (fp vm) :=
                \<lparr>fr_func_idx = fi, return_ip = ip vm, base_slot = sp vm - ucast argc\<rparr>], fp := fp vm + 1\<rparr>)) (\<lambda>_.
           vbind (push_nulls (unat (local_count callee) - unat argc)) (\<lambda>_.
             modcur (\<lambda>vm. vm\<lparr>ip := code_offset callee\<rparr>))))))))"

text \<open>Closing an upvalue copies the value out of the slot. The comparison of pointers into two
  different arrays is undefined, so the chain may only hold upvalues of this machine's stack; forming
  \<^verbatim>\<open>&vm->stack[base]\<close> is defined up to one past the array.\<close>

fun close_upvalues :: "nat option \<Rightarrow> nat \<Rightarrow> nat list \<Rightarrow> nat list vmM" where
  "close_upvalues i lo [] = vret []"
| "close_upvalues i lo (u # us) =
     vbind (obj_at u) (\<lambda>ob.
       case ob of
         ObjUpvalue (AtSlot j slot) c \<Rightarrow>
           if j \<noteq> i then vundef
           else if lo \<le> slot then
             vbind (vm_of i) (\<lambda>vm.
             vbind (heap_op (\<lambda>g. Ret ((), heap_put g u (ObjUpvalue AtClosed (stack vm ! slot))))) (\<lambda>_.
               close_upvalues i lo us))
           else vbind (close_upvalues i lo us) (\<lambda>us'. vret (u # us'))
       | _ \<Rightarrow> vundef)"

definition close_from :: "u32 \<Rightarrow> unit vmM" where
  "close_from lo =
     vbind (vguard (unat lo \<le> ARC_STACK_MAX)) (\<lambda>_. vbind me (\<lambda>i. vbind cur (\<lambda>vm.
     vbind (close_upvalues i (unat lo) (open_upvalues vm)) (\<lambda>us.
       modcur (\<lambda>vm. vm\<lparr>open_upvalues := us\<rparr>)))))"

text \<open>The read of \<^verbatim>\<open>vm->frames[vm->fp - 1]\<close> is out of bounds for a machine without frames, so \<^verbatim>\<open>fp\<close> is not
  zero when it is decremented; the second guard repeats this.\<close>

definition vm_exec_return :: "unit vmM" where
  "vm_exec_return =
     vbind vm_pop (\<lambda>result. vbind top_frame (\<lambda>fr.
     vbind (close_from (base_slot fr)) (\<lambda>_.
     vbind cur (\<lambda>vm. vbind (vguard (fp vm \<noteq> 0)) (\<lambda>_.
       if fp vm - 1 = 0
       then vbind (setcur (vm\<lparr>fp := 0, sp := 0\<rparr>)) (\<lambda>_. vbind (vm_push result) (\<lambda>_.
              modcur (\<lambda>vm. vm\<lparr>halted := True\<rparr>)))
       else vbind (setcur (vm\<lparr>fp := fp vm - 1, sp := base_slot fr, ip := return_ip fr\<rparr>)) (\<lambda>_.
              vm_push result))))))"

section \<open>Exceptions\<close>

definition vm_exec_exception :: "ArcBytecodeImage \<Rightarrow> ArcOpcode \<Rightarrow> unit vmM" where
  "vm_exec_exception img op =
     (if op = OP_TRY_BEGIN then
        vbind (vm_read_i32 img) (\<lambda>off. vbind cur (\<lambda>vm.
          if ARC_HANDLER_MAX \<le> unat (handler_count vm) then vm_error ''handler stack overflow''
          else vbind (ip_plus (ip vm) off) (\<lambda>target.
            setcur (vm\<lparr>handlers := (handlers vm)[unat (handler_count vm) :=
                \<lparr>catch_ip = target, stack_height = sp vm, frame_depth = fp vm\<rparr>],
              handler_count := handler_count vm + 1\<rparr>))))
      else if op = OP_TRY_END then
        vbind cur (\<lambda>vm. if handler_count vm = 0 then vm_error ''try_end: no handler to pop''
          else setcur (vm\<lparr>handler_count := handler_count vm - 1\<rparr>))
      else if op = OP_THROW then
        vbind vm_pop (\<lambda>thrown. vbind cur (\<lambda>vm.
          if handler_count vm = 0 then vm_error ''unhandled exception''
          else vbind (vguard (unat (handler_count vm) \<le> ARC_HANDLER_MAX)) (\<lambda>_.
            let h = handlers vm ! unat (handler_count vm - 1) in
            vbind (setcur (vm\<lparr>handler_count := handler_count vm - 1, fp := frame_depth h,
              sp := stack_height h, ip := catch_ip h\<rparr>)) (\<lambda>_. vm_push thrown))))
      else vm_error ''bad exception op'')"

section \<open>Casts\<close>

definition vm_exec_cast_i64 :: "unit vmM" where
  "vm_exec_cast_i64 =
     vbind vm_pop (\<lambda>v. vbind heap (\<lambda>g.
       case v of
         VAL_I64 i \<Rightarrow> vm_push v
       | VAL_F64 d \<Rightarrow> (case f64_to_i64 d of Some i \<Rightarrow> vm_push (VAL_I64 i) | None \<Rightarrow> vundef)
       | VAL_BOOL b \<Rightarrow> vm_push (VAL_I64 (if b then 1 else 0))
       | VAL_NULL \<Rightarrow> vm_push (VAL_I64 0)
       | VAL_OBJ a \<Rightarrow>
           (case as_string g v of
              Some s \<Rightarrow> (case strtoll_whole s of Some r \<Rightarrow> vm_push (VAL_I64 r) | None \<Rightarrow> vm_error ''cast_i64: invalid string'')
            | None \<Rightarrow> vm_error ''cast_i64: unsupported type'')))"

definition vm_exec_cast_f64 :: "libc \<Rightarrow> unit vmM" where
  "vm_exec_cast_f64 lc =
     vbind vm_pop (\<lambda>v. vbind heap (\<lambda>g.
       case v of
         VAL_F64 d \<Rightarrow> vm_push v
       | VAL_I64 i \<Rightarrow> vm_push (VAL_F64 (f64_of_i64 i))
       | VAL_BOOL b \<Rightarrow> vm_push (VAL_F64 (if b then f64_of_i64 1 else 0))
       | VAL_NULL \<Rightarrow> vm_push (VAL_F64 0)
       | VAL_OBJ a \<Rightarrow>
           (case as_string g v of
              Some s \<Rightarrow>
                let (r, n) = strtod lc (c_str s) in
                if n = 0 \<or> n \<noteq> length (c_str s) then vm_error ''cast_f64: invalid string'' else vm_push (VAL_F64 r)
            | None \<Rightarrow> vm_error ''cast_f64: unsupported type'')))"

text \<open>The text of a value, shared by \<^verbatim>\<open>vm_exec_cast_str\<close> and \<^verbatim>\<open>vm_intr_tostring\<close>; a string is itself.\<close>

definition vm_exec_cast_str :: "libc \<Rightarrow> unit vmM" where
  "vm_exec_cast_str lc =
     vbind vm_pop (\<lambda>v. vbind heap (\<lambda>g.
       let push_str = (\<lambda>s. push_new (\<lambda>g. arc_obj_string_new g s)) in
       case v of
         VAL_NULL \<Rightarrow> push_str ''null''
       | VAL_BOOL b \<Rightarrow> push_str (if b then ''true'' else ''false'')
       | VAL_I64 i \<Rightarrow> push_str (dec_int (sint i))
       | VAL_F64 d \<Rightarrow> push_str (fmt_g lc d)
       | VAL_OBJ a \<Rightarrow>
           (case as_string g v of
              Some s \<Rightarrow> vm_push v
            | None \<Rightarrow> vbind (obj_at a) (\<lambda>ob. push_str (''<'' @ arc_obj_type_name (obj_type ob) @ ''>'')))))"

definition vm_exec_cast :: "libc \<Rightarrow> ArcOpcode \<Rightarrow> unit vmM" where
  "vm_exec_cast lc op =
     (if op = OP_CAST_I64 then vm_exec_cast_i64
      else if op = OP_CAST_F64 then vm_exec_cast_f64 lc
      else if op = OP_CAST_STR then vm_exec_cast_str lc
      else vm_error ''bad cast op'')"

section \<open>Start-up\<close>

definition arc_vm_init :: "world \<Rightarrow> world" where
  "arc_vm_init w = w\<lparr>main_vm := zero_vm, gc := arc_gc_create\<rparr>"

definition arc_vm_destroy :: "world \<Rightarrow> world" where
  "arc_vm_destroy w = w\<lparr>gc := arc_gc_free_all (gc w), main_vm := (main_vm w)\<lparr>open_upvalues := []\<rparr>\<rparr>"

definition vm_setup_main :: "ArcBytecodeImage \<Rightarrow> unit vmM" where
  "vm_setup_main img =
     (if items (img_functions img) = [] then vm_error ''no functions''
      else vbind cur (\<lambda>vm. vbind (vlift (entry_vm vm 0 (hd (items (img_functions img))) [])) setcur))"

definition arc_vm_result :: "ArcVm \<Rightarrow> ArcValue outcome" where
  "arc_vm_result vm =
     (if sp vm = 0 then Ret VAL_NULL
      else if unat (sp vm - 1) < ARC_STACK_MAX then Ret (stack vm ! unat (sp vm - 1)) else Undef)"

end
