(* ===== verification/VM_Ops.thy ===== *)
theory VM_Ops
  imports VM_Core
begin

text \<open>
  The opcode handlers of \<^verbatim>\<open>src/vm/vm_ops.c\<close>: arithmetic, comparison, strings, bit operations,
  collections, closures and intrinsics. Signed overflow of \<^verbatim>\<open>+\<close>, \<^verbatim>\<open>-\<close>, \<^verbatim>\<open>*\<close> and negation and the
  quotient of the smallest integer by minus one are undefined in C and here; the left shift is two's
  complement, as GCC and Clang define it.
\<close>

section \<open>Arithmetic\<close>

text \<open>\<^verbatim>\<open>if (!vm_pop(vm, &b) || !vm_pop(vm, &a)) return ARC_ERR_RUNTIME;\<close>\<close>

definition pop2 :: "(ArcValue \<Rightarrow> ArcValue \<Rightarrow> 'a vmM) \<Rightarrow> 'a vmM" where
  "pop2 k = vbind vm_pop (\<lambda>b. vbind vm_pop (\<lambda>a. k a b))"

text \<open>The two numeric branches shared by the binary operators, and what else the operator accepts.\<close>

definition push_i64 :: "int \<Rightarrow> unit vmM" where
  "push_i64 r = vbind (i64_result r) (\<lambda>i. vm_push (VAL_I64 i))"

definition arith2 :: "(int \<Rightarrow> int \<Rightarrow> int) \<Rightarrow> (f64 \<Rightarrow> f64 \<Rightarrow> f64) \<Rightarrow> unit vmM \<Rightarrow> ArcValue \<Rightarrow> ArcValue \<Rightarrow> unit vmM" where
  "arith2 fi ff other a b =
     (case (a, b) of
        (VAL_I64 x, VAL_I64 y) \<Rightarrow> push_i64 (fi (sint x) (sint y))
      | (VAL_F64 x, VAL_F64 y) \<Rightarrow> vm_push (VAL_F64 (ff x y))
      | _ \<Rightarrow> other)"

definition vm_add :: "ArcValue \<Rightarrow> ArcValue \<Rightarrow> unit vmM" where
  "vm_add a b =
     arith2 (+) f64_add
       (vbind heap (\<lambda>g.
          case (as_string g a, as_string g b) of
            (Some s, Some t) \<Rightarrow> vbind (heap_op (\<lambda>g. arc_obj_string_concat g s t)) (\<lambda>r. vm_push (VAL_OBJ r))
          | _ \<Rightarrow> vm_error ''add: type mismatch'')) a b"

definition vm_div :: "ArcValue \<Rightarrow> ArcValue \<Rightarrow> unit vmM" where
  "vm_div a b =
     (case (a, b) of
        (VAL_I64 x, VAL_I64 y) \<Rightarrow>
          if y = 0 then vm_error ''division by zero'' else push_i64 (sint x sdiv sint y)
      | (VAL_F64 x, VAL_F64 y) \<Rightarrow> vm_push (VAL_F64 (f64_div x y))
      | _ \<Rightarrow> vm_error ''div: type mismatch'')"

text \<open>The remainder is undefined when the quotient is not representable.\<close>

definition vm_mod :: "ArcValue \<Rightarrow> ArcValue \<Rightarrow> unit vmM" where
  "vm_mod a b =
     (case (a, b) of
        (VAL_I64 x, VAL_I64 y) \<Rightarrow>
          if y = 0 then vm_error ''modulo by zero''
          else vbind (i64_result (sint x sdiv sint y)) (\<lambda>_. push_i64 (sint x smod sint y))
      | _ \<Rightarrow> vm_error ''mod: requires integers'')"

definition vm_neg :: "ArcValue \<Rightarrow> unit vmM" where
  "vm_neg v =
     (case v of
        VAL_I64 i \<Rightarrow> push_i64 (- sint i)
      | VAL_F64 d \<Rightarrow> vm_push (VAL_F64 (f64_neg d))
      | _ \<Rightarrow> vm_error ''neg: type mismatch'')"

definition vm_exec_arithmetic :: "ArcOpcode \<Rightarrow> unit vmM" where
  "vm_exec_arithmetic op =
     (if op = OP_ADD then pop2 vm_add
      else if op = OP_SUB then pop2 (arith2 (-) f64_sub (vm_error ''sub: type mismatch''))
      else if op = OP_MUL then pop2 (arith2 (*) f64_mul (vm_error ''mul: type mismatch''))
      else if op = OP_DIV then pop2 vm_div
      else if op = OP_MOD then pop2 vm_mod
      else if op = OP_NEG then vbind vm_pop vm_neg
      else vm_error ''bad arith op'')"

section \<open>Comparison\<close>

definition order2 :: "(int \<Rightarrow> int \<Rightarrow> bool) \<Rightarrow> (f64 \<Rightarrow> f64 \<Rightarrow> bool) \<Rightarrow> string \<Rightarrow> ArcValue \<Rightarrow> ArcValue \<Rightarrow> unit vmM" where
  "order2 ri rf name a b =
     (case (a, b) of
        (VAL_I64 x, VAL_I64 y) \<Rightarrow> vm_push (VAL_BOOL (ri (sint x) (sint y)))
      | (VAL_F64 x, VAL_F64 y) \<Rightarrow> vm_push (VAL_BOOL (rf x y))
      | _ \<Rightarrow> vm_error (name @ '': type mismatch''))"

definition vm_exec_comparison :: "ArcOpcode \<Rightarrow> unit vmM" where
  "vm_exec_comparison op =
     (if op = OP_EQ then pop2 (\<lambda>a b. vbind heap (\<lambda>g. vm_push (VAL_BOOL (arc_val_equal g a b))))
      else if op = OP_NEQ then pop2 (\<lambda>a b. vbind heap (\<lambda>g. vm_push (VAL_BOOL (\<not> arc_val_equal g a b))))
      else if op = OP_LT then pop2 (order2 (<) f64_lt ''lt'')
      else if op = OP_LE then pop2 (order2 (\<le>) f64_le ''le'')
      else if op = OP_GT then pop2 (order2 (>) (\<lambda>x y. f64_lt y x) ''gt'')
      else if op = OP_GE then pop2 (order2 (\<ge>) (\<lambda>x y. f64_le y x) ''ge'')
      else if op = OP_NOT then vbind vm_pop (\<lambda>v. vm_push (VAL_BOOL (\<not> arc_val_is_truthy v)))
      else vm_error ''bad cmp op'')"

section \<open>Strings\<close>

definition vm_str_slice :: "ArcValue \<Rightarrow> ArcValue \<Rightarrow> ArcValue \<Rightarrow> unit vmM" where
  "vm_str_slice vstr vstart vend =
     vbind heap (\<lambda>g.
       case (as_string g vstr, vstart, vend) of
         (Some s, VAL_I64 st0, VAL_I64 en0) \<Rightarrow>
           let st = max 0 (sint st0); en = min (int (length s)) (sint en0) in
           push_new (\<lambda>g. arc_obj_string_new g
             (if en \<le> st then [] else take (nat (en - st)) (drop (nat st) s)))
       | _ \<Rightarrow> vm_error ''str_slice: type mismatch'')"

definition vm_exec_string_ops :: "ArcOpcode \<Rightarrow> unit vmM" where
  "vm_exec_string_ops op =
     (if op = OP_STR_LEN then
        vbind vm_pop (\<lambda>v. vbind heap (\<lambda>g.
          case as_string g v of
            Some s \<Rightarrow> vm_push (VAL_I64 (of_nat (length s)))
          | None \<Rightarrow> vm_error ''str_len: not a string''))
      else if op = OP_STR_SLICE then
        vbind vm_pop (\<lambda>vend. vbind vm_pop (\<lambda>vstart. vbind vm_pop (\<lambda>vstr. vm_str_slice vstr vstart vend)))
      else if op = OP_STR_INDEX then
        pop2 (\<lambda>vstr vidx. vbind heap (\<lambda>g.
          case (as_string g vstr, vidx) of
            (Some s, VAL_I64 i) \<Rightarrow>
              if sint i < 0 \<or> int (length s) \<le> sint i
              then vm_error (''str_index: index '' @ dec_int (sint i) @ '' out of bounds (len='' @ dec_digits (length s) @ '')'')
              else push_new (\<lambda>g. arc_obj_string_new g [s ! nat (sint i)])
          | _ \<Rightarrow> vm_error ''str_index: type mismatch''))
      else vm_error ''bad string op'')"

section \<open>Bit operations\<close>

definition bit2 :: "(i64 \<Rightarrow> i64 \<Rightarrow> i64) \<Rightarrow> string \<Rightarrow> ArcValue \<Rightarrow> ArcValue \<Rightarrow> unit vmM" where
  "bit2 f name a b =
     (case (a, b) of
        (VAL_I64 x, VAL_I64 y) \<Rightarrow> vm_push (VAL_I64 (f x y))
      | _ \<Rightarrow> vm_error (name @ '': requires integers''))"

definition vm_exec_bitwise :: "ArcOpcode \<Rightarrow> unit vmM" where
  "vm_exec_bitwise op =
     (if op = OP_BIT_AND then pop2 (bit2 (AND) ''bit_and'')
      else if op = OP_BIT_OR then pop2 (bit2 (OR) ''bit_or'')
      else if op = OP_BIT_XOR then pop2 (bit2 (XOR) ''bit_xor'')
      else if op = OP_BIT_NOT then
        vbind vm_pop (\<lambda>v. case v of VAL_I64 i \<Rightarrow> vm_push (VAL_I64 (NOT i)) | _ \<Rightarrow> vm_error ''bit_not: requires integer'')
      else if op = OP_SHL then pop2 (bit2 (\<lambda>x y. push_bit (unat (y AND 63)) x) ''shl'')
      else if op = OP_SHR then pop2 (bit2 (\<lambda>x y. drop_bit (unat (y AND 63)) x) ''shr'')
      else vm_error ''bad bit op'')"

section \<open>Collections\<close>

fun pop_into_array :: "nat \<Rightarrow> nat \<Rightarrow> unit vmM" where
  "pop_into_array a 0 = vret ()"
| "pop_into_array a (Suc n) =
     vbind vm_pop (\<lambda>v. vbind (heap_op (\<lambda>g. andthen (arc_obj_array_push g a v) (\<lambda>g. Ret ((), g)))) (\<lambda>_.
       pop_into_array a n))"

text \<open>\<^verbatim>\<open>for (i = 0, j = count - 1; i < j; i++, j--)\<close> exchanging the items \<open>i\<close> and \<open>j\<close>.\<close>

function swap_loop :: "'a list \<Rightarrow> nat \<Rightarrow> nat \<Rightarrow> 'a list" where
  "swap_loop xs i j = (if i < j then swap_loop (xs[i := xs ! j, j := xs ! i]) (Suc i) (j - 1) else xs)"
  by pat_completeness auto

termination
  by (relation "measure (\<lambda>(xs, i, j). j - i)") auto

declare swap_loop.simps [simp del]

definition reverse_array :: "nat \<Rightarrow> unit vmM" where
  "reverse_array a =
     vbind (obj_at a) (\<lambda>ob.
       case ob of
         ObjArray xs c \<Rightarrow> heap_op (\<lambda>g. Ret ((), heap_put g a (ObjArray (swap_loop xs 0 (length xs - 1)) c)))
       | _ \<Rightarrow> vundef)"

definition vm_exec_array_new :: "ArcBytecodeImage \<Rightarrow> unit vmM" where
  "vm_exec_array_new img =
     vbind (vm_read_u16 img) (\<lambda>count.
     vbind (heap_new (\<lambda>g. arc_obj_array_new g (if 0 < count then uint count else 8))) (\<lambda>a.
     vbind (pop_into_array a (unat count)) (\<lambda>_.
     vbind (reverse_array a) (\<lambda>_. vm_push (VAL_OBJ a)))))"

definition vm_exec_index_get :: "unit vmM" where
  "vm_exec_index_get =
     pop2 (\<lambda>container key. vbind heap (\<lambda>g.
       case as_obj g container of
         Some (ObjArray xs _) \<Rightarrow>
           (case key of
              VAL_I64 i \<Rightarrow>
                if sint i < 0 \<or> int (length xs) \<le> sint i then vm_error ''index_get: index out of bounds''
                else vm_push (xs ! nat (sint i))
            | _ \<Rightarrow> vm_error ''index_get: array index must be integer'')
       | Some (ObjMap kvs _) \<Rightarrow>
           vm_push (case al_find (arc_val_equal g) kvs key of Some v \<Rightarrow> v | None \<Rightarrow> VAL_NULL)
       | Some (ObjString s) \<Rightarrow>
           (case key of
              VAL_I64 i \<Rightarrow>
                if sint i < 0 \<or> int (length s) \<le> sint i then vm_error ''index_get: string index out of bounds''
                else push_new (\<lambda>g. arc_obj_string_new g [s ! nat (sint i)])
            | _ \<Rightarrow> vm_error ''index_get: string index must be integer'')
       | _ \<Rightarrow> vm_error ''index_get: not indexable''))"

definition vm_index_store :: "ArcValue \<Rightarrow> ArcValue \<Rightarrow> ArcValue \<Rightarrow> unit vmM" where
  "vm_index_store container key v =
     vbind heap (\<lambda>g.
       case (as_obj g container, container) of
         (Some (ObjArray xs c), VAL_OBJ a) \<Rightarrow>
           (case key of
              VAL_I64 i \<Rightarrow>
                if sint i < 0 \<or> int (length xs) \<le> sint i then vm_error ''index_set: index out of bounds''
                else heap_op (\<lambda>g. Ret ((), heap_put g a (ObjArray (xs[nat (sint i) := v]) c)))
            | _ \<Rightarrow> vm_error ''index_set: array index must be integer'')
       | (Some (ObjMap _ _), VAL_OBJ a) \<Rightarrow>
           heap_op (\<lambda>g. andthen (arc_obj_map_set g a key v) (\<lambda>(_, g). Ret ((), g)))
       | _ \<Rightarrow> vm_error ''index_set: not indexable'')"

definition vm_exec_index_set :: "unit vmM" where
  "vm_exec_index_set =
     vbind vm_pop (\<lambda>v. vbind vm_pop (\<lambda>key. vbind vm_pop (\<lambda>container. vm_index_store container key v)))"

definition push_length :: "string \<Rightarrow> unit vmM" where
  "push_length name =
     vbind vm_pop (\<lambda>v. vbind heap (\<lambda>g.
       case as_obj g v of
         Some (ObjString s) \<Rightarrow> vm_push (VAL_I64 (of_nat (length s)))
       | Some (ObjArray xs _) \<Rightarrow> vm_push (VAL_I64 (of_nat (length xs)))
       | Some (ObjMap kvs _) \<Rightarrow> vm_push (VAL_I64 (of_nat (length kvs)))
       | _ \<Rightarrow> vm_error (name @ '': not a container'')))"

definition vm_exec_length :: "unit vmM" where
  "vm_exec_length = push_length ''length''"

fun pop_into_map :: "nat \<Rightarrow> nat \<Rightarrow> unit vmM" where
  "pop_into_map a 0 = vret ()"
| "pop_into_map a (Suc n) =
     vbind vm_pop (\<lambda>v. vbind vm_pop (\<lambda>key.
     vbind (heap_op (\<lambda>g. andthen (arc_obj_map_set g a key v) (\<lambda>(_, g). Ret ((), g)))) (\<lambda>_. pop_into_map a n)))"

definition vm_exec_map_new :: "ArcBytecodeImage \<Rightarrow> unit vmM" where
  "vm_exec_map_new img =
     vbind (vm_read_u16 img) (\<lambda>pair_count.
     vbind (heap_new (\<lambda>g. arc_obj_map_new g (if 0 < pair_count then uint pair_count else 8))) (\<lambda>a.
     vbind (pop_into_map a (unat pair_count)) (\<lambda>_. vm_push (VAL_OBJ a))))"

text \<open>The name of a record type or field: the string constant, or the empty string.\<close>

definition const_name :: "ArcBytecodeImage \<Rightarrow> u16 \<Rightarrow> string" where
  "const_name img idx =
     (if unat idx < length (items (img_constants img))
      then (case items (img_constants img) ! unat idx of ARC_CONST_STRING s \<Rightarrow> c_str s | _ \<Rightarrow> [])
      else [])"

definition vm_exec_record_new :: "ArcBytecodeImage \<Rightarrow> unit vmM" where
  "vm_exec_record_new img =
     vbind (vm_read_u16 img) (\<lambda>idx. push_new (\<lambda>g. arc_obj_record_new g (const_name img idx) 4))"

definition vm_exec_field_get :: "ArcBytecodeImage \<Rightarrow> unit vmM" where
  "vm_exec_field_get img =
     vbind (vm_read_u16 img) (\<lambda>idx. vbind vm_pop (\<lambda>v. vbind heap (\<lambda>g.
       case as_obj g v of
         Some (ObjRecord _ fs _) \<Rightarrow>
           vm_push (case al_find (=) fs (const_name img idx) of Some x \<Rightarrow> x | None \<Rightarrow> VAL_NULL)
       | _ \<Rightarrow> vm_error ''field_get: not a record'')))"

definition vm_exec_field_set :: "ArcBytecodeImage \<Rightarrow> unit vmM" where
  "vm_exec_field_set img =
     vbind (vm_read_u16 img) (\<lambda>idx. pop2 (\<lambda>ob v. vbind heap (\<lambda>g.
       case (as_obj g ob, ob) of
         (Some (ObjRecord _ _ _), VAL_OBJ a) \<Rightarrow>
           vbind (heap_op (\<lambda>g. andthen (arc_obj_record_set g a (const_name img idx) v) (\<lambda>(_, g). Ret ((), g)))) (\<lambda>_.
             vm_push ob)
       | _ \<Rightarrow> vm_error ''field_set: not a record'')))"

definition vm_exec_collections :: "ArcBytecodeImage \<Rightarrow> ArcOpcode \<Rightarrow> unit vmM" where
  "vm_exec_collections img op =
     (if op = OP_ARRAY_NEW then vm_exec_array_new img
      else if op = OP_INDEX_GET then vm_exec_index_get
      else if op = OP_INDEX_SET then vm_exec_index_set
      else if op = OP_LENGTH then vm_exec_length
      else if op = OP_MAP_NEW then vm_exec_map_new img
      else if op = OP_RECORD_NEW then vm_exec_record_new img
      else if op = OP_FIELD_GET then vm_exec_field_get img
      else if op = OP_FIELD_SET then vm_exec_field_set img
      else vm_error ''bad collection op'')"

section \<open>Closures\<close>

text \<open>The closure whose code the innermost frame runs: the value below the frame's arguments.\<close>

definition frame_closure :: "(u16 \<times> nat option list) option vmM" where
  "frame_closure =
     vbind top_frame (\<lambda>fr. vbind (stack_at (if 0 < base_slot fr then base_slot fr - 1 else 0)) (\<lambda>v.
     vbind heap (\<lambda>g. vret (as_closure g v))))"

text \<open>\<^verbatim>\<open>while (uv && uv->location != slot) uv = uv->next;\<close>\<close>

fun find_open :: "ArcGC \<Rightarrow> nat option \<Rightarrow> nat \<Rightarrow> nat list \<Rightarrow> nat option" where
  "find_open g i slot [] = None"
| "find_open g i slot (u # us) =
     (case heap_get g u of
        Some (ObjUpvalue loc _) \<Rightarrow> if loc = AtSlot i slot then Some u else find_open g i slot us
      | _ \<Rightarrow> find_open g i slot us)"

definition capture :: "ArcUpvalueDesc \<Rightarrow> nat option vmM" where
  "capture desc =
     (if is_local desc then
        vbind top_frame (\<lambda>fr.
        let slot = base_slot fr + ucast (uv_index desc) in
        vbind (vguard (unat slot < ARC_STACK_MAX)) (\<lambda>_.
        vbind me (\<lambda>i. vbind cur (\<lambda>vm. vbind heap (\<lambda>g.
          case find_open g i (unat slot) (open_upvalues vm) of
            Some u \<Rightarrow> vret (Some u)
          | None \<Rightarrow>
              vbind (heap_new (\<lambda>g. arc_obj_upvalue_new g i (unat slot))) (\<lambda>u.
              vbind (modcur (\<lambda>vm. vm\<lparr>open_upvalues := u # open_upvalues vm\<rparr>)) (\<lambda>_. vret (Some u))))))))
      else
        vbind frame_closure (\<lambda>cl.
          vret (case cl of
                  Some (_, us) \<Rightarrow> if unat (uv_index desc) < length us then us ! unat (uv_index desc) else None
                | None \<Rightarrow> None)))"

fun capture_all :: "nat \<Rightarrow> nat \<Rightarrow> ArcUpvalueDesc list \<Rightarrow> unit vmM" where
  "capture_all a k [] = vret ()"
| "capture_all a k (d # ds) =
     vbind (capture d) (\<lambda>u.
     vbind (obj_at a) (\<lambda>ob.
       case ob of
         ObjClosure f us \<Rightarrow>
           vbind (heap_op (\<lambda>g. Ret ((), heap_put g a (ObjClosure f (us[k := u]))))) (\<lambda>_. capture_all a (Suc k) ds)
       | _ \<Rightarrow> vundef))"

definition vm_exec_closure_new :: "ArcBytecodeImage \<Rightarrow> unit vmM" where
  "vm_exec_closure_new img =
     vbind (vm_read_u16 img) (\<lambda>fi.
       if length (items (img_functions img)) \<le> unat fi
       then vm_error (''closure: invalid function index '' @ dec_digits (unat fi))
       else let fn = items (img_functions img) ! unat fi in
         vbind (heap_new (\<lambda>g. arc_obj_closure_new g fi (length (upvalues fn)))) (\<lambda>a.
         vbind (capture_all a 0 (upvalues fn)) (\<lambda>_. vm_push (VAL_OBJ a))))"

text \<open>The upvalue with index \<open>idx\<close> of the running closure; \<open>name\<close> is the operation, for the messages.\<close>

definition frame_upvalue :: "string \<Rightarrow> u16 \<Rightarrow> nat vmM" where
  "frame_upvalue name idx =
     vbind frame_closure (\<lambda>cl.
       case cl of
         None \<Rightarrow> vm_error (name @ '': not in a closure'')
       | Some (_, us) \<Rightarrow>
           if length us \<le> unat idx then vm_error (name @ '': invalid index '' @ dec_digits (unat idx))
           else (case us ! unat idx of
                   None \<Rightarrow> vm_error (name @ '': invalid index '' @ dec_digits (unat idx))
                 | Some u \<Rightarrow> vret u))"

definition upvalue_load :: "nat \<Rightarrow> ArcValue vmM" where
  "upvalue_load u =
     vbind (obj_at u) (\<lambda>ob.
       case ob of
         ObjUpvalue (AtSlot i slot) _ \<Rightarrow> vbind (vm_of i) (\<lambda>vm. vret (stack vm ! slot))
       | ObjUpvalue AtClosed c \<Rightarrow> vret c
       | _ \<Rightarrow> vundef)"

definition upvalue_store :: "nat \<Rightarrow> ArcValue \<Rightarrow> unit vmM" where
  "upvalue_store u v =
     vbind (obj_at u) (\<lambda>ob.
       case ob of
         ObjUpvalue (AtSlot i slot) _ \<Rightarrow> vbind (vm_of i) (\<lambda>vm. set_vm i (vm\<lparr>stack := (stack vm)[slot := v]\<rparr>))
       | ObjUpvalue AtClosed _ \<Rightarrow> heap_op (\<lambda>g. Ret ((), heap_put g u (ObjUpvalue AtClosed v)))
       | _ \<Rightarrow> vundef)"

definition vm_exec_get_upval :: "ArcBytecodeImage \<Rightarrow> unit vmM" where
  "vm_exec_get_upval img =
     vbind (vm_read_u16 img) (\<lambda>idx. vbind (frame_upvalue ''get_upvalue'' idx) (\<lambda>u. vbind (upvalue_load u) vm_push))"

definition vm_exec_set_upval :: "ArcBytecodeImage \<Rightarrow> unit vmM" where
  "vm_exec_set_upval img =
     vbind (vm_read_u16 img) (\<lambda>idx. vbind vm_pop (\<lambda>v.
     vbind (frame_upvalue ''set_upvalue'' idx) (\<lambda>u. upvalue_store u v)))"

definition vm_exec_close_upval :: "unit vmM" where
  "vm_exec_close_upval = vbind cur (\<lambda>vm. if sp vm = 0 then vret () else close_from (sp vm - 1))"

definition vm_exec_closure :: "ArcBytecodeImage \<Rightarrow> ArcOpcode \<Rightarrow> unit vmM" where
  "vm_exec_closure img op =
     (if op = OP_CLOSURE then vm_exec_closure_new img
      else if op = OP_GET_UPVAL then vm_exec_get_upval img
      else if op = OP_SET_UPVAL then vm_exec_set_upval img
      else if op = OP_CLOSE_UPVAL then vm_exec_close_upval
      else vm_error ''bad closure op'')"

section \<open>Intrinsics\<close>

text \<open>The loop over the \<open>argc\<close> topmost values; \<open>k\<close> counts from 0.\<close>

fun print_args :: "libc \<Rightarrow> u8 \<Rightarrow> nat \<Rightarrow> nat \<Rightarrow> unit vmM" where
  "print_args lc argc k 0 = vret ()"
| "print_args lc argc k (Suc n) =
     vbind cur (\<lambda>vm. vbind (stack_at (sp vm - ucast argc + of_nat k)) (\<lambda>v. vbind heap (\<lambda>g.
     vbind (vlift (arc_val_print (fmt_g lc) g (stack_depth lc) v)) (\<lambda>s.
     vbind (print_to (out_stream vm) ((if 0 < k then '' '' else []) @ s)) (\<lambda>_.
       print_args lc argc (Suc k) n)))))"

definition vm_intr_print :: "libc \<Rightarrow> u8 \<Rightarrow> unit vmM" where
  "vm_intr_print lc argc =
     vbind (print_args lc argc 0 (unat argc)) (\<lambda>_. vbind cur (\<lambda>vm.
     vbind (print_to (out_stream vm) [CHR 0x0A]) (\<lambda>_. setcur (vm\<lparr>sp := sp vm - ucast argc\<rparr>))))"

definition vm_intr_type :: "unit vmM" where
  "vm_intr_type =
     vbind vm_pop (\<lambda>v.
     vbind (case v of
              VAL_NULL \<Rightarrow> vret ''null''
            | VAL_BOOL _ \<Rightarrow> vret ''bool''
            | VAL_I64 _ \<Rightarrow> vret ''i64''
            | VAL_F64 _ \<Rightarrow> vret ''f64''
            | VAL_OBJ a \<Rightarrow> vbind (obj_at a) (\<lambda>ob. vret (arc_obj_type_name (obj_type ob)))) (\<lambda>tn.
       push_new (\<lambda>g. arc_obj_string_new g tn)))"

definition vm_intr_tostring :: "libc \<Rightarrow> unit vmM" where
  "vm_intr_tostring lc = vm_exec_cast_str lc"

definition vm_intr_len :: "unit vmM" where
  "vm_intr_len = push_length ''len''"

definition vm_intr_push :: "unit vmM" where
  "vm_intr_push =
     vbind cur (\<lambda>vm. vbind (stack_at (sp vm - 1)) (\<lambda>v. vbind (stack_at (sp vm - 2)) (\<lambda>arr.
     vbind (setcur (vm\<lparr>sp := sp vm - 2\<rparr>)) (\<lambda>_. vbind heap (\<lambda>g.
       case (as_obj g arr, arr) of
         (Some (ObjArray _ _), VAL_OBJ a) \<Rightarrow>
           vbind (heap_op (\<lambda>g. andthen (arc_obj_array_push g a v) (\<lambda>g. Ret ((), g)))) (\<lambda>_. vm_push VAL_NULL)
       | _ \<Rightarrow> vm_error ''push: first arg must be array'')))))"

definition vm_intr_keys :: "unit vmM" where
  "vm_intr_keys =
     vbind vm_pop (\<lambda>v. vbind heap (\<lambda>g.
       case as_obj g v of
         Some (ObjMap kvs _) \<Rightarrow>
           vbind (heap_op (\<lambda>g.
             let (a, g) = arc_obj_array_new g (int (length kvs)) in
             andthen (foldl (\<lambda>r k. andthen r (\<lambda>g. arc_obj_array_push g a k)) (Ret g) (map fst kvs)) (\<lambda>g. Ret (a, g))))
             (\<lambda>a. vm_push (VAL_OBJ a))
       | _ \<Rightarrow> vm_error ''keys: not a map''))"

text \<open>\<^verbatim>\<open>fgets\<close> gives the next line of the input, at most 1023 bytes of it, and leaves the rest to the next
  call; the string ends at its first zero byte and loses its newline.\<close>

definition vm_intr_input :: "unit vmM" where
  "vm_intr_input = (\<lambda>w.
     case stdin_lines w of
       [] \<Rightarrow> vm_push VAL_NULL w
     | l # ls \<Rightarrow>
         let t = c_str (take 1023 l); s = (if t \<noteq> [] \<and> last t = CHR 0x0A then butlast t else t)
         in push_new (\<lambda>g. arc_obj_string_new g s)
              (w\<lparr>stdin_lines := (if length l \<le> 1023 then ls else drop 1023 l # ls)\<rparr>))"

definition vm_intr_clock :: "libc \<Rightarrow> unit vmM" where
  "vm_intr_clock lc = (\<lambda>w. vm_push (VAL_F64 (clock_seconds lc (clock_calls w))) (w\<lparr>clock_calls := clock_calls w + 1\<rparr>))"

definition expect_args :: "u8 \<Rightarrow> nat \<Rightarrow> string \<Rightarrow> unit vmM \<Rightarrow> unit vmM" where
  "expect_args argc n name m =
     (if unat argc \<noteq> n then vm_error (name @ '': expects '' @ dec_digits n @ '' argument'' @ (if n = 1 then [] else ''s'')) else m)"

definition vm_exec_intrinsic :: "libc \<Rightarrow> ArcBytecodeImage \<Rightarrow> unit vmM" where
  "vm_exec_intrinsic lc img =
     vbind (vm_read_u16 img) (\<lambda>i. vbind (vm_read_byte img) (\<lambda>argc. vbind (vm_read_byte img) (\<lambda>_.
       case intrinsic_of_id i of
         None \<Rightarrow> vm_error (''unknown intrinsic '' @ dec_digits (unat i))
       | Some ARC_INTRINSIC_PRINT \<Rightarrow> vm_intr_print lc argc
       | Some ARC_INTRINSIC_CLOCK \<Rightarrow> vm_intr_clock lc
       | Some ARC_INTRINSIC_TYPE \<Rightarrow> expect_args argc 1 ''type'' vm_intr_type
       | Some ARC_INTRINSIC_ASSERT \<Rightarrow>
           expect_args argc 1 ''assert'' (vbind vm_pop (\<lambda>v.
             if \<not> arc_val_is_truthy v then vm_error ''assertion failed'' else vm_push VAL_NULL))
       | Some ARC_INTRINSIC_TOSTRING \<Rightarrow> expect_args argc 1 ''tostring'' (vm_intr_tostring lc)
       | Some ARC_INTRINSIC_INPUT \<Rightarrow> vm_intr_input
       | Some ARC_INTRINSIC_LEN \<Rightarrow> expect_args argc 1 ''len'' vm_intr_len
       | Some ARC_INTRINSIC_PUSH \<Rightarrow> expect_args argc 2 ''push'' vm_intr_push
       | Some ARC_INTRINSIC_KEYS \<Rightarrow> expect_args argc 1 ''keys'' vm_intr_keys)))"

section \<open>The exchange loop reverses\<close>

lemma length_swap_loop: "length (swap_loop xs i j) = length xs"
  by (induction xs i j rule: swap_loop.induct) (subst swap_loop.simps, auto)

lemma swap_loop_nth:
  "i + j = length xs - 1 \<Longrightarrow> k < length xs \<Longrightarrow>
    swap_loop xs i j ! k = (if i \<le> k \<and> k \<le> j then xs ! (length xs - 1 - k) else xs ! k)"
proof (induction xs i j rule: swap_loop.induct)
  case (1 xs i j)
  show ?case
  proof (cases "i < j")
    case True
    let ?ys = "xs[i := xs ! j, j := xs ! i]"
    have "swap_loop xs i j ! k = (if Suc i \<le> k \<and> k \<le> j - 1 then ?ys ! (length xs - 1 - k) else ?ys ! k)"
      using "1.IH" [OF True] "1.prems" True by (simp add: swap_loop.simps [of xs i j])
    moreover have "length xs - 1 - i = j" "length xs - 1 - j = i" using "1.prems" by auto
    ultimately show ?thesis
      using "1.prems" True by (auto simp: nth_list_update)
  next
    case False
    then have "i \<le> k \<and> k \<le> j \<longrightarrow> length xs - 1 - k = k" using "1.prems" by auto
    with False show ?thesis by (simp add: swap_loop.simps [of xs i j])
  qed
qed

lemma swap_loop_rev: "swap_loop xs 0 (length xs - 1) = rev xs"
  by (rule nth_equalityI) (auto simp: length_swap_loop swap_loop_nth rev_nth)

end
