(* ===== verification/VM_Conc.thy ===== *)
theory VM_Conc
  imports VM_Ops
begin

text \<open>
  The concurrency handlers of \<^verbatim>\<open>src/vm/vm_concurrency.c\<close>, the dispatch loop of \<^verbatim>\<open>src/vm/vm.c\<close>, and the
  interleaving of OS threads. Resuming a coroutine enters its machine: the C call of \<^verbatim>\<open>arc_vm_continue\<close>
  becomes a push on \<open>ctx\<close>, and the code after the call (\<open>coro_after\<close>) runs when that machine ends or
  yields. Threads interleave at the granularity of instructions; a blocked operation is retried.
\<close>

section \<open>Coroutines\<close>

definition vm_exec_coro_new :: "ArcBytecodeImage \<Rightarrow> unit vmM" where
  "vm_exec_coro_new img =
     vbind (vm_read_u16 img) (\<lambda>fi.
       if length (items (img_functions img)) \<le> unat fi
       then vm_error (''coro_new: invalid function index '' @ dec_digits (unat fi))
       else vbind (heap_op (\<lambda>g. arc_obj_coroutine_new g img fi)) (\<lambda>a. vm_push (VAL_OBJ a)))"

definition set_coro_status :: "nat \<Rightarrow> ArcCoroStatus \<Rightarrow> unit vmM" where
  "set_coro_status a s =
     vbind (obj_at a) (\<lambda>ob.
       case ob of
         ObjCoroutine vm _ \<Rightarrow> heap_op (\<lambda>g. Ret ((), heap_put g a (ObjCoroutine vm s)))
       | _ \<Rightarrow> vundef)"

text \<open>\<^verbatim>\<open>vm_push(coro->vm, send_val)\<close>, whose result is not looked at.\<close>

definition push_on :: "nat option \<Rightarrow> ArcValue \<Rightarrow> unit vmM" where
  "push_on i v =
     vbind (vm_of i) (\<lambda>vm.
       if ARC_STACK_MAX \<le> unat (sp vm) then vm_record_error i ''stack overflow''
       else set_vm i (vm\<lparr>stack := (stack vm)[unat (sp vm) := v], sp := sp vm + 1\<rparr>))"

text \<open>\<^verbatim>\<open>arc_vm_continue\<close> up to its loop.\<close>

definition enter :: "nat option \<Rightarrow> unit vmM" where
  "enter i =
     vbind (vm_of i) (\<lambda>vm. vbind (set_vm i (vm\<lparr>halted := False\<rparr>)) (\<lambda>_ w. VRet () (w\<lparr>ctx := i # ctx w\<rparr>)))"

definition vm_exec_coro_resume :: "unit vmM" where
  "vm_exec_coro_resume =
     pop2 (\<lambda>coro_val send_val. vbind heap (\<lambda>g.
       case (as_obj g coro_val, coro_val) of
         (Some (ObjCoroutine cvm st), VAL_OBJ a) \<Rightarrow>
           if st = CORO_DEAD then vm_error ''coro_resume: coroutine is dead''
           else vbind (if st = CORO_SUSPENDED then push_on (Some a) send_val else vret ()) (\<lambda>_.
                vbind (set_coro_status a CORO_RUNNING) (\<lambda>_. enter (Some a)))
       | _ \<Rightarrow> vm_error ''coro_resume: not a coroutine''))"

text \<open>The rest of \<^verbatim>\<open>vm_exec_coro_resume\<close>, with the status the coroutine's machine came back with.\<close>

definition coro_after :: "nat \<Rightarrow> ArcStatus \<Rightarrow> unit vmM" where
  "coro_after a st =
     vbind (vm_of (Some a)) (\<lambda>cvm.
       if st = ARC_YIELD then vbind (set_coro_status a CORO_SUSPENDED) (\<lambda>_. vm_push (yielded cvm))
       else if st = ARC_OK then
         vbind (set_coro_status a CORO_DEAD) (\<lambda>_. vbind (vlift (arc_vm_result cvm)) vm_push)
       else vbind (set_coro_status a CORO_DEAD) (\<lambda>_.
              vm_error (''coro_resume: coroutine error: '' @ err_message (error cvm))))"

definition vm_exec_coro_yield :: "unit vmM" where
  "vm_exec_coro_yield =
     vbind vm_pop (\<lambda>v. vbind (modcur (\<lambda>vm. vm\<lparr>yielded := v\<rparr>)) (\<lambda>_ w. VErr ARC_YIELD w))"

fun coro_status_name :: "ArcCoroStatus \<Rightarrow> string" where
  "coro_status_name CORO_READY = ''ready''"
| "coro_status_name CORO_RUNNING = ''running''"
| "coro_status_name CORO_SUSPENDED = ''suspended''"
| "coro_status_name CORO_DEAD = ''dead''"

definition vm_exec_coro_status :: "unit vmM" where
  "vm_exec_coro_status =
     vbind vm_pop (\<lambda>v. vbind heap (\<lambda>g.
       case as_obj g v of
         Some (ObjCoroutine _ st) \<Rightarrow> push_new (\<lambda>g. arc_obj_string_new g (coro_status_name st))
       | _ \<Rightarrow> vm_error ''coro_status: not a coroutine''))"

section \<open>Threads\<close>

fun pop_args :: "nat \<Rightarrow> ArcValue list \<Rightarrow> ArcValue list vmM" where
  "pop_args 0 acc = vret acc"
| "pop_args (Suc n) acc = vbind vm_pop (\<lambda>v. pop_args n (v # acc))"

definition vm_exec_thread_spawn :: "libc \<Rightarrow> ArcBytecodeImage \<Rightarrow> unit vmM" where
  "vm_exec_thread_spawn lc img =
     vbind (vm_read_u16 img) (\<lambda>fi. vbind (vm_read_byte img) (\<lambda>argc.
     vbind (modcur (\<lambda>vm. vm\<lparr>ip := ip vm + 1\<rparr>)) (\<lambda>_.
       if length (items (img_functions img)) \<le> unat fi
       then vm_error (''thread_spawn: invalid function index '' @ dec_digits (unat fi))
       else
         vbind (pop_args (unat argc) []) (\<lambda>args.
         vbind (heap_new arc_obj_thread_new) (\<lambda>a. vbind cur (\<lambda>vm.
         vbind (vlift (entry_vm (zero_vm\<lparr>out_stream := out_stream vm\<rparr>) fi (items (img_functions img) ! unat fi) args)) (\<lambda>tvm.
         vbind (heap_op (\<lambda>g. Ret ((), heap_put g a (ObjThread (Some tvm) False)))) (\<lambda>_ w.
           if thread_create lc (length (spawned w))
           then vm_push (VAL_OBJ a) (w\<lparr>spawned := spawned w @ [a]\<rparr>)
           else vm_error ''thread_spawn: failed to create thread'' w))))))))"

definition vm_exec_thread_join :: "unit vmM" where
  "vm_exec_thread_join =
     vbind vm_pop (\<lambda>v. vbind heap (\<lambda>g.
       case (as_obj g v, v) of
         (Some (ObjThread (Some tvm) j), VAL_OBJ a) \<Rightarrow>
           if j then vm_error ''thread_join: already joined''
           else (\<lambda>w. if a \<notin> set (finished w) then VBlock
                else vbind (heap_op (\<lambda>g. Ret ((), heap_put g a (ObjThread (Some tvm) True)))) (\<lambda>_.
                     vbind (vlift (arc_vm_result tvm)) vm_push) w)
       | (Some (ObjThread None j), _) \<Rightarrow> if j then vm_error ''thread_join: already joined'' else vundef
       | _ \<Rightarrow> vm_error ''thread_join: not a thread''))"

section \<open>Mutexes and channels\<close>

definition vm_exec_mutex_new :: "unit vmM" where
  "vm_exec_mutex_new = push_new arc_obj_mutex_new"

definition vm_exec_mutex_lock :: "unit vmM" where
  "vm_exec_mutex_lock =
     vbind vm_pop (\<lambda>v. vbind heap (\<lambda>g.
       case (as_obj g v, v) of
         (Some (ObjMutex held), VAL_OBJ a) \<Rightarrow>
           if held then (\<lambda>w. VBlock) else heap_op (\<lambda>g. Ret ((), heap_put g a (ObjMutex True)))
       | _ \<Rightarrow> vm_error ''mutex_lock: not a mutex''))"

text \<open>Unlocking a mutex that is not locked is undefined.\<close>

definition vm_exec_mutex_unlock :: "unit vmM" where
  "vm_exec_mutex_unlock =
     vbind vm_pop (\<lambda>v. vbind heap (\<lambda>g.
       case (as_obj g v, v) of
         (Some (ObjMutex held), VAL_OBJ a) \<Rightarrow>
           if held then heap_op (\<lambda>g. Ret ((), heap_put g a (ObjMutex False))) else vundef
       | _ \<Rightarrow> vm_error ''mutex_unlock: not a mutex''))"

definition vm_exec_chan_new :: "ArcBytecodeImage \<Rightarrow> unit vmM" where
  "vm_exec_chan_new img =
     vbind (vm_read_u16 img) (\<lambda>c. push_new (\<lambda>g. obj_channel_new g (if 0 < c then ucast c else 1)))"

definition vm_exec_chan_send :: "unit vmM" where
  "vm_exec_chan_send =
     pop2 (\<lambda>ch_val v. vbind heap (\<lambda>g.
       case (as_obj g ch_val, ch_val) of
         (Some (ObjChannel ch), VAL_OBJ a) \<Rightarrow>
           (case arc_channel_send ch v of
              Blocks \<Rightarrow> (\<lambda>w. VBlock)
            | Done (True, ch') \<Rightarrow> heap_op (\<lambda>g. Ret ((), heap_put g a (ObjChannel ch')))
            | Done (False, ch') \<Rightarrow> vm_error ''chan_send: channel closed'')
       | _ \<Rightarrow> vm_error ''chan_send: not a channel''))"

definition vm_exec_chan_recv :: "unit vmM" where
  "vm_exec_chan_recv =
     vbind vm_pop (\<lambda>ch_val. vbind heap (\<lambda>g.
       case (as_obj g ch_val, ch_val) of
         (Some (ObjChannel ch), VAL_OBJ a) \<Rightarrow>
           (case arc_channel_recv ch of
              Blocks \<Rightarrow> (\<lambda>w. VBlock)
            | Done (None, ch') \<Rightarrow> vm_push VAL_NULL
            | Done (Some v, ch') \<Rightarrow> vbind (heap_op (\<lambda>g. Ret ((), heap_put g a (ObjChannel ch')))) (\<lambda>_. vm_push v))
       | _ \<Rightarrow> vm_error ''chan_recv: not a channel''))"

definition vm_exec_concurrency :: "libc \<Rightarrow> ArcBytecodeImage \<Rightarrow> ArcOpcode \<Rightarrow> unit vmM" where
  "vm_exec_concurrency lc img op =
     (if op = OP_CORO_NEW then vm_exec_coro_new img
      else if op = OP_CORO_RESUME then vm_exec_coro_resume
      else if op = OP_CORO_YIELD then vm_exec_coro_yield
      else if op = OP_CORO_STATUS then vm_exec_coro_status
      else if op = OP_THREAD_SPAWN then vm_exec_thread_spawn lc img
      else if op = OP_THREAD_JOIN then vm_exec_thread_join
      else if op = OP_MUTEX_NEW then vm_exec_mutex_new
      else if op = OP_MUTEX_LOCK then vm_exec_mutex_lock
      else if op = OP_MUTEX_UNLOCK then vm_exec_mutex_unlock
      else if op = OP_CHAN_NEW then vm_exec_chan_new img
      else if op = OP_CHAN_SEND then vm_exec_chan_send
      else if op = OP_CHAN_RECV then vm_exec_chan_recv
      else vm_error ''bad concurrency op'')"

section \<open>Dispatch\<close>

definition vm_dispatch :: "libc \<Rightarrow> ArcBytecodeImage \<Rightarrow> u8 \<Rightarrow> u32 \<Rightarrow> unit vmM" where
  "vm_dispatch lc img b instr_ip =
     (case opcode_of_byte b of
        None \<Rightarrow> vm_error (''unknown opcode 0x'' @ [hex_digit (unat b div 16), hex_digit (unat b mod 16)] @
                  '' at '' @ dec_digits (unat instr_ip))
      | Some op \<Rightarrow>
          if op \<in> {OP_CONST, OP_POP, OP_DUP, OP_LOAD_LOCAL, OP_STORE_LOCAL, OP_LOAD_GLOBAL, OP_STORE_GLOBAL}
          then vm_exec_stack_local_global img op
          else if op \<in> {OP_ADD, OP_SUB, OP_MUL, OP_DIV, OP_MOD, OP_NEG} then vm_exec_arithmetic op
          else if op \<in> {OP_STR_LEN, OP_STR_SLICE, OP_STR_INDEX} then vm_exec_string_ops op
          else if op \<in> {OP_BIT_AND, OP_BIT_OR, OP_BIT_XOR, OP_BIT_NOT, OP_SHL, OP_SHR} then vm_exec_bitwise op
          else if op \<in> {OP_CAST_I64, OP_CAST_F64, OP_CAST_STR} then vm_exec_cast lc op
          else if op \<in> {OP_EQ, OP_NEQ, OP_LT, OP_LE, OP_GT, OP_GE, OP_NOT} then vm_exec_comparison op
          else if op \<in> {OP_JUMP, OP_JUMP_IF_FALSE, OP_JUMP_IF_TRUE} then vm_exec_branch img op
          else if op \<in> {OP_TRY_BEGIN, OP_TRY_END, OP_THROW} then vm_exec_exception img op
          else if op = OP_CALL then vm_exec_call img
          else if op = OP_RETURN then vm_exec_return
          else if op \<in> {OP_CLOSURE, OP_GET_UPVAL, OP_SET_UPVAL, OP_CLOSE_UPVAL} then vm_exec_closure img op
          else if op \<in> {OP_ARRAY_NEW, OP_INDEX_GET, OP_INDEX_SET, OP_LENGTH, OP_MAP_NEW, OP_RECORD_NEW,
                         OP_FIELD_GET, OP_FIELD_SET} then vm_exec_collections img op
          else if op = OP_INTRINSIC then vm_exec_intrinsic lc img
          else if op = OP_HALT then modcur (\<lambda>vm. vm\<lparr>halted := True\<rparr>)
          else vm_exec_concurrency lc img op)"

section \<open>Execution\<close>

text \<open>The trace line \<^verbatim>\<open>"  [%04u] %-16s sp=%u\n"\<close>.\<close>

definition trace_line :: "u32 \<Rightarrow> u8 \<Rightarrow> u32 \<Rightarrow> string" where
  "trace_line i b s =
     ''  ['' @ pad4 (dec_digits (unat i)) @ ''] '' @
     (let m = arc_op_mnemonic b in m @ replicate (16 - length m) (CHR '' '')) @
     '' sp='' @ dec_digits (unat s) @ [CHR 0x0A]"

text \<open>One round of the loop of \<^verbatim>\<open>arc_vm_run\<close> and \<^verbatim>\<open>arc_vm_continue\<close> for a machine that is not halted.\<close>

definition vm_round :: "libc \<Rightarrow> ArcBytecodeImage \<Rightarrow> unit vmM" where
  "vm_round lc img =
     vbind cur (\<lambda>vm.
       if length (img_code img) \<le> unat (ip vm) then vm_error ''ip out of bounds''
       else
         vbind (vm_read_byte img) (\<lambda>b.
         vbind (if trace vm then print_to (out_stream vm) (trace_line (ip vm) b (sp vm)) else vret ()) (\<lambda>_.
           vm_dispatch lc img b (ip vm))))"

datatype run_state = Running world | Finished ArcStatus world | Blocked world | Broken

text \<open>The machine on top of \<open>ctx\<close> has ended with a status: the last one ends its OS thread; a coroutine's
  status goes to the machine that resumed it, which may end in turn.\<close>

fun unwind :: "nat option list \<Rightarrow> ArcStatus \<Rightarrow> world \<Rightarrow> run_state" where
  "unwind [] st w = Broken"
| "unwind [i] st w = Finished st (w\<lparr>ctx := []\<rparr>)"
| "unwind (i # p # rest) st w =
     (case i of
        None \<Rightarrow> Broken
      | Some a \<Rightarrow>
          (case coro_after a st (w\<lparr>ctx := p # rest\<rparr>) of
             VRet _ w' \<Rightarrow> Running w'
           | VErr e w' \<Rightarrow> unwind (p # rest) e w'
           | VUndef \<Rightarrow> Broken
           | VBlock \<Rightarrow> Broken))"

definition vm_step :: "libc \<Rightarrow> ArcBytecodeImage \<Rightarrow> world \<Rightarrow> run_state" where
  "vm_step lc img w =
     (case ctx w of
        [] \<Rightarrow> Broken
      | i # _ \<Rightarrow>
          (case get_vm w i of
             None \<Rightarrow> Broken
           | Some vm \<Rightarrow>
               if halted vm then unwind (ctx w) ARC_OK w
               else (case vm_round lc img w of
                       VRet _ w' \<Rightarrow> Running w'
                     | VErr e w' \<Rightarrow> unwind (ctx w') e w'
                     | VUndef \<Rightarrow> Broken
                     | VBlock \<Rightarrow> Blocked w)))"

text \<open>The loop, bounded by a number of rounds; \<open>Running\<close> when the bound is reached.\<close>

fun vm_loop :: "libc \<Rightarrow> ArcBytecodeImage \<Rightarrow> nat \<Rightarrow> world \<Rightarrow> run_state" where
  "vm_loop lc img 0 w = Running w"
| "vm_loop lc img (Suc n) w = (case vm_step lc img w of Running w' \<Rightarrow> vm_loop lc img n w' | r \<Rightarrow> r)"

definition arc_vm_run :: "libc \<Rightarrow> ArcBytecodeImage \<Rightarrow> nat \<Rightarrow> world \<Rightarrow> run_state" where
  "arc_vm_run lc img fuel w0 =
     (let w = w0\<lparr>ctx := [None]\<rparr> in
      case vm_setup_main img w of
        VRet _ w' \<Rightarrow> vm_loop lc img fuel w'
      | VErr e w' \<Rightarrow> Finished e w'
      | VUndef \<Rightarrow> Broken
      | VBlock \<Rightarrow> Broken)"

end
