(* ===== verification/VM_Safety.thy ===== *)
theory VM_Safety
  imports VM_Conc
begin

text \<open>
  The bounds invariant of the virtual machine: in every world that execution reaches, every machine (the
  main one and those of coroutines and threads) has its stack, frame, handler and global counts within the
  fixed arrays. The handlers are taken through the rules below one primitive at a time.
\<close>

named_theorems vm_safe \<open>operations that keep every machine within its bounds\<close>

section \<open>Invariant\<close>

definition vm_wf :: "ArcVm \<Rightarrow> bool" where
  "vm_wf vm \<longleftrightarrow>
     length (stack vm) = ARC_STACK_MAX \<and> length (frames vm) = ARC_FRAMES_MAX \<and>
     length (globals vm) = ARC_GLOBALS_MAX \<and> length (handlers vm) = ARC_HANDLER_MAX \<and>
     unat (sp vm) \<le> ARC_STACK_MAX \<and> unat (fp vm) \<le> ARC_FRAMES_MAX \<and>
     unat (global_count vm) \<le> ARC_GLOBALS_MAX \<and> unat (handler_count vm) \<le> ARC_HANDLER_MAX \<and>
     (\<forall>h \<in> set (take (unat (handler_count vm)) (handlers vm)).
        unat (stack_height h) \<le> ARC_STACK_MAX \<and> unat (frame_depth h) \<le> ARC_FRAMES_MAX)"

fun obj_ok :: "ArcObject \<Rightarrow> bool" where
  "obj_ok (ObjCoroutine vm _) = vm_wf vm"
| "obj_ok (ObjThread (Some vm) _) = vm_wf vm"
| "obj_ok _ = True"

definition heap_ok :: "ArcGC \<Rightarrow> bool" where
  "heap_ok g \<longleftrightarrow> (\<forall>a ob. heap_get g a = Some ob \<longrightarrow> obj_ok ob)"

definition world_wf :: "world \<Rightarrow> bool" where
  "world_wf w \<longleftrightarrow> vm_wf (main_vm w) \<and> heap_ok (gc w)"

text \<open>\<open>vsafe m Q\<close>: from a world within bounds \<open>m\<close>, if it returns, returns in such a world, with a value
  that satisfies \<open>Q\<close>; a status other than a runtime error (a yield) leaves such a world, too. A machine
  that fails is not constrained: a \<^verbatim>\<open>RETURN\<close> that cannot push its result has already moved \<^verbatim>\<open>sp\<close>.\<close>

definition vsafe :: "'a vmM \<Rightarrow> ('a \<Rightarrow> bool) \<Rightarrow> bool" where
  "vsafe m Q \<longleftrightarrow>
     (\<forall>w. world_wf w \<longrightarrow>
        (case m w of
           VRet x w' \<Rightarrow> world_wf w' \<and> Q x
         | VErr e w' \<Rightarrow> e = ARC_ERR_RUNTIME \<or> world_wf w'
         | _ \<Rightarrow> True))"

abbreviation vkeeps :: "'a vmM \<Rightarrow> bool" where
  "vkeeps m \<equiv> vsafe m (\<lambda>_. True)"

section \<open>Rules\<close>

lemma vsafe_bind:
  assumes m: "vsafe m Q" and k: "\<And>x. Q x \<Longrightarrow> vsafe (k x) R"
  shows "vsafe (vbind m k) R"
  unfolding vsafe_def
proof (intro allI impI)
  fix w assume w: "world_wf w"
  then have r: "case m w of VRet x w' \<Rightarrow> world_wf w' \<and> Q x | VErr e w' \<Rightarrow> e = ARC_ERR_RUNTIME \<or> world_wf w' | _ \<Rightarrow> True"
    using m by (simp add: vsafe_def)
  show "case vbind m k w of VRet x w' \<Rightarrow> world_wf w' \<and> R x | VErr e w' \<Rightarrow> e = ARC_ERR_RUNTIME \<or> world_wf w' | _ \<Rightarrow> True"
  proof (cases "m w")
    case (VRet x w1)
    with r k [of x] show ?thesis by (simp add: vsafe_def vbind_def)
  qed (use r in \<open>simp_all add: vbind_def\<close>)
qed

lemma vsafeD: "vsafe m Q \<Longrightarrow> world_wf w \<Longrightarrow> m w = VRet x w' \<Longrightarrow> world_wf w' \<and> Q x"
  by (auto simp: vsafe_def split: vres.splits)

lemma vsafe_step: "world_wf w \<Longrightarrow> vsafe m Q \<Longrightarrow>
    (case m w of VRet x w' \<Rightarrow> world_wf w' \<and> Q x | VErr e w' \<Rightarrow> e = ARC_ERR_RUNTIME \<or> world_wf w' | _ \<Rightarrow> True)"
  by (simp add: vsafe_def)

text \<open>Operations whose only error is the runtime error.\<close>

definition rt_only :: "'a vmM \<Rightarrow> bool" where
  "rt_only m \<longleftrightarrow> (\<forall>w e w'. m w = VErr e w' \<longrightarrow> e = ARC_ERR_RUNTIME)"

lemma vsafeI:
  "rt_only m \<Longrightarrow> (\<And>w x w'. world_wf w \<Longrightarrow> m w = VRet x w' \<Longrightarrow> world_wf w' \<and> Q x) \<Longrightarrow> vsafe m Q"
  unfolding vsafe_def rt_only_def by (auto split: vres.split)

lemma rt_only_bind: "rt_only m \<Longrightarrow> (\<And>x. rt_only (k x)) \<Longrightarrow> rt_only (vbind m k)"
  unfolding rt_only_def vbind_def by (auto split: vres.splits)

lemma rt_only_prims [simp]:
  "rt_only (vret x)" "rt_only vundef" "rt_only (vguard b)" "rt_only (vlift r)" "rt_only me" "rt_only (vm_of i)"
  "rt_only (set_vm i vm)" "rt_only heap" "rt_only (print_to n s)" "rt_only (\<lambda>w. VErr ARC_ERR_RUNTIME w)"
  by (auto simp: rt_only_def vret_def vundef_def vguard_def vlift_def me_def vm_of_def set_vm_def heap_def print_to_def
      split: outcome.splits list.splits option.splits)

lemma rt_only_ops [simp]:
  "rt_only cur" "rt_only (setcur vm)" "rt_only (vm_error msg)" "rt_only (vm_push v)" "rt_only (stack_at j)"
  "rt_only (print_args lc argc k n)"
proof -
  show c: "rt_only cur" "rt_only (setcur vm)" "rt_only (vm_error msg)" for vm msg
    by (auto simp: cur_def setcur_def vm_error_def vm_record_error_def intro!: rt_only_bind)
  show "rt_only (vm_push v)" "rt_only (stack_at j)" for j
    using c by (auto simp: vm_push_def stack_at_def intro!: rt_only_bind)
  then show "rt_only (print_args lc argc k n)"
    using c by (induction n arbitrary: k) (auto intro!: rt_only_bind)
qed

lemma vsafe_ret: "Q x \<Longrightarrow> vsafe (vret x) Q"
  by (simp add: vsafe_def vret_def)

lemma vbind_vret [simp]: "vbind (vret x) k = k x"
  by (simp add: vbind_def vret_def)

lemma vbind_vundef [simp]: "vbind vundef k = vundef"
  by (simp add: vbind_def vundef_def)

lemma vsafe_undef [simp]: "vsafe vundef Q" "vsafe (\<lambda>w. VBlock) Q" "vsafe (\<lambda>w. VErr ARC_ERR_RUNTIME (f w)) Q"
  by (simp_all add: vsafe_def vundef_def)

lemma vsafe_guard: "vsafe (vguard b) (\<lambda>_. b)"
  by (simp add: vsafe_def vguard_def vret_def vundef_def)

lemma vsafe_lift: "(\<And>x. r = Ret x \<Longrightarrow> Q x) \<Longrightarrow> vsafe (vlift r) Q"
  by (auto simp: vlift_def vsafe_def vret_def vundef_def split: outcome.splits)

lemma get_vm_wf: "world_wf w \<Longrightarrow> get_vm w i = Some vm \<Longrightarrow> vm_wf vm"
  by (auto simp: world_wf_def heap_ok_def get_vm_def split: option.splits ArcObject.splits) (metis obj_ok.simps(1,2))+

lemma heap_ok_put: "heap_ok g \<Longrightarrow> obj_ok ob \<Longrightarrow> heap_ok (heap_put g a ob)"
  unfolding heap_ok_def
  by (cases "heap_get g a = None")
    (auto simp: heap_get_put split: if_splits, auto simp: cell_obj_def heap_put_def nth_list_update split: if_splits)

lemma put_vm_wf: "world_wf w \<Longrightarrow> vm_wf vm \<Longrightarrow> world_wf (put_vm w i vm)"
  by (auto simp: world_wf_def put_vm_def intro!: heap_ok_put split: option.splits ArcObject.splits)

lemma vsafe_vm_of: "vsafe (vm_of i) vm_wf"
  by (auto simp: vsafe_def vm_of_def get_vm_wf split: option.splits)

lemma vsafe_set_vm: "vm_wf vm \<Longrightarrow> vkeeps (set_vm i vm)"
  by (auto simp: vsafe_def set_vm_def put_vm_wf split: option.splits)

lemma vsafe_me: "vkeeps me"
  by (auto simp: vsafe_def me_def split: list.splits)

lemma vsafe_cur: "vsafe cur vm_wf"
  unfolding cur_def by (rule vsafe_bind [OF vsafe_me vsafe_vm_of])

lemma vsafe_setcur: "vm_wf vm \<Longrightarrow> vkeeps (setcur vm)"
  unfolding setcur_def by (rule vsafe_bind [OF vsafe_me]) (rule vsafe_set_vm)

lemma vsafe_modcur: "(\<And>vm. vm_wf vm \<Longrightarrow> vm_wf (f vm)) \<Longrightarrow> vkeeps (modcur f)"
  unfolding modcur_def by (rule vsafe_bind [OF vsafe_cur]) (simp add: vsafe_setcur)

lemma vsafe_heap: "vkeeps heap"
  by (simp add: vsafe_def heap_def)

lemma vsafe_obj_at: "vsafe (obj_at a) obj_ok"
  by (auto simp: vsafe_def obj_at_def world_wf_def heap_ok_def split: option.splits)

lemma vsafe_heap_op:
  "(\<And>g x g'. heap_ok g \<Longrightarrow> f g = Ret (x, g') \<Longrightarrow> heap_ok g') \<Longrightarrow> vkeeps (heap_op f)"
  by (auto simp: vsafe_def heap_op_def world_wf_def split: outcome.splits prod.splits)

lemma vsafe_heap_new:
  "(\<And>g. heap_ok g \<Longrightarrow> heap_ok (snd (f g))) \<Longrightarrow> vkeeps (heap_new f)"
  by (auto simp: vsafe_def heap_new_def world_wf_def split_def Let_def)

lemma vsafe_put: "obj_ok ob \<Longrightarrow> vkeeps (heap_op (\<lambda>g. Ret (x, heap_put g a ob)))"
  by (rule vsafe_heap_op) (auto intro: heap_ok_put)

lemma vsafe_print_to: "vkeeps (print_to n s)"
  by (simp add: vsafe_def print_to_def world_wf_def)

lemma vsafe_error [simp]: "vsafe (vm_error msg) Q"
  unfolding vm_error_def by (rule vsafe_bind [OF vsafe_me]) (auto simp: vsafe_def vbind_def vm_record_error_def vm_of_def set_vm_def vguard_def vret_def vundef_def split: vres.splits option.splits if_splits)

lemmas vsafe_prims = vsafe_cur vsafe_me vsafe_vm_of vsafe_guard vsafe_heap vsafe_obj_at vsafe_print_to

section \<open>Machine updates within bounds\<close>

lemma vm_wf_push: "vm_wf vm \<Longrightarrow> unat (sp vm) < ARC_STACK_MAX \<Longrightarrow>
  vm_wf (vm\<lparr>stack := (stack vm)[unat (sp vm) := v], sp := sp vm + 1\<rparr>)"
  by (simp add: vm_wf_def arc_max_defs unat_word_ariths)

lemma vm_wf_sp: "vm_wf vm \<Longrightarrow> unat s \<le> ARC_STACK_MAX \<Longrightarrow> vm_wf (vm\<lparr>sp := s\<rparr>)"
  by (simp add: vm_wf_def)

lemma vm_wf_other:
  "vm_wf (vm\<lparr>ip := i\<rparr>) = vm_wf vm" "vm_wf (vm\<lparr>halted := b\<rparr>) = vm_wf vm" "vm_wf (vm\<lparr>error := e\<rparr>) = vm_wf vm"
  "vm_wf (vm\<lparr>open_upvalues := us\<rparr>) = vm_wf vm" "vm_wf (vm\<lparr>yielded := v\<rparr>) = vm_wf vm"
  "vm_wf (vm\<lparr>out_stream := n\<rparr>) = vm_wf vm" "vm_wf (vm\<lparr>stack := (stack vm)[k := v]\<rparr>) = vm_wf vm"
  by (simp_all add: vm_wf_def)

lemma unat_minus_one: "x \<noteq> 0 \<Longrightarrow> unat (x - 1 :: u32) = unat x - 1"
  by (simp add: unat_minus_one)

lemma vsafe_push: "vkeeps (vm_push v)"
  unfolding vm_push_def
  by (rule vsafe_bind [OF vsafe_cur]) (auto intro!: vsafe_setcur vm_wf_push)

lemma vsafe_pop: "vkeeps vm_pop"
  unfolding vm_pop_def
proof (rule vsafe_bind [OF vsafe_cur])
  fix vm assume wf: "vm_wf vm"
  then have "vm_wf (vm\<lparr>sp := sp vm - 1\<rparr>)" if "sp vm \<noteq> 0"
    using that by (intro vm_wf_sp) (auto simp: vm_wf_def unat_minus_one)
  then show "vkeeps (if sp vm = 0 then vm_error ''stack underflow''
       else vbind (vguard (unat (sp vm) \<le> ARC_STACK_MAX)) (\<lambda>_.
            vbind (setcur (vm\<lparr>sp := sp vm - 1\<rparr>)) (\<lambda>_. vret (stack vm ! unat (sp vm - 1)))))"
    by (auto intro!: vsafe_bind [OF vsafe_guard] vsafe_bind [OF vsafe_setcur] vsafe_ret)
qed

lemma vsafe_read [vm_safe]: "vkeeps (vm_read_byte img)" "vkeeps (vm_read_u16 img)" "vkeeps (vm_read_i32 img)"
  unfolding vm_read_byte_def vm_read_u16_def vm_read_i32_def
  by (rule vsafe_bind [OF vsafe_cur], rule vsafe_bind [OF vsafe_guard], rule vsafe_bind [OF vsafe_setcur];
      simp add: vm_wf_other vsafe_ret)+

lemma vsafe_stack_at [vm_safe]: "vkeeps (stack_at i)"
  unfolding stack_at_def by (intro vsafe_bind [OF vsafe_cur] vsafe_bind [OF vsafe_guard] vsafe_ret) simp

lemma vsafe_stack_put [vm_safe]: "vkeeps (stack_put i v)"
  unfolding stack_put_def by (intro vsafe_bind [OF vsafe_guard] vsafe_modcur) (simp add: vm_wf_other)

lemma vsafe_top_frame [vm_safe]: "vkeeps top_frame"
  unfolding top_frame_def by (intro vsafe_bind [OF vsafe_cur] vsafe_bind [OF vsafe_guard] vsafe_ret) simp

declare vsafe_push [vm_safe] vsafe_pop [vm_safe] vsafe_me [vm_safe] vsafe_heap [vm_safe] vsafe_print_to [vm_safe]

lemma heap_ok_alloc: "heap_ok g \<Longrightarrow> obj_ok ob \<Longrightarrow> heap_ok (snd (arc_gc_alloc g n ob))"
  unfolding heap_ok_def using alloc_heap_get [of g n ob] by (cases "arc_gc_alloc g n ob") (auto split: if_splits)

lemma heap_ok_new [wf_intros, simp]:
  "heap_ok g \<Longrightarrow> heap_ok (snd (arc_obj_string_new g s))"
  "heap_ok g \<Longrightarrow> heap_ok (snd (arc_obj_array_new g n))"
  "heap_ok g \<Longrightarrow> heap_ok (snd (arc_obj_map_new g n))"
  "heap_ok g \<Longrightarrow> heap_ok (snd (arc_obj_closure_new g fi k))"
  "heap_ok g \<Longrightarrow> heap_ok (snd (arc_obj_upvalue_new g i k))"
  "heap_ok g \<Longrightarrow> heap_ok (snd (arc_obj_record_new g s c))"
  "heap_ok g \<Longrightarrow> heap_ok (snd (arc_obj_thread_new g))"
  "heap_ok g \<Longrightarrow> heap_ok (snd (arc_obj_mutex_new g))"
  "heap_ok g \<Longrightarrow> heap_ok (snd (obj_channel_new g m))"
  by (simp_all add: arc_obj_string_new_def arc_obj_array_new_def arc_obj_map_new_def arc_obj_closure_new_def
      arc_obj_upvalue_new_def arc_obj_record_new_def arc_obj_thread_new_def arc_obj_mutex_new_def obj_channel_new_def
      heap_ok_alloc)

lemma vsafe_push_new [vm_safe]: "(\<And>g. heap_ok g \<Longrightarrow> heap_ok (snd (f g))) \<Longrightarrow> vkeeps (push_new f)"
  unfolding push_new_def by (rule vsafe_bind [OF vsafe_heap_new]) (auto intro: vsafe_push)

section \<open>The handlers\<close>

lemmas vsafe_info = vsafe_cur vsafe_vm_of vsafe_guard vsafe_obj_at

lemmas vsafe_updates = vsafe_setcur vsafe_set_vm vsafe_modcur vsafe_heap_new vsafe_put

lemmas vsafe_steps = vsafe_ret vsafe_updates vsafe_info [THEN vsafe_bind] vsafe_updates [THEN vsafe_bind]

lemmas vsafe_cases = if_split option.split prod.split ArcValue.split ArcObject.split list.split bool.split

lemma vm_wf_globals: "vm_wf vm \<Longrightarrow> length gs = length (globals vm) \<Longrightarrow> unat n \<le> ARC_GLOBALS_MAX \<Longrightarrow>
  vm_wf (vm\<lparr>globals := gs, global_count := n\<rparr>)"
  by (simp add: vm_wf_def)

lemma vm_wf_fill_globals:
  assumes "vm_wf vm"
  shows "vm_wf (fill_globals idx vm)"
proof -
  define m where "m = min (unat idx + 1) ARC_GLOBALS_MAX"
  have "m \<le> ARC_GLOBALS_MAX" by (simp add: m_def)
  then have "unat (of_nat m :: u16) \<le> ARC_GLOBALS_MAX" by (simp add: arc_max_defs)
  with assms \<open>m \<le> ARC_GLOBALS_MAX\<close> show ?thesis
    unfolding fill_globals_def Let_def m_def [symmetric]
    by (auto intro!: vm_wf_globals simp: vm_wf_def)
qed

lemma store_global_wf:
  assumes "vm_wf vm" "unat idx < ARC_GLOBALS_MAX"
  shows "vm_wf (vm\<lparr>globals := (globals vm)[unat idx := v],
     global_count := (if global_count vm \<le> idx then idx + 1 else global_count vm)\<rparr>)"
  using assms by (intro vm_wf_globals) (auto simp: vm_wf_def arc_max_defs unat_word_ariths)

lemma vsafe_const_to_val [vm_safe]: "vkeeps (vm_const_to_val c)"
  unfolding vm_const_to_val_def
  by (auto intro!: vsafe_steps vm_safe split: ArcConstant.split)

lemma vsafe_stack_local_global [vm_safe]: "vkeeps (vm_exec_stack_local_global img op)"
  unfolding vm_exec_stack_local_global_def
  by (auto intro!: vsafe_steps vm_safe vm_safe [THEN vsafe_bind] simp: vm_wf_fill_globals store_global_wf not_le
      split: if_split)

lemma vsafe_ip_plus [vm_safe]: "vkeeps (ip_plus i off)"
  by (auto simp: ip_plus_def Let_def intro!: vsafe_ret)

lemma vsafe_jump [vm_safe]: "vkeeps (vm_jump off)"
  unfolding vm_jump_def by (auto intro!: vsafe_steps vm_safe [THEN vsafe_bind] simp: vm_wf_other)

lemma vsafe_branch [vm_safe]: "vkeeps (vm_exec_branch img op)"
  unfolding vm_exec_branch_def
  by (auto intro!: vsafe_steps vm_safe vm_safe [THEN vsafe_bind] split: if_split)

lemma vsafe_push_nulls [vm_safe]: "vkeeps (push_nulls n)"
  by (induction n) (auto intro!: vsafe_steps vm_safe [THEN vsafe_bind])

lemma vsafe_resolve_callee [vm_safe]: "vkeeps (resolve_callee fi argc)"
  unfolding resolve_callee_def by (auto intro!: vsafe_steps vm_safe [THEN vsafe_bind])

lemma vm_wf_frame: "vm_wf vm \<Longrightarrow> unat (fp vm) < ARC_FRAMES_MAX \<Longrightarrow>
  vm_wf (vm\<lparr>frames := (frames vm)[k := fr], fp := fp vm + 1\<rparr>)"
  by (simp add: vm_wf_def arc_max_defs unat_word_ariths)

lemma vsafe_call [vm_safe]: "vkeeps (vm_exec_call img)"
  unfolding vm_exec_call_def Let_def
  by (auto intro!: vsafe_steps vm_safe vm_safe [THEN vsafe_bind] simp: vm_wf_frame vm_wf_other not_le split: if_split)

lemma vsafe_close_upvalues [vm_safe]: "vkeeps (close_upvalues i lo us)"
  by (induction us)
    (auto intro!: vsafe_steps vm_safe [THEN vsafe_bind] intro: vsafe_bind split: ArcObject.split uv_location.split)

lemma vsafe_close_from [vm_safe]: "vkeeps (close_from lo)"
  unfolding close_from_def by (auto intro!: vsafe_steps vm_safe [THEN vsafe_bind] simp: vm_wf_other)

text \<open>A return may leave the stack pointer outside the array only until the result is pushed.\<close>

lemma setcur_push:
  assumes "vm_wf (vm\<lparr>sp := 0\<rparr>)"
  shows "vkeeps (vbind (setcur vm) (\<lambda>_. vm_push v))"
proof (rule vsafeI [OF rt_only_bind])
  fix w x w' assume w: "world_wf w" and e: "vbind (setcur vm) (\<lambda>_. vm_push v) w = VRet x w'"
  then obtain i w1 where 1: "me w = VRet i w" "get_vm w i \<noteq> None" "w1 = put_vm w i vm" "vm_push v w1 = VRet x w'"
    by (auto simp: vbind_def setcur_def set_vm_def me_def split: vres.splits list.splits option.splits)
  have g: "get_vm w1 i = Some vm" "me w1 = VRet i w1"
    using 1 by (auto simp: get_vm_def put_vm_def me_def heap_get_put split: option.splits ArcObject.splits list.splits)
  show "world_wf w' \<and> True"
  proof (cases "unat (sp vm) \<le> ARC_STACK_MAX")
    case True
    have "vm_wf vm" using assms True by (simp add: vm_wf_def)
    with w 1(3) have "world_wf w1" by (simp add: put_vm_wf)
    with 1(4) show ?thesis by (blast dest: vsafeD [OF vsafe_push])
  next
    case False
    then have "vm_push v w1 = vm_error ''stack overflow'' w1"
      using g by (simp add: vm_push_def cur_def vbind_def vm_of_def)
    with 1(4) show ?thesis by (auto simp: vm_error_def vbind_def split: vres.splits)
  qed
qed simp_all

lemma vsafe_return [vm_safe]: "vkeeps vm_exec_return"
proof -
  have wf: "vm_wf (vm\<lparr>fp := f, sp := 0\<rparr>)" "vm_wf (vm\<lparr>fp := f, ip := j, sp := 0\<rparr>)"
    if "vm_wf vm" "unat f \<le> ARC_FRAMES_MAX" for vm f j
    using that by (simp_all add: vm_wf_def)
  have fp: "unat (fp vm - 1) \<le> ARC_FRAMES_MAX" if "vm_wf vm" "fp vm \<noteq> 0" for vm
    using that by (auto simp: vm_wf_def unat_minus_one)
  have halt: "vkeeps (vbind (setcur (vm\<lparr>fp := 0, sp := 0\<rparr>)) (\<lambda>_. vbind (vm_push v) (\<lambda>_. modcur (\<lambda>vm. vm\<lparr>halted := True\<rparr>))))"
    if "vm_wf vm" for vm v
    using wf(1) [OF that, of 0] by (auto intro!: vsafe_steps vm_safe [THEN vsafe_bind] simp: vm_wf_other)
  have "vkeeps (vbind (setcur (vm\<lparr>fp := fp vm - 1, sp := b, ip := j\<rparr>)) (\<lambda>_. vm_push v))"
    if "vm_wf vm" "fp vm \<noteq> 0" for vm v b j
    using wf(2) [OF that(1) fp [OF that], of j] by (intro setcur_push) simp
  with halt show ?thesis
    unfolding vm_exec_return_def
    by (auto intro!: vsafe_info [THEN vsafe_bind] vm_safe [THEN vsafe_bind])
qed

lemma vm_wf_handler:
  assumes "vm_wf vm" "unat (handler_count vm) < ARC_HANDLER_MAX"
  shows "vm_wf (vm\<lparr>handlers := (handlers vm)[unat (handler_count vm) :=
     \<lparr>catch_ip = t, stack_height = sp vm, frame_depth = fp vm\<rparr>], handler_count := handler_count vm + 1\<rparr>)"
proof -
  have "unat (handler_count vm + 1) = Suc (unat (handler_count vm))"
    using assms(2) by (simp add: unat_word_ariths arc_max_defs)
  with assms show ?thesis by (auto simp: vm_wf_def take_Suc_conv_app_nth)
qed

lemma take_handlers_pop: "n \<noteq> 0 \<Longrightarrow> set (take (unat (n - 1 :: u32)) hs) \<subseteq> set (take (unat n) hs)"
  by (rule set_take_subset_set_take) (simp add: unat_minus_one)

lemma vm_wf_handler_pop:
  assumes "vm_wf vm" "handler_count vm \<noteq> 0"
  shows "vm_wf (vm\<lparr>handler_count := handler_count vm - 1\<rparr>)"
  using assms take_handlers_pop [OF assms(2), of "handlers vm"] by (auto simp: vm_wf_def unat_minus_one)

lemma vm_wf_throw:
  assumes "vm_wf vm" "handler_count vm \<noteq> 0"
  shows "vm_wf (vm\<lparr>handler_count := handler_count vm - 1,
     fp := frame_depth (handlers vm ! unat (handler_count vm - 1)),
     sp := stack_height (handlers vm ! unat (handler_count vm - 1)), ip := i\<rparr>)"
proof -
  let ?k = "unat (handler_count vm - 1)"
  have "?k < unat (handler_count vm)" using assms(2) by (simp add: unat_minus_one unat_gt_0)
  moreover have "unat (handler_count vm) \<le> length (handlers vm)" using assms(1) by (simp add: vm_wf_def)
  ultimately have "handlers vm ! ?k \<in> set (take (unat (handler_count vm)) (handlers vm))"
    by (auto simp: in_set_conv_nth intro!: exI [of _ ?k])
  with vm_wf_handler_pop [OF assms] assms show ?thesis by (auto simp: vm_wf_def)
qed

lemma vsafe_exception [vm_safe]: "vkeeps (vm_exec_exception img op)"
  unfolding vm_exec_exception_def Let_def
  by (auto intro!: vsafe_steps vm_safe vm_safe [THEN vsafe_bind] simp: vm_wf_handler vm_wf_handler_pop vm_wf_throw not_le)

lemma vsafe_cast [vm_safe]: "vkeeps (vm_exec_cast lc op)"
proof -
  have "vkeeps vm_exec_cast_i64" "vkeeps (vm_exec_cast_f64 lc)"
    unfolding vm_exec_cast_i64_def vm_exec_cast_f64_def
    by (auto intro!: vsafe_steps vm_safe vm_safe [THEN vsafe_bind] split: ArcValue.split option.split prod.split)
  moreover have "vkeeps (vm_exec_cast_str lc)"
    unfolding vm_exec_cast_str_def Let_def
    by (auto intro!: vsafe_steps vm_safe vm_safe [THEN vsafe_bind] split: ArcValue.split option.split)
  ultimately show ?thesis by (simp add: vm_exec_cast_def)
qed

lemma vsafe_pop2 [vm_safe]: "(\<And>a b. vsafe (k a b) Q) \<Longrightarrow> vsafe (pop2 k) Q"
  unfolding pop2_def by (auto intro!: vm_safe [THEN vsafe_bind])

lemma vsafe_push_i64 [vm_safe]: "vkeeps (push_i64 r)"
  unfolding push_i64_def i64_result_def by (auto intro!: vm_safe)

lemma heap_ok_concat: "heap_ok g \<Longrightarrow> arc_obj_string_concat g s t = Ret (x, g') \<Longrightarrow> heap_ok g'"
  using heap_ok_alloc [of g "ObjString (s @ t)"] by (auto simp: arc_obj_string_concat_def split: if_splits) (metis obj_ok.simps(3) snd_conv)

lemma vsafe_concat [vm_safe]: "vkeeps (heap_op (\<lambda>g. arc_obj_string_concat g s t))"
  by (rule vsafe_heap_op) (rule heap_ok_concat)

lemma vsafe_arith2 [vm_safe]: "vkeeps m \<Longrightarrow> vkeeps (arith2 fi ff m a b)"
  unfolding arith2_def by (auto intro!: vm_safe split: ArcValue.split)

lemma vsafe_arithmetic [vm_safe]: "vkeeps (vm_exec_arithmetic op)"
proof -
  have "vkeeps (vm_add a b)" for a b
    unfolding vm_add_def by (auto intro!: vm_safe vm_safe [THEN vsafe_bind] split: option.split)
  moreover have "vkeeps (vm_div a b)" "vkeeps (vm_mod a b)" "vkeeps (vm_neg a)" for a b
    unfolding vm_div_def vm_mod_def vm_neg_def i64_result_def by (auto intro!: vm_safe split: ArcValue.split)
  ultimately show ?thesis
    unfolding vm_exec_arithmetic_def by (auto intro!: vm_safe vm_safe [THEN vsafe_bind])
qed

lemma vsafe_comparison [vm_safe]: "vkeeps (vm_exec_comparison op)"
proof -
  have "vkeeps (order2 ri rf n a b)" for ri rf n a b
    unfolding order2_def by (auto intro!: vm_safe split: ArcValue.split)
  then show ?thesis unfolding vm_exec_comparison_def by (auto intro!: vm_safe vm_safe [THEN vsafe_bind])
qed

lemma vsafe_string_ops [vm_safe]: "vkeeps (vm_exec_string_ops op)"
proof -
  have "vkeeps (vm_str_slice a b c)" for a b c
    unfolding vm_str_slice_def Let_def
    by (auto intro!: vm_safe vm_safe [THEN vsafe_bind] split: option.split ArcValue.split)
  then show ?thesis unfolding vm_exec_string_ops_def
    by (auto intro!: vm_safe vm_safe [THEN vsafe_bind] split: option.split ArcValue.split)
qed

lemma vsafe_bitwise [vm_safe]: "vkeeps (vm_exec_bitwise op)"
proof -
  have "vkeeps (bit2 f n a b)" for f n a b
    unfolding bit2_def by (auto intro!: vm_safe split: ArcValue.split)
  then show ?thesis unfolding vm_exec_bitwise_def
    by (auto intro!: vm_safe vm_safe [THEN vsafe_bind] split: ArcValue.split)
qed

section \<open>Collections, closures and intrinsics\<close>

lemma heap_ok_array_push: "heap_ok g \<Longrightarrow> arc_obj_array_push g a v = Ret g' \<Longrightarrow> heap_ok g'"
  by (auto simp: arc_obj_array_push_def andthen_Ret intro: heap_ok_put split: option.splits ArcObject.splits)

lemma heap_ok_map_set: "heap_ok g \<Longrightarrow> arc_obj_map_set g a k v = Ret (b, g') \<Longrightarrow> heap_ok g'"
  by (auto simp: arc_obj_map_set_def andthen_Ret intro: heap_ok_put split: option.splits ArcObject.splits)

lemma heap_ok_record_set: "heap_ok g \<Longrightarrow> arc_obj_record_set g a k v = Ret (b, g') \<Longrightarrow> heap_ok g'"
  by (auto simp: arc_obj_record_set_def Let_def intro: heap_ok_put split: option.splits ArcObject.splits if_splits)

lemma vsafe_heap_sets [vm_safe]:
  "vkeeps (heap_op (\<lambda>g. andthen (arc_obj_array_push g a v) (\<lambda>g. Ret ((), g))))"
  "vkeeps (heap_op (\<lambda>g. andthen (arc_obj_map_set g a k v) (\<lambda>(_, g). Ret ((), g))))"
  "vkeeps (heap_op (\<lambda>g. andthen (arc_obj_record_set g a f v) (\<lambda>(_, g). Ret ((), g))))"
  by (rule vsafe_heap_op; auto simp: andthen_Ret intro: heap_ok_array_push heap_ok_map_set heap_ok_record_set)+

lemma vsafe_pop_into [vm_safe]: "vkeeps (pop_into_array a n)" "vkeeps (pop_into_map a n)"
  by (induction n) (auto intro!: vsafe_ret vm_safe [THEN vsafe_bind])

lemma vsafe_reverse_array [vm_safe]: "vkeeps (reverse_array a)"
  unfolding reverse_array_def by (auto intro!: vsafe_steps split: ArcObject.split)

lemma vsafe_index [vm_safe]: "vkeeps vm_exec_index_get" "vkeeps vm_exec_index_set" "vkeeps (push_length n)"
proof -
  show "vkeeps vm_exec_index_get" "vkeeps (push_length n)"
    unfolding vm_exec_index_get_def push_length_def
    by (auto intro!: vm_safe vm_safe [THEN vsafe_bind] split: option.split ArcObject.split ArcValue.split)
  have "vkeeps (vm_index_store c k v)" for c k v
    unfolding vm_index_store_def
    by (auto intro!: vm_safe vm_safe [THEN vsafe_bind] vsafe_put split: option.split ArcObject.split ArcValue.split)
  then show "vkeeps vm_exec_index_set"
    unfolding vm_exec_index_set_def by (auto intro!: vm_safe [THEN vsafe_bind])
qed

lemma vsafe_collections [vm_safe]: "vkeeps (vm_exec_collections img op)"
proof -
  have "vkeeps (vm_exec_array_new img)" "vkeeps (vm_exec_map_new img)" "vkeeps (vm_exec_record_new img)"
    unfolding vm_exec_array_new_def vm_exec_map_new_def vm_exec_record_new_def
    by (auto intro!: vsafe_steps vm_safe vm_safe [THEN vsafe_bind])
  moreover have "vkeeps (vm_exec_field_get img)" "vkeeps (vm_exec_field_set img)"
    unfolding vm_exec_field_get_def vm_exec_field_set_def
    by (auto intro!: vm_safe vm_safe [THEN vsafe_bind] split: option.split ArcObject.split ArcValue.split)
  ultimately show ?thesis
    unfolding vm_exec_collections_def vm_exec_length_def by (auto intro!: vm_safe)
qed

lemma vsafe_frame_closure [vm_safe]: "vkeeps frame_closure"
  unfolding frame_closure_def by (auto intro!: vsafe_ret vm_safe [THEN vsafe_bind])

lemma vsafe_capture [vm_safe]: "vkeeps (capture d)"
  unfolding capture_def Let_def
  by (auto intro!: vsafe_steps vm_safe [THEN vsafe_bind] simp: vm_wf_other split: option.split)

lemma vsafe_capture_all [vm_safe]: "vkeeps (capture_all a k ds)"
  by (induction ds arbitrary: k) (auto intro!: vsafe_steps vm_safe [THEN vsafe_bind] split: ArcObject.split)

lemma vsafe_frame_upvalue [vm_safe]: "vkeeps (frame_upvalue n idx)"
  unfolding frame_upvalue_def by (auto intro!: vsafe_ret vm_safe [THEN vsafe_bind] split: option.split)

lemma vsafe_upvalue_access [vm_safe]: "vkeeps (upvalue_load u)" "vkeeps (upvalue_store u v)"
  unfolding upvalue_load_def upvalue_store_def
  by (auto intro!: vsafe_steps simp: vm_wf_other split: ArcObject.split uv_location.split)

lemma vsafe_closure [vm_safe]: "vkeeps (vm_exec_closure img op)"
proof -
  have "vkeeps (vm_exec_closure_new img)" "vkeeps (vm_exec_get_upval img)" "vkeeps (vm_exec_set_upval img)"
    "vkeeps vm_exec_close_upval"
    unfolding vm_exec_closure_new_def vm_exec_get_upval_def vm_exec_set_upval_def vm_exec_close_upval_def Let_def
    by (auto intro!: vsafe_steps vm_safe vm_safe [THEN vsafe_bind])
  then show ?thesis by (simp add: vm_exec_closure_def)
qed

text \<open>Printing the arguments reads the stack from \<open>sp - argc\<close> on, so they are there.\<close>

lemma print_args_room:
  assumes "print_args lc argc k n w = VRet x w'" "cur w = VRet vm w" "n \<noteq> 0"
  shows "unat (sp vm - ucast argc + of_nat k) < ARC_STACK_MAX"
  using assms by (cases n) (auto simp: vbind_def stack_at_def vguard_def vundef_def vret_def split: vres.splits if_splits)

lemma vsafe_print_args [vm_safe]: "vkeeps (print_args lc argc k n)"
  by (induction n arbitrary: k) (auto intro!: vsafe_steps vsafe_lift [THEN vsafe_bind] vm_safe [THEN vsafe_bind])

lemma print_args_frame: "print_args lc argc k n w = VRet x w' \<Longrightarrow> \<exists>ss. w' = w\<lparr>streams := ss\<rparr>"
proof (induction n arbitrary: k w)
  case (Suc n)
  then obtain ss where "print_args lc argc (Suc k) n (w\<lparr>streams := ss\<rparr>) = VRet x w'"
    by (auto simp: vbind_def stack_at_def cur_def me_def vm_of_def vguard_def vundef_def vret_def heap_def vlift_def
        print_to_def split: vres.splits list.splits option.splits if_splits outcome.splits)
  from Suc.IH [OF this] show ?case by auto
next
  case 0
  then have "w' = w\<lparr>streams := streams w\<rparr>" by (simp add: vret_def)
  then show ?case by blast
qed

lemma vsafe_intr_print [vm_safe]: "vkeeps (vm_intr_print lc argc)"
proof (rule vsafeI)
  show "rt_only (vm_intr_print lc argc)" unfolding vm_intr_print_def by (auto intro!: rt_only_bind)
next
  fix w x w' assume w: "world_wf w" and e: "vm_intr_print lc argc w = VRet x w'"
  then obtain y w1 where p: "print_args lc argc 0 (unat argc) w = VRet y w1"
    by (auto simp: vm_intr_print_def vbind_def split: vres.splits)
  obtain ss where ss: "w1 = w\<lparr>streams := ss\<rparr>" using print_args_frame [OF p] by blast
  have g: "get_vm (v\<lparr>streams := t\<rparr>) i = get_vm v i" "put_vm (v\<lparr>streams := t\<rparr>) i m = (put_vm v i m)\<lparr>streams := t\<rparr>" for v t i m
    by (simp_all add: get_vm_def put_vm_def split: option.splits ArcObject.splits)
  obtain i vm where i: "ctx w = i # tl (ctx w)" "get_vm w i = Some vm"
    and w': "w' = (put_vm w i (vm\<lparr>sp := sp vm - ucast argc\<rparr>))\<lparr>streams := streams w'\<rparr>"
    using e p ss by (auto simp: vm_intr_print_def vbind_def cur_def me_def vm_of_def print_to_def setcur_def set_vm_def g
        split: vres.splits list.splits option.splits)
  have "unat (sp vm - ucast argc) \<le> ARC_STACK_MAX"
  proof (cases "argc = 0")
    case True
    then show ?thesis using get_vm_wf [OF w i(2)] by (simp add: vm_wf_def)
  next
    case False
    have "cur w = VRet vm w" using i by (cases "ctx w") (simp_all add: cur_def vbind_def me_def vm_of_def)
    with print_args_room [OF p this] False show ?thesis by (simp add: unat_eq_0)
  qed
  then have "vm_wf (vm\<lparr>sp := sp vm - ucast argc\<rparr>)" using get_vm_wf [OF w i(2)] by (rule vm_wf_sp [rotated])
  then have "world_wf (put_vm w i (vm\<lparr>sp := sp vm - ucast argc\<rparr>))" using w by (rule put_vm_wf [rotated])
  then show "world_wf w' \<and> True" by (subst w') (simp add: world_wf_def)
qed

lemma heap_ok_keys:
  assumes "heap_ok g" "foldl (\<lambda>r k. andthen r (\<lambda>g. arc_obj_array_push g a k)) (Ret g) ks = Ret g'"
  shows "heap_ok g'"
  using assms
proof (induction ks arbitrary: g)
  case (Cons k ks)
  have bad: "foldl (\<lambda>r k. andthen r (\<lambda>g. arc_obj_array_push g a k)) r ks \<noteq> Ret g'" if "\<forall>g. r \<noteq> Ret g" for r
    using that by (induction ks arbitrary: r) (auto simp: andthen_Ret)
  obtain g1 where "arc_obj_array_push g a k = Ret g1"
    using Cons.prems(2) bad [of "arc_obj_array_push g a k"] by auto
  with Cons.IH [of g1] Cons.prems heap_ok_array_push [of g a k g1] show ?case by simp
qed simp

lemma vsafe_intr_push: "vkeeps vm_intr_push"
  unfolding vm_intr_push_def
proof (rule vsafe_bind [OF vsafe_cur])
  fix vm assume wf: "vm_wf vm"
  let ?k = "\<lambda>v arr. vbind (setcur (vm\<lparr>sp := sp vm - 2\<rparr>)) (\<lambda>_. vbind heap (\<lambda>g.
       case (as_obj g arr, arr) of
         (Some (ObjArray _ _), VAL_OBJ a) \<Rightarrow>
           vbind (heap_op (\<lambda>g. andthen (arc_obj_array_push g a v) (\<lambda>g. Ret ((), g)))) (\<lambda>_. vm_push VAL_NULL)
       | _ \<Rightarrow> vm_error ''push: first arg must be array''))"
  have at: "vsafe (stack_at i) (\<lambda>_. unat i < ARC_STACK_MAX)" for i
    unfolding stack_at_def by (intro vsafe_bind [OF vsafe_cur] vsafe_bind [OF vsafe_guard] vsafe_ret)
  have "vkeeps (?k v arr)" if "unat (sp vm - 2) < ARC_STACK_MAX" for v arr
  proof (rule vsafe_bind [OF vsafe_setcur])
    show "vm_wf (vm\<lparr>sp := sp vm - 2\<rparr>)" using wf that by (auto intro: vm_wf_sp)
  qed (auto intro!: vm_safe vm_safe [THEN vsafe_bind] split: option.split ArcObject.split ArcValue.split)
  then show "vkeeps (vbind (stack_at (sp vm - 1)) (\<lambda>v. vbind (stack_at (sp vm - 2)) (\<lambda>arr. ?k v arr)))"
    by (intro vsafe_bind [OF at])
qed

lemma vsafe_intr_keys: "vkeeps vm_intr_keys"
proof -
  have "vkeeps (heap_op (\<lambda>g. let (a, g) = arc_obj_array_new g n in
      andthen (foldl (\<lambda>r k. andthen r (\<lambda>g. arc_obj_array_push g a k)) (Ret g) ks) (\<lambda>g. Ret (a, g))))" for n ks
    by (rule vsafe_heap_op)
      (auto simp: andthen_Ret split_def Let_def intro: heap_ok_keys dest: heap_ok_new(2) [of _ n])
  then show ?thesis unfolding vm_intr_keys_def
    by (auto intro!: vm_safe vm_safe [THEN vsafe_bind] vsafe_bind split: option.split ArcObject.split)
qed

lemma vsafe_intr_env: "vkeeps vm_intr_input" "vkeeps (vm_intr_clock lc)"
proof -
  have new: "vkeeps (push_new (\<lambda>g. arc_obj_string_new g s))" for s by (rule vsafe_push_new) simp
  have wf: "world_wf w \<Longrightarrow> world_wf (w\<lparr>stdin_lines := ls\<rparr>)" "world_wf w \<Longrightarrow> world_wf (w\<lparr>clock_calls := n\<rparr>)" for w ls n
    by (simp_all add: world_wf_def)
  show "vkeeps vm_intr_input"
    unfolding vsafe_def vm_intr_input_def
    by (auto simp: Let_def split: list.split
        intro!: wf vsafe_step [OF _ vsafe_push] vsafe_step [OF _ new])
  show "vkeeps (vm_intr_clock lc)"
    unfolding vsafe_def vm_intr_clock_def by (auto intro!: wf vsafe_step [OF _ vsafe_push])
qed

lemma vsafe_intrinsic [vm_safe]: "vkeeps (vm_exec_intrinsic lc img)"
proof -
  have "vkeeps vm_intr_type"
    unfolding vm_intr_type_def
    by (rule vsafe_bind [OF vsafe_pop], rule vsafe_bind [where Q = "\<lambda>_. True"])
      (auto intro!: vsafe_steps vm_safe split: ArcValue.split)
  moreover have "vkeeps (vm_intr_tostring lc)" using vsafe_cast [of lc OP_CAST_STR] by (simp add: vm_intr_tostring_def vm_exec_cast_def)
  moreover have "vkeeps (vbind vm_pop (\<lambda>v. if \<not> arc_val_is_truthy v then vm_error ''assertion failed'' else vm_push VAL_NULL))"
    by (auto intro!: vm_safe vm_safe [THEN vsafe_bind])
  ultimately show ?thesis
    unfolding vm_exec_intrinsic_def expect_args_def vm_intr_len_def
    by (auto intro!: vm_safe vm_safe [THEN vsafe_bind] vsafe_intr_push vsafe_intr_keys vsafe_intr_env
        split: option.split ArcIntrinsicId.split)
qed

section \<open>Concurrency\<close>

lemma vm_wf_zero: "vm_wf zero_vm"
  by (simp add: vm_wf_def zero_vm_def)

lemma vm_wf_entry: "entry_vm vm fi fn args = Ret vm' \<Longrightarrow> vm_wf vm \<Longrightarrow> vm_wf vm'"
  by (auto simp: entry_vm_def vm_wf_def arc_max_defs not_less unsigned_ucast_eq le_trans [OF take_bit_nat_less_eq_self] split: if_splits)

lemma vsafe_record_error [vm_safe]: "vkeeps (vm_record_error i msg)"
  unfolding vm_record_error_def by (auto intro!: vsafe_steps simp: vm_wf_other)

lemma vsafe_push_on [vm_safe]: "vkeeps (push_on i v)"
  unfolding push_on_def by (auto intro!: vsafe_steps vm_safe vm_wf_push)

lemma vsafe_coro_status [vm_safe]: "vkeeps (set_coro_status a s)"
  unfolding set_coro_status_def by (auto intro!: vsafe_steps split: ArcObject.split)

lemma vsafe_enter [vm_safe]: "vkeeps (enter i)"
proof -
  have "vkeeps (\<lambda>w. VRet () (w\<lparr>ctx := i # ctx w\<rparr>))" by (simp add: vsafe_def world_wf_def)
  then show ?thesis unfolding enter_def by (auto intro!: vsafe_steps simp: vm_wf_other)
qed


lemma heap_ok_coroutine:
  assumes g: "heap_ok g" and e: "arc_obj_coroutine_new g img fi = Ret (a, g')"
  shows "heap_ok g'"
proof -
  obtain vm where vm: "vm_wf vm" "arc_gc_alloc g (sizeof_obj OBJ_COROUTINE) (ObjCoroutine vm CORO_READY) = (a, g')"
    using e vm_wf_zero by (auto simp: arc_obj_coroutine_new_def andthen_Ret simp del: sizeof_obj.simps split: if_splits
        dest: vm_wf_entry [OF _ vm_wf_zero])
  have "heap_ok (snd (arc_gc_alloc g (sizeof_obj OBJ_COROUTINE) (ObjCoroutine vm CORO_READY)))"
    using g vm(1) by (intro heap_ok_alloc) simp_all
  then show ?thesis using vm(2) by simp
qed

lemma vsafe_coro_new [vm_safe]: "vkeeps (vm_exec_coro_new img)"
proof -
  have "vkeeps (heap_op (\<lambda>g. arc_obj_coroutine_new g img fi))" for fi
    by (rule vsafe_heap_op) (rule heap_ok_coroutine)
  then show ?thesis unfolding vm_exec_coro_new_def
    by (auto intro!: vm_safe vm_safe [THEN vsafe_bind] vsafe_bind)
qed

lemma vsafe_coro_yield: "vkeeps vm_exec_coro_yield"
proof -
  have "vkeeps (\<lambda>w. VErr ARC_YIELD w)" by (simp add: vsafe_def)
  then show ?thesis unfolding vm_exec_coro_yield_def
    by (auto intro!: vsafe_bind [OF vsafe_modcur] vm_safe [THEN vsafe_bind] simp: vm_wf_other)
qed

lemma vsafe_push_result [vm_safe]: "vkeeps (vbind (vlift (arc_vm_result vm)) vm_push)"
  by (rule vsafe_bind [OF vsafe_lift [where Q = "\<lambda>_. True"]]) (auto intro: vsafe_push)

lemma vsafe_coro_after: "vkeeps (coro_after a st)"
  unfolding coro_after_def by (auto intro!: vsafe_steps vm_safe vm_safe [THEN vsafe_bind])

lemma vsafe_coro_resume [vm_safe]: "vkeeps vm_exec_coro_resume"
  unfolding vm_exec_coro_resume_def
  by (rule vsafe_pop2) (auto intro!: vm_safe vsafe_ret vm_safe [THEN vsafe_bind]
      vsafe_bind [where Q = "\<lambda>_. True"] split: option.split ArcObject.split ArcValue.split)

lemma vsafe_coro_status_op [vm_safe]: "vkeeps vm_exec_coro_status"
  unfolding vm_exec_coro_status_def
  by (auto intro!: vm_safe vm_safe [THEN vsafe_bind] split: option.split ArcObject.split)

lemma vsafe_pop_args [vm_safe]: "vkeeps (pop_args n acc)"
  by (induction n arbitrary: acc) (auto intro!: vsafe_ret vm_safe [THEN vsafe_bind])

lemma vsafe_thread_spawn [vm_safe]: "vkeeps (vm_exec_thread_spawn lc img)"
proof -
  have wf: "world_wf w \<Longrightarrow> world_wf (w\<lparr>spawned := as\<rparr>)" for w as by (simp add: world_wf_def)
  have fin: "vkeeps (\<lambda>w. if thread_create lc (length (spawned w)) then vm_push (VAL_OBJ a) (w\<lparr>spawned := spawned w @ [a]\<rparr>)
      else vm_error ''thread_spawn: failed to create thread'' w)" for a
    unfolding vsafe_def by (auto intro!: wf vsafe_step [OF _ vsafe_push] vsafe_step [OF _ vsafe_error])
  have entry: "vsafe (vlift (entry_vm (zero_vm\<lparr>out_stream := n\<rparr>) fi fn args)) vm_wf" for n fi fn args
    by (rule vsafe_lift) (rule vm_wf_entry, assumption, simp add: vm_wf_other vm_wf_zero)
  have new: "vkeeps (heap_new arc_obj_thread_new)" by (rule vsafe_heap_new) simp
  show ?thesis unfolding vm_exec_thread_spawn_def
    by (auto intro!: vm_safe [THEN vsafe_bind] vsafe_bind [OF new] vsafe_bind [OF entry] vsafe_bind [OF vsafe_cur]
        vsafe_bind [OF vsafe_modcur] vsafe_bind [OF vsafe_put] vsafe_error fin simp: vm_wf_other)
qed

lemma vsafe_heap_info: "vsafe heap heap_ok"
  by (simp add: vsafe_def heap_def world_wf_def)

lemma as_obj_ok: "heap_ok g \<Longrightarrow> as_obj g v = Some ob \<Longrightarrow> obj_ok ob"
  by (auto simp: heap_ok_def as_obj_def split: ArcValue.splits)

lemma obj_ok_thread: "obj_ok (ObjThread (Some vm) j) \<Longrightarrow> vm_wf vm"
  by simp

lemma vsafe_thread_join [vm_safe]: "vkeeps vm_exec_thread_join"
proof -
  have "vkeeps (\<lambda>w. if a \<notin> set (finished w) then VBlock
          else vbind (heap_op (\<lambda>g. Ret ((), heap_put g a (ObjThread (Some tvm) True))))
                 (\<lambda>_. vbind (vlift (arc_vm_result tvm)) vm_push) w)" if "vm_wf tvm" for a tvm
    unfolding vsafe_def using that
    by (auto intro!: vsafe_step [OF _ vsafe_bind [OF vsafe_put vsafe_push_result]])
  then show ?thesis unfolding vm_exec_thread_join_def
    by (auto intro!: vm_safe vsafe_bind [OF vsafe_pop] vsafe_bind [OF vsafe_heap_info] dest: as_obj_ok simp: as_obj_ok [THEN obj_ok_thread]
        split: option.split ArcObject.split ArcValue.split)
qed

lemma vsafe_mutex [vm_safe]: "vkeeps vm_exec_mutex_new" "vkeeps vm_exec_mutex_lock" "vkeeps vm_exec_mutex_unlock"
  unfolding vm_exec_mutex_new_def vm_exec_mutex_lock_def vm_exec_mutex_unlock_def
  by (auto intro!: vm_safe vsafe_put vm_safe [THEN vsafe_bind] split: option.split ArcObject.split ArcValue.split)

lemma vsafe_channel [vm_safe]: "vkeeps (vm_exec_chan_new img)" "vkeeps vm_exec_chan_send" "vkeeps vm_exec_chan_recv"
  unfolding vm_exec_chan_new_def vm_exec_chan_send_def vm_exec_chan_recv_def
  by (auto intro!: vm_safe vsafe_put vm_safe [THEN vsafe_bind] vsafe_bind [OF vsafe_put]
      split: option.split ArcObject.split ArcValue.split blocking.split prod.split bool.split)

lemma vsafe_concurrency [vm_safe]: "vkeeps (vm_exec_concurrency lc img op)"
  unfolding vm_exec_concurrency_def by (auto intro!: vm_safe vsafe_coro_yield)

section \<open>The dispatch loop\<close>

lemma vsafe_if: "vsafe m Q \<Longrightarrow> vsafe n Q \<Longrightarrow> vsafe (if b then m else n) Q"
  by simp

lemma vsafe_dispatch: "vkeeps (vm_dispatch lc img b i)"
proof (cases "opcode_of_byte b")
  case (Some op)
  show ?thesis unfolding vm_dispatch_def Some option.case
    by (intro vsafe_if vm_safe vsafe_modcur) (simp add: vm_wf_other)
qed (simp add: vm_dispatch_def)

lemma vsafe_round: "vkeeps (vm_round lc img)"
proof -
  have "vkeeps (if t then print_to n s else vret ())" for t n s by (auto intro: vsafe_ret vsafe_print_to)
  from vsafe_bind [OF this] show ?thesis unfolding vm_round_def
    by (auto intro!: vsafe_error vsafe_bind [OF vsafe_cur] vm_safe [THEN vsafe_bind] vsafe_dispatch simp del: if_split)
qed

end
