(* ===== verification/VM_Run.thy ===== *)
theory VM_Run
  imports VM_Safety
begin

text \<open>
  Executions of the virtual machine. \<open>os_step\<close> interleaves the OS threads of \<^verbatim>\<open>src/vm/vm_concurrency.c\<close> at
  the granularity of instructions: each thread has its own chain of active machines, starting with the
  machine that \<^verbatim>\<open>thread_entry\<close> runs, and all of them share the heap. The bounds invariant holds in every
  world such executions reach, and calls, returns, exceptions and arithmetic are shown to do what the
  opcodes mean.
\<close>

section \<open>Threads of the process\<close>

record process =
  shared :: world
  contexts :: "nat option list list"

text \<open>The chains of the threads that were started by the last round.\<close>

definition new_contexts :: "world \<Rightarrow> world \<Rightarrow> nat option list list" where
  "new_contexts w w' = map (\<lambda>a. [Some a]) (drop (length (spawned w)) (spawned w'))"

text \<open>\<^verbatim>\<open>thread_entry\<close> ends with its machine, whatever the status; the first context is the main thread.\<close>

definition thread_entry :: "nat option list \<Rightarrow> world \<Rightarrow> world" where
  "thread_entry c w = (case last c of None \<Rightarrow> w | Some a \<Rightarrow> w\<lparr>finished := finished w @ [a]\<rparr>)"

definition os_round :: "libc \<Rightarrow> ArcBytecodeImage \<Rightarrow> nat \<Rightarrow> process \<Rightarrow> process option" where
  "os_round lc img k p =
     (if k < length (contexts p) \<and> contexts p ! k \<noteq> [] then
        (let c = contexts p ! k; w = (shared p)\<lparr>ctx := c\<rparr> in
         case vm_step lc img w of
           Running w' \<Rightarrow> Some \<lparr>shared = w', contexts = (contexts p)[k := ctx w'] @ new_contexts w w'\<rparr>
         | Finished st w' \<Rightarrow> Some \<lparr>shared = thread_entry c w', contexts = (contexts p)[k := []]\<rparr>
         | _ \<Rightarrow> None)
      else None)"

text \<open>Executions in which no machine fails: a failing machine ends its thread, or its coroutine.\<close>

definition no_failure :: "libc \<Rightarrow> ArcBytecodeImage \<Rightarrow> nat \<Rightarrow> process \<Rightarrow> bool" where
  "no_failure lc img k p \<longleftrightarrow>
     (case vm_round lc img ((shared p)\<lparr>ctx := contexts p ! k\<rparr>) of VErr e _ \<Rightarrow> e = ARC_YIELD | _ \<Rightarrow> True)"

inductive os_reach :: "libc \<Rightarrow> ArcBytecodeImage \<Rightarrow> process \<Rightarrow> process \<Rightarrow> bool" for lc img where
  os_refl: "os_reach lc img p p"
| os_step: "os_reach lc img p q \<Longrightarrow> no_failure lc img k q \<Longrightarrow> os_round lc img k q = Some r \<Longrightarrow> os_reach lc img p r"

inductive_cases os_reachE: "os_reach lc img p q"

section \<open>The bounds invariant\<close>

lemma world_wf_ctx [simp]: "world_wf (w\<lparr>ctx := c\<rparr>) = world_wf w" "world_wf (w\<lparr>finished := f\<rparr>) = world_wf w"
  by (simp_all add: world_wf_def)

lemma world_wf_entry [simp]: "world_wf (thread_entry c w) = world_wf w"
  by (simp add: thread_entry_def split: option.split)

definition result_wf :: "run_state \<Rightarrow> bool" where
  "result_wf r \<longleftrightarrow> (case r of Running w \<Rightarrow> world_wf w | Finished st w \<Rightarrow> world_wf w | Blocked w \<Rightarrow> world_wf w | Broken \<Rightarrow> True)"

text \<open>Operations that keep the bounds whatever they end with: the code that runs after a coroutine's
  machine came back is of this kind.\<close>

definition no_err :: "'a vmM \<Rightarrow> bool" where
  "no_err m \<longleftrightarrow> (\<forall>w e w'. m w \<noteq> VErr e w')"

definition vstable :: "'a vmM \<Rightarrow> bool" where
  "vstable m \<longleftrightarrow> (\<forall>w. world_wf w \<longrightarrow> (case m w of VRet _ w' \<Rightarrow> world_wf w' | VErr _ w' \<Rightarrow> world_wf w' | _ \<Rightarrow> True))"

lemma vstable_bind:
  assumes "vsafe m Q" "no_err m" "\<And>x. Q x \<Longrightarrow> vstable (k x)"
  shows "vstable (vbind m k)"
  unfolding vstable_def
proof (intro allI impI)
  fix w assume w: "world_wf w"
  show "case vbind m k w of VRet _ w' \<Rightarrow> world_wf w' | VErr _ w' \<Rightarrow> world_wf w' | _ \<Rightarrow> True"
  proof (cases "m w")
    case (VRet x w1)
    with vsafeD [OF assms(1) w] assms(3) [of x] show ?thesis by (simp add: vstable_def vbind_def)
  qed (use assms(2) in \<open>auto simp: vbind_def no_err_def\<close>)
qed

lemma no_err_bind: "no_err m \<Longrightarrow> (\<And>x. no_err (k x)) \<Longrightarrow> no_err (vbind m k)"
  by (auto simp: no_err_def vbind_def split: vres.split)

lemma no_err_prims [simp]:
  "no_err (vret x)" "no_err vundef" "no_err (vguard b)" "no_err (vlift r)" "no_err me" "no_err (vm_of i)" "no_err (set_vm i vm)"
  "no_err (obj_at a)" "no_err (heap_op f)"
  by (auto simp: no_err_def vret_def vundef_def vguard_def vlift_def me_def vm_of_def set_vm_def obj_at_def heap_op_def
      split: outcome.splits list.splits option.splits)

lemma no_err_ops [simp]: "no_err cur" "no_err (setcur vm)" "no_err (vm_record_error i msg)" "no_err (set_coro_status a s)"
  by (auto simp: cur_def setcur_def vm_record_error_def set_coro_status_def intro!: no_err_bind split: ArcObject.split)

lemma vstable_noerr: "vkeeps m \<Longrightarrow> no_err m \<Longrightarrow> vstable m"
  by (auto simp: vstable_def no_err_def vsafe_def split: vres.split)

lemma vstable_fail: "vstable (\<lambda>w. VErr e w)"
  by (simp add: vstable_def)

lemma vstable_error: "vstable (vm_error msg)"
  unfolding vm_error_def
  by (intro vstable_bind [OF vsafe_me] vstable_bind [OF vsafe_record_error] vstable_fail) simp_all

lemma vstable_push: "vstable (vm_push v)"
  unfolding vm_push_def
  by (rule vstable_bind [OF vsafe_cur]) (auto intro!: vstable_error vstable_noerr vsafe_setcur vm_wf_push simp: not_le)

lemma vstable_coro_after: "vstable (coro_after a st)"
  unfolding coro_after_def
  by (auto intro!: vstable_bind [OF vsafe_vm_of] vstable_bind [OF vsafe_coro_status] vstable_push vstable_error
      vstable_bind [OF vsafe_lift [where Q = "\<lambda>_. True"]])

lemma unwind_wf: "world_wf w \<Longrightarrow> result_wf (unwind c st w)"
proof (induction c st w rule: unwind.induct)
  case (3 i p rest st w)
  show ?case
  proof (cases i)
    case (Some a)
    have "world_wf (w\<lparr>ctx := p # rest\<rparr>)" using "3.prems" by simp
    then have s: "case coro_after a st (w\<lparr>ctx := p # rest\<rparr>) of VRet _ w' \<Rightarrow> world_wf w' | VErr _ w' \<Rightarrow> world_wf w' | _ \<Rightarrow> True"
      using vstable_coro_after [of a st] by (simp only: vstable_def)
    show ?thesis
    proof (cases "coro_after a st (w\<lparr>ctx := p # rest\<rparr>)")
      case (VErr e w')
      with s have "world_wf w'" by simp
      from "3.IH" [OF Some VErr this] show ?thesis using Some VErr by simp
    qed (use s Some in \<open>simp_all add: result_wf_def\<close>)
  qed (simp add: result_wf_def)
qed (simp_all add: result_wf_def)

lemma vm_step_wf:
  assumes w: "world_wf w" and ok: "case vm_round lc img w of VErr e _ \<Rightarrow> e = ARC_YIELD | _ \<Rightarrow> True"
  shows "result_wf (vm_step lc img w)"
proof (cases "ctx w")
  case (Cons i rest)
  have "case vm_round lc img w of VRet _ w' \<Rightarrow> world_wf w' | VErr _ w' \<Rightarrow> world_wf w' | _ \<Rightarrow> True"
    using ok vsafe_step [OF w vsafe_round, of lc img] by (auto split: vres.splits)
  then show ?thesis using w unwind_wf Cons
    by (auto simp: vm_step_def result_wf_def split: option.split vres.splits)
qed (simp add: vm_step_def result_wf_def)

lemma os_round_wf: "world_wf (shared p) \<Longrightarrow> no_failure lc img k p \<Longrightarrow> os_round lc img k p = Some q \<Longrightarrow> world_wf (shared q)"
  using vm_step_wf [of "(shared p)\<lparr>ctx := contexts p ! k\<rparr>" lc img]
  by (auto simp: os_round_def no_failure_def result_wf_def Let_def split: if_splits run_state.splits)

section \<open>Symbolic execution\<close>

text \<open>The machine that executes, and the world with that machine replaced.\<close>

definition now :: "world \<Rightarrow> ArcVm option" where
  "now w = (case ctx w of [] \<Rightarrow> None | i # _ \<Rightarrow> get_vm w i)"

definition upd :: "world \<Rightarrow> ArcVm \<Rightarrow> world" where
  "upd w vm = put_vm w (hd (ctx w)) vm"

text \<open>The operand stack, bottom first.\<close>

definition operands :: "ArcVm \<Rightarrow> ArcValue list" where
  "operands vm = take (unat (sp vm)) (stack vm)"

lemma heap_put_put: "heap_put (heap_put g a x) a y = heap_put g a y"
  by (cases "a < length (mem g)") (simp_all add: heap_put_def option.map_comp comp_def split_def list_update_beyond)

lemma put_same: "heap_get (gc w) a = Some ob \<Longrightarrow> w\<lparr>gc := heap_put (gc w) a ob\<rparr> = w"
  by (auto simp: heap_put_def cell_obj_def intro!: world.equality ArcGC.equality split: if_splits option.splits)
    (metis list_update_id)

lemma put_vm_put_vm: "get_vm w i \<noteq> None \<Longrightarrow> put_vm (put_vm w i a) i b = put_vm w i b"
  by (auto simp: put_vm_def get_vm_def heap_get_put heap_put_put split: option.splits ArcObject.splits)

lemma ctx_upd [simp]: "ctx (upd w vm) = ctx w"
  by (simp add: upd_def put_vm_def split: option.splits ArcObject.splits)

lemma now_upd [simp]: "now w \<noteq> None \<Longrightarrow> now (upd w vm) = Some vm"
  unfolding now_def upd_def
  by (cases "ctx w") (auto simp: get_vm_def put_vm_def heap_get_put split: option.splits ArcObject.splits)

lemma upd_upd [simp]: "now w \<noteq> None \<Longrightarrow> upd (upd w a) b = upd w b"
  using put_vm_put_vm [of w "hd (ctx w)" a b] ctx_upd [of w a] by (cases "ctx w") (simp_all add: now_def upd_def)

lemma run_cur: "now w = Some vm \<Longrightarrow> cur w = VRet vm w"
  by (auto simp: now_def cur_def vbind_def me_def vm_of_def split: list.splits)

lemma run_setcur: "now w = Some vm \<Longrightarrow> setcur vm' w = VRet () (upd w vm')"
  by (auto simp: now_def setcur_def vbind_def me_def set_vm_def upd_def split: list.splits)

lemma run_undef [simp]: "vundef w = VUndef"
  by (simp add: vundef_def)

lemma run_bind: "m w = VRet x w' \<Longrightarrow> vbind m k w = k x w'"
  by (simp add: vbind_def)

lemma run_modcur: "now w = Some vm \<Longrightarrow> modcur f w = VRet () (upd w (f vm))"
  by (simp add: modcur_def vbind_def run_cur run_setcur)

lemma run_push: "now w = Some vm \<Longrightarrow> unat (sp vm) < ARC_STACK_MAX \<Longrightarrow>
  vm_push v w = VRet () (upd w (vm\<lparr>stack := (stack vm)[unat (sp vm) := v], sp := sp vm + 1\<rparr>))"
  by (simp add: vm_push_def vbind_def run_cur run_setcur)

lemma run_pop: "now w = Some vm \<Longrightarrow> sp vm \<noteq> 0 \<Longrightarrow> unat (sp vm) \<le> ARC_STACK_MAX \<Longrightarrow>
  vm_pop w = VRet (stack vm ! (unat (sp vm) - 1)) (upd w (vm\<lparr>sp := sp vm - 1\<rparr>))"
  by (simp add: vm_pop_def vbind_def run_cur run_setcur vguard_def vret_def unat_minus_one)

lemma run_error:
  assumes "now w = Some vm" "unat (fp vm) \<le> ARC_FRAMES_MAX"
  shows "\<exists>w' vm'. vm_error msg w = VErr ARC_ERR_RUNTIME w' \<and> now w' = Some vm' \<and>
    err_message (error vm') = take 255 msg"
proof -
  obtain i rest where i: "ctx w = i # rest" "get_vm w i = Some vm" using assms(1) by (auto simp: now_def split: list.splits)
  have u: "put_vm w i = upd w" using i(1) by (simp add: upd_def fun_eq_iff)
  show ?thesis using assms i(2)
    by (simp add: vm_error_def vm_record_error_def vbind_def me_def i(1) vm_of_def vguard_def vret_def set_vm_def u)
qed

lemma length_operands: "vm_wf vm \<Longrightarrow> length (operands vm) = unat (sp vm)"
  by (simp add: operands_def vm_wf_def)

lemma operands_snoc:
  assumes "vm_wf vm" "operands vm = xs @ [v]"
  shows "sp vm \<noteq> 0" "unat (sp vm) = Suc (length xs)" "stack vm ! length xs = v" "unat (sp vm) \<le> ARC_STACK_MAX"
    "operands (vm\<lparr>sp := sp vm - 1\<rparr>) = xs" "unat (sp vm - 1) = length xs"
proof -
  show n: "unat (sp vm) = Suc (length xs)" using length_operands [OF assms(1)] assms(2) by simp
  then show z: "sp vm \<noteq> 0" by auto
  then show u: "unat (sp vm - 1) = length xs" using n by (simp add: unat_minus_one)
  show "unat (sp vm) \<le> ARC_STACK_MAX" using assms(1) by (simp add: vm_wf_def)
  then have l: "length xs < length (stack vm)" using n assms(1) by (simp add: vm_wf_def)
  have t: "take (Suc (length xs)) (stack vm) = xs @ [v]" using assms(2) n by (simp add: operands_def)
  then show "stack vm ! length xs = v" using l by (metis lessI nth_append_length nth_take)
  show "operands (vm\<lparr>sp := sp vm - 1\<rparr>) = xs" using t u l by (simp add: operands_def take_Suc_conv_app_nth)
qed

lemma run_pop_snoc:
  assumes "now w = Some vm" "vm_wf vm" "operands vm = xs @ [v]"
  shows "vm_pop w = VRet v (upd w (vm\<lparr>sp := sp vm - 1\<rparr>))"
  using run_pop [OF assms(1)] operands_snoc [OF assms(2,3)] by simp

lemma run_push_operands:
  assumes "vm_wf vm" "length (operands vm) < ARC_STACK_MAX"
  shows "operands (vm\<lparr>stack := (stack vm)[unat (sp vm) := v], sp := sp vm + 1\<rparr>) = operands vm @ [v]"
proof -
  have "unat (sp vm) < ARC_STACK_MAX" "length (stack vm) = ARC_STACK_MAX" using assms by (auto simp: operands_def vm_wf_def)
  moreover from this have "unat (sp vm + 1) = Suc (unat (sp vm))" by (simp add: unat_word_ariths arc_max_defs)
  ultimately show ?thesis by (simp add: operands_def take_Suc_conv_app_nth)
qed

lemma run_round:
  "now w = Some vm \<Longrightarrow> \<not> trace vm \<Longrightarrow> unat (ip vm) < length (img_code img) \<Longrightarrow>
    vm_round lc img w = vm_dispatch lc img (img_code img ! unat (ip vm)) (ip vm) (upd w (vm\<lparr>ip := ip vm + 1\<rparr>))"
  by (simp add: vm_round_def vm_read_byte_def vbind_def run_cur run_setcur vguard_def vret_def)

lemma run_step:
  assumes "now w = Some vm" "\<not> halted vm"
  shows "vm_round lc img w = VRet () w' \<Longrightarrow> vm_step lc img w = Running w'"
    "vm_round lc img w = VUndef \<Longrightarrow> vm_step lc img w = Broken"
  using assms by (auto simp: vm_step_def now_def split: list.splits)

section \<open>Arithmetic\<close>

lemma run_pop2:
  assumes w: "now w = Some vm" "vm_wf vm" "operands vm = xs @ [a, b]"
  shows "pop2 k w = k a b (upd w (vm\<lparr>sp := sp vm - 2\<rparr>))"
proof -
  let ?v = "vm\<lparr>sp := sp vm - 1\<rparr>"
  have e: "operands vm = (xs @ [a]) @ [b]" using w(3) by simp
  have v: "vm_wf ?v" "operands ?v = xs @ [a]"
    using operands_snoc [OF w(2) e] w(2) by (auto intro!: vm_wf_sp simp: vm_wf_def)
  have "vm_pop (upd w ?v) = VRet a (upd w (vm\<lparr>sp := sp vm - 2\<rparr>))"
    using run_pop_snoc [OF _ v, of "upd w ?v"] w(1) by (simp add: algebra_simps)
  then show ?thesis using run_pop_snoc [OF w(1,2) e] by (simp add: pop2_def vbind_def)
qed

text \<open>What the integer operators compute: no result outside the 64-bit range.\<close>

fun int_op :: "ArcOpcode \<Rightarrow> int \<Rightarrow> int \<Rightarrow> int" where
  "int_op OP_ADD x y = x + y"
| "int_op OP_SUB x y = x - y"
| "int_op OP_MUL x y = x * y"
| "int_op OP_DIV x y = x sdiv y"
| "int_op OP_MOD x y = x smod y"
| "int_op _ x y = 0"

definition in_i64 :: "int \<Rightarrow> bool" where
  "in_i64 r \<longleftrightarrow> - (2 ^ 63) \<le> r \<and> r < 2 ^ 63"

lemma sint_of_int_i64: "in_i64 r \<Longrightarrow> sint (of_int r :: i64) = r"
  by (simp add: in_i64_def signed_of_int signed_take_bit_int_eq_self)

lemma smod_in_i64: "in_i64 x \<Longrightarrow> in_i64 (x smod y)"
proof -
  assume x: "in_i64 x"
  have "\<bar>x\<bar> mod \<bar>y\<bar> \<le> \<bar>x\<bar>" by (cases "y = 0") (simp_all add: zmod_le_nonneg_dividend)
  moreover have "0 \<le> \<bar>x\<bar> mod \<bar>y\<bar>" by (cases "y = 0") simp_all
  ultimately show ?thesis using x by (auto simp: in_i64_def signed_modulo_int_def sgn_if)
qed

lemma sint_in_i64: "in_i64 (sint (x :: i64))"
  using sint_range_size [of x] by (simp add: in_i64_def word_size)

text \<open>The room two popped operands leave is enough for the result.\<close>

lemma run_push_i64:
  assumes w: "now w = Some vm" "vm_wf vm" "operands vm = xs @ [a, b]" and r: "in_i64 r"
  shows "\<exists>vm'. push_i64 r (upd w (vm\<lparr>sp := sp vm - 2\<rparr>)) = VRet () (upd w vm') \<and>
    operands vm' = xs @ [VAL_I64 (of_int r)] \<and> vm' = vm\<lparr>stack := stack vm', sp := sp vm'\<rparr>"
proof -
  let ?v = "vm\<lparr>sp := sp vm - 2\<rparr>" and ?u = "vm\<lparr>sp := sp vm - 1\<rparr>"
  have e: "operands vm = (xs @ [a]) @ [b]" using w(3) by simp
  note o1 = operands_snoc [OF w(2) e]
  have u: "vm_wf ?u" using o1 w(2) by (auto intro!: vm_wf_sp simp: vm_wf_def)
  note o2 = operands_snoc [OF u o1(5)]
  have v: "vm_wf ?v" using o1 o2 w(2) by (auto intro!: vm_wf_sp simp: vm_wf_def algebra_simps)
  have xs: "operands ?v = xs" "unat (sp ?v) < ARC_STACK_MAX" using o2 o1 by (simp_all add: algebra_simps)
  have "length (operands ?v) < ARC_STACK_MAX" using o1 xs(1) by simp
  from run_push_operands [OF v this] xs(1) r show ?thesis
    using run_push [OF _ xs(2), of "upd w ?v"] w(1)
    by (intro exI [of _ "?v\<lparr>stack := (stack ?v)[unat (sp ?v) := VAL_I64 (of_int r)], sp := sp ?v + 1\<rparr>"])
      (simp add: push_i64_def i64_result_def in_i64_def)
qed

text \<open>C15. Integer arithmetic. With two integers on top of the operand stack, \<^verbatim>\<open>ADD\<close>, \<^verbatim>\<open>SUB\<close>, \<^verbatim>\<open>MUL\<close>, \<^verbatim>\<open>DIV\<close> and
  \<^verbatim>\<open>MOD\<close> replace them by the mathematical result (truncating division and its remainder) and change
  nothing else of the machine, whenever the result, for \<^verbatim>\<open>MOD\<close> the quotient, fits in 64 bits; a zero
  divisor is a runtime error with its message; what does not fit is undefined behaviour of the C code.\<close>

theorem vm_int_arith:
  assumes w: "now w = Some vm" "vm_wf vm" "operands vm = xs @ [VAL_I64 x, VAL_I64 y]"
    and op: "op \<in> {OP_ADD, OP_SUB, OP_MUL, OP_DIV, OP_MOD}"
  shows "if op \<in> {OP_DIV, OP_MOD} \<and> y = 0
    then \<exists>w' vm'. vm_exec_arithmetic op w = VErr ARC_ERR_RUNTIME w' \<and> now w' = Some vm' \<and>
           err_message (error vm') = (if op = OP_DIV then ''division by zero'' else ''modulo by zero'')
    else if in_i64 (int_op (if op = OP_MOD then OP_DIV else op) (sint x) (sint y))
    then \<exists>vm' r. vm_exec_arithmetic op w = VRet () (upd w vm') \<and> operands vm' = xs @ [VAL_I64 r] \<and>
           sint r = int_op op (sint x) (sint y) \<and> vm' = vm\<lparr>stack := stack vm', sp := sp vm'\<rparr>
    else vm_exec_arithmetic op w = VUndef"
proof -
  let ?v = "vm\<lparr>sp := sp vm - 2\<rparr>"
  note p = run_pop2 [OF w]
  have fits: "\<exists>vm' z. push_i64 r (upd w ?v) = VRet () (upd w vm') \<and> operands vm' = xs @ [VAL_I64 z] \<and>
      sint z = r \<and> vm' = vm\<lparr>stack := stack vm', sp := sp vm'\<rparr>" if "in_i64 r" for r
    using run_push_i64 [OF w that] sint_of_int_i64 [OF that] by metis
  have out: "push_i64 r (upd w ?v) = VUndef" if "\<not> in_i64 r" for r
    using that by (auto simp: push_i64_def i64_result_def in_i64_def)
  have fail: "\<exists>w' vm'. vm_error msg (upd w ?v) = VErr ARC_ERR_RUNTIME w' \<and> now w' = Some vm' \<and> err_message (error vm') = msg"
    if "length msg \<le> 255" for msg
    using run_error [of "upd w ?v" ?v msg] w that by (simp add: vm_wf_def)
  consider "op = OP_ADD" | "op = OP_SUB" | "op = OP_MUL" | "op = OP_DIV" | "op = OP_MOD" using op by blast
  then show ?thesis
  proof cases
    case 4
    then show ?thesis using fits out fail [of "''division by zero''"]
      by (auto simp: vm_exec_arithmetic_def p vm_div_def)
  next
    case 5
    then show ?thesis using fits [OF smod_in_i64 [OF sint_in_i64]] out fail [of "''modulo by zero''"]
      by (auto simp: vm_exec_arithmetic_def p vm_mod_def i64_result_def in_i64_def)
  qed (use fits out in \<open>simp_all add: vm_exec_arithmetic_def p vm_add_def arith2_def\<close>)
qed

text \<open>A world whose main machine has \<open>n\<close> operands.\<close>

definition demo_world :: "ArcValue list \<Rightarrow> world" where
  "demo_world vs = \<lparr>gc = arc_gc_create,
     main_vm = zero_vm\<lparr>stack := vs @ drop (length vs) (stack zero_vm), sp := of_nat (length vs), fp := 1\<rparr>,
     ctx = [None], streams = (\<lambda>_. []), stdin_lines = [], clock_calls = 0, spawned = [], finished = []\<rparr>"

lemma now_demo: "now (demo_world vs) = Some (main_vm (demo_world vs))"
  by (simp add: now_def demo_world_def get_vm_def)

lemma demo_wf: "length vs \<le> ARC_STACK_MAX \<Longrightarrow> vm_wf (main_vm (demo_world vs))"
  by (simp add: vm_wf_def demo_world_def zero_vm_def arc_max_defs unsigned_of_nat take_bit_nat_eq_self)

lemma demo_operands: "length vs \<le> ARC_STACK_MAX \<Longrightarrow> operands (main_vm (demo_world vs)) = vs"
  by (simp add: operands_def demo_world_def zero_vm_def arc_max_defs unsigned_of_nat take_bit_nat_eq_self)

lemmas demo_facts = now_demo demo_wf demo_operands

theorem vm_int_arith_witness:
  "\<exists>vm' r. vm_exec_arithmetic OP_DIV (demo_world [VAL_NULL, VAL_I64 (- 7), VAL_I64 2]) =
       VRet () (upd (demo_world [VAL_NULL, VAL_I64 (- 7), VAL_I64 2]) vm') \<and>
     operands vm' = [VAL_NULL, VAL_I64 r] \<and> sint r = - 3"
proof -
  let ?vs = "[VAL_NULL, VAL_I64 (- 7), VAL_I64 2]"
  have l: "length ?vs \<le> ARC_STACK_MAX" by (simp add: arc_max_defs)
  show ?thesis
    using vm_int_arith [of "demo_world ?vs" _ "[VAL_NULL]" "- 7" 2 OP_DIV, OF now_demo demo_wf [OF l]] demo_operands [OF l]
    by (auto simp: in_i64_def)
qed

section \<open>Calls and returns\<close>

text \<open>Two machines that differ at most in their operand stack.\<close>

definition same_but_stack :: "ArcVm \<Rightarrow> ArcVm \<Rightarrow> bool" where
  "same_but_stack vm vm' \<longleftrightarrow> vm' = vm\<lparr>stack := stack vm', sp := sp vm'\<rparr>"

lemma same_but_stack_trans: "same_but_stack a b \<Longrightarrow> same_but_stack b c \<Longrightarrow> same_but_stack a c"
  unfolding same_but_stack_def by (cases a, cases b, cases c) simp

lemma same_but_stackD:
  "same_but_stack vm vm' \<Longrightarrow> frames vm' = frames vm \<and> fp vm' = fp vm \<and> ip vm' = ip vm \<and> globals vm' = globals vm \<and>
    global_count vm' = global_count vm \<and> handlers vm' = handlers vm \<and> handler_count vm' = handler_count vm \<and>
    open_upvalues vm' = open_upvalues vm \<and> halted vm' = halted vm"
  unfolding same_but_stack_def by (cases vm, cases vm') simp

lemma run_push_wf:
  assumes "now w = Some vm" "vm_wf vm" "length (operands vm) < ARC_STACK_MAX"
  shows "\<exists>vm'. vm_push v w = VRet () (upd w vm') \<and> vm_wf vm' \<and> operands vm' = operands vm @ [v] \<and> same_but_stack vm vm'"
proof -
  have "unat (sp vm) < ARC_STACK_MAX" using assms(2,3) by (auto simp: operands_def vm_wf_def)
  from run_push [OF assms(1) this] vm_wf_push [OF assms(2) this] run_push_operands [OF assms(2,3)]
  show ?thesis by (intro exI conjI) (auto simp: same_but_stack_def)
qed

lemma run_push_nulls:
  "now w = Some vm \<Longrightarrow> vm_wf vm \<Longrightarrow> length (operands vm) + n \<le> ARC_STACK_MAX \<Longrightarrow>
    \<exists>vm'. push_nulls n w = VRet () (upd w vm') \<and> vm_wf vm' \<and>
      operands vm' = operands vm @ replicate n VAL_NULL \<and> same_but_stack vm vm'"
proof (induction n arbitrary: w vm)
  case 0
  obtain i rest where "ctx w = i # rest" "get_vm w i = Some vm" using 0(1) by (auto simp: now_def split: list.splits)
  then have "upd w vm = w"
    by (auto simp: upd_def put_vm_def get_vm_def intro!: put_same split: option.splits ArcObject.splits)
  then show ?case using 0 by (auto simp: vret_def same_but_stack_def intro!: exI [of _ vm])
next
  case (Suc n)
  from run_push_wf [OF Suc.prems(1,2), of VAL_NULL] Suc.prems(3)
  obtain v1 where 1: "vm_push VAL_NULL w = VRet () (upd w v1)" "vm_wf v1" "operands v1 = operands vm @ [VAL_NULL]"
    "same_but_stack vm v1" by auto
  have "now (upd w v1) = Some v1" using Suc.prems(1) by simp
  from Suc.IH [OF this 1(2)] 1(3) Suc.prems(3) obtain v2 where
    "push_nulls n (upd w v1) = VRet () (upd (upd w v1) v2)" "vm_wf v2"
    "operands v2 = (operands vm @ [VAL_NULL]) @ replicate n VAL_NULL" "same_but_stack v1 v2" by auto
  then show ?case using 1 Suc.prems(1)
    by (intro exI [of _ v2]) (auto simp: vbind_def intro: same_but_stack_trans)
qed

text \<open>A \<^verbatim>\<open>CALL\<close> instruction at the machine's instruction pointer (past its opcode).\<close>

definition call_at :: "ArcBytecodeImage \<Rightarrow> ArcVm \<Rightarrow> u16 \<Rightarrow> u8 \<Rightarrow> bool" where
  "call_at img vm fi argc \<longleftrightarrow>
     unat (ip vm) + 4 \<le> length (img_code img) \<and> length (img_code img) < 2 ^ 32 \<and>
     arc_read_u16 (img_code img) (unat (ip vm)) = fi \<and> img_code img ! (unat (ip vm) + 2) = argc"

lemma run_call_operands:
  assumes "now w = Some vm" "call_at img vm fi argc"
  shows "vbind (vm_read_u16 img) (\<lambda>f. vbind (vm_read_byte img) (\<lambda>a. vbind (vm_read_byte img) (\<lambda>_. k f a))) w =
    k fi argc (upd w (vm\<lparr>ip := ip vm + 4\<rparr>))"
proof -
  have "unat (ip vm + 2) = unat (ip vm) + 2" "unat (ip vm + 3) = unat (ip vm) + 3"
    using assms(2) by (auto simp: call_at_def unat_word_ariths)
  then show ?thesis using assms
    by (simp add: vm_read_u16_def vm_read_byte_def vbind_def run_cur run_setcur vguard_def vret_def call_at_def algebra_simps)
qed

lemma vm_call_enters:
  assumes w: "now w = Some vm" "vm_wf vm" "call_at img vm fi argc" "operands vm = xs @ args" "length args = unat argc"
    and f: "fi \<noteq> 0xFFFF" "unat fi < length (items (img_functions img))" "callee = items (img_functions img) ! unat fi"
      "arity callee = argc" "unat (fp vm) < ARC_FRAMES_MAX"
      "length xs + max (unat argc) (unat (local_count callee)) \<le> ARC_STACK_MAX"
  shows "\<exists>vm1. vm_exec_call img w = VRet () (upd w vm1) \<and> vm_wf vm1 \<and>
    operands vm1 = xs @ args @ replicate (unat (local_count callee) - unat argc) VAL_NULL \<and>
    ip vm1 = code_offset callee \<and> fp vm1 = fp vm + 1 \<and>
    frames vm1 = (frames vm)[unat (fp vm) := \<lparr>fr_func_idx = fi, return_ip = ip vm + 4, base_slot = of_nat (length xs)\<rparr>] \<and>
    handlers vm1 = handlers vm \<and> handler_count vm1 = handler_count vm \<and> globals vm1 = globals vm"
proof -
  let ?fr = "\<lparr>fr_func_idx = fi, return_ip = ip vm + 4, base_slot = sp vm - ucast argc\<rparr>"
  let ?v = "vm\<lparr>ip := ip vm + 4, frames := (frames vm)[unat (fp vm) := ?fr], fp := fp vm + 1\<rparr>"
  have wf: "vm_wf ?v" using w(2) f(5) by (simp add: vm_wf_def unat_word_ariths arc_max_defs)
  have o: "operands ?v = xs @ args" using w(4) by (simp add: operands_def)
  have n: "now (upd w ?v) = Some ?v" using w(1) by simp
  have "length (operands ?v) + (unat (local_count callee) - unat argc) \<le> ARC_STACK_MAX"
    unfolding o using f(6) w(5) by (simp add: max_def split: if_splits)
  from run_push_nulls [OF n wf this] o obtain v2 where 2: "push_nulls (unat (local_count callee) - unat argc) (upd w ?v) = VRet () (upd w v2)" "vm_wf v2"
    "operands v2 = xs @ args @ replicate (unat (local_count callee) - unat argc) VAL_NULL" "same_but_stack ?v v2"
    using w(1) by auto
  have "unat (sp vm) = length xs + unat argc"
    using length_operands [OF w(2)] w(4,5) by simp
  then have "sp vm = of_nat (length xs) + ucast argc" 
    by (metis Word.of_nat_unat of_nat_add ucast_id)
  then have base: "sp vm - ucast argc = of_nat (length xs)" by simp
  have "vm_exec_call img w = VRet () (upd w (v2\<lparr>ip := code_offset callee\<rparr>))"
    unfolding vm_exec_call_def run_call_operands [OF w(1,3)]
    using 2(1) w(1) f by (simp add: resolve_callee_def vbind_def run_cur vret_def run_setcur run_modcur not_le Let_def)
  moreover have "vm_wf (v2\<lparr>ip := code_offset callee\<rparr>)" "operands (v2\<lparr>ip := code_offset callee\<rparr>) = operands v2"
    using 2(2) by (simp_all add: vm_wf_other operands_def)
  ultimately show ?thesis using 2(3) same_but_stackD [OF 2(4)] base
    by (intro exI [of _ "v2\<lparr>ip := code_offset callee\<rparr>"]) simp
qed

lemma vm_return_leaves:
  assumes w: "now w = Some vm" "vm_wf vm" "operands vm = ys @ [r]" "open_upvalues vm = []"
    and f: "1 < unat (fp vm)" "frames vm ! (unat (fp vm) - 1) = \<lparr>fr_func_idx = fi, return_ip = ri, base_slot = of_nat (length xs)\<rparr>"
      "take (length xs) (stack vm) = xs" "length xs < ARC_STACK_MAX"
  shows "\<exists>vm'. vm_exec_return w = VRet () (upd w vm') \<and> vm_wf vm' \<and> operands vm' = xs @ [r] \<and> ip vm' = ri \<and>
    fp vm' = fp vm - 1 \<and> frames vm' = frames vm"
proof -
  let ?v = "vm\<lparr>sp := sp vm - 1\<rparr>"
  let ?u = "vm\<lparr>fp := fp vm - 1, sp := of_nat (length xs), ip := ri\<rparr>"
  have pop: "vm_pop w = VRet r (upd w ?v)" by (rule run_pop_snoc [OF w(1-3)])
  have base: "unat (of_nat (length xs) :: u32) = length xs"
    using f(4) by (simp add: unsigned_of_nat take_bit_nat_eq_self arc_max_defs)
  have nz: "fp vm \<noteq> 0" using f(1) by auto
  have fp: "unat (fp vm - 1) = unat (fp vm) - 1" "unat (fp vm) - 1 < ARC_FRAMES_MAX" "fp vm \<noteq> 0" "fp vm - 1 \<noteq> 0"
    using f(1) w(2) nz by (auto simp: unat_minus_one [OF nz] vm_wf_def)
  have top: "top_frame (upd w ?v) = VRet \<lparr>fr_func_idx = fi, return_ip = ri, base_slot = of_nat (length xs)\<rparr> (upd w ?v)"
    using w(1) fp f(2) by (simp add: top_frame_def vbind_def run_cur vguard_def vret_def)
  have close: "close_from (of_nat (length xs)) (upd w ?v) = VRet () (upd w ?v)"
  proof -
    obtain i rest where i: "ctx w = i # rest" using w(1) by (auto simp: now_def split: list.splits)
    have e: "upd w (vm\<lparr>sp := sp vm - 1, open_upvalues := []\<rparr>) = upd w ?v"
      by (rule arg_cong [of _ _ "upd w"]) (cases vm, use w(4) in simp)
    show ?thesis using w(1,4) base f(4) i
      by (simp add: close_from_def vbind_def vguard_def vret_def me_def run_cur run_modcur e)
  qed
  have u: "vm_wf ?u" "operands ?u = xs" using w(2) fp f(3,4) base by (auto simp: vm_wf_def operands_def)
  have "now (upd w ?u) = Some ?u" using w(1) by simp
  from run_push_wf [OF this u(1)] u(2) f(4) obtain vm' where
    "vm_push r (upd w ?u) = VRet () (upd w vm')" "vm_wf vm'" "operands vm' = xs @ [r]" "same_but_stack ?u vm'"
    using w(1) by auto
  moreover have "setcur (vm\<lparr>fp := fp vm - 1, sp := of_nat (length xs), ip := ri\<rparr>) (upd w ?v) = VRet () (upd w ?u)"
    using w(1) run_setcur [of "upd w ?v" ?v] by simp
  ultimately show ?thesis using pop top close w(1) fp same_but_stackD [of ?u vm']
    by (intro exI [of _ vm']) (simp add: vm_exec_return_def vbind_def run_cur vguard_def vret_def)
qed

text \<open>C5. Calls and returns match. A \<^verbatim>\<open>CALL\<close> of a function with the right number of arguments and room for its
  frame enters it with the arguments as its first locals, the other locals null and a new frame on top.
  A \<^verbatim>\<open>RETURN\<close> executed later in that frame, with the value \<open>r\<close> on top of the stack and the part of the
  stack below the frame as it was, comes back behind the call with the arguments replaced by \<open>r\<close>, whatever else the
  callee left on the stack.\<close>

theorem vm_call_return:
  assumes w: "now w = Some vm" "vm_wf vm" "call_at img vm fi argc" "operands vm = xs @ args" "length args = unat argc"
    and f: "fi \<noteq> 0xFFFF" "unat fi < length (items (img_functions img))" "callee = items (img_functions img) ! unat fi"
      "arity callee = argc" "0 < unat (fp vm)" "unat (fp vm) < ARC_FRAMES_MAX"
      "length xs + max (unat argc) (unat (local_count callee)) \<le> ARC_STACK_MAX"
  shows "\<exists>vm1. vm_exec_call img w = VRet () (upd w vm1) \<and> vm_wf vm1 \<and>
    operands vm1 = xs @ args @ replicate (unat (local_count callee) - unat argc) VAL_NULL \<and>
    ip vm1 = code_offset callee \<and> fp vm1 = fp vm + 1 \<and>
    (\<forall>w2 vm2 ys r. now w2 = Some vm2 \<and> vm_wf vm2 \<and> fp vm2 = fp vm1 \<and> open_upvalues vm2 = [] \<and>
       take (unat (fp vm2)) (frames vm2) = take (unat (fp vm2)) (frames vm1) \<and>
       take (length xs) (stack vm2) = xs \<and> length xs < ARC_STACK_MAX \<and> operands vm2 = ys @ [r] \<longrightarrow>
       (\<exists>vm3. vm_exec_return w2 = VRet () (upd w2 vm3) \<and> vm_wf vm3 \<and> operands vm3 = xs @ [r] \<and>
          ip vm3 = ip vm + 4 \<and> fp vm3 = fp vm))"
proof -
  let ?fr = "\<lparr>fr_func_idx = fi, return_ip = ip vm + 4, base_slot = of_nat (length xs)\<rparr>"
  obtain vm1 where 1: "vm_exec_call img w = VRet () (upd w vm1)" "vm_wf vm1"
      "operands vm1 = xs @ args @ replicate (unat (local_count callee) - unat argc) VAL_NULL"
      "ip vm1 = code_offset callee" "fp vm1 = fp vm + 1" "frames vm1 = (frames vm)[unat (fp vm) := ?fr]"
    using vm_call_enters [OF w f(1-4) f(6,7)] by blast
  have n: "unat (fp vm + 1) = Suc (unat (fp vm))" using f(6) by (simp add: unat_word_ariths arc_max_defs)
  have l: "unat (fp vm) < length (frames vm)" using f(6) w(2) by (simp add: vm_wf_def)
  have ret: "\<exists>vm3. vm_exec_return w2 = VRet () (upd w2 vm3) \<and> vm_wf vm3 \<and> operands vm3 = xs @ [r] \<and>
          ip vm3 = ip vm + 4 \<and> fp vm3 = fp vm"
    if 2: "now w2 = Some vm2" "vm_wf vm2" "fp vm2 = fp vm1" "open_upvalues vm2 = []"
      "take (unat (fp vm2)) (frames vm2) = take (unat (fp vm2)) (frames vm1)"
      "take (length xs) (stack vm2) = xs" "length xs < ARC_STACK_MAX" "operands vm2 = ys @ [r]" for w2 vm2 ys r
  proof -
    have "frames vm2 ! (unat (fp vm2) - 1) = take (unat (fp vm2)) (frames vm1) ! (unat (fp vm2) - 1)"
      using arg_cong [OF 2(5), of "\<lambda>l. l ! (unat (fp vm2) - 1)"] 2(3) 1(5) n by simp
    then have "frames vm2 ! (unat (fp vm2) - 1) = ?fr" using 2(3) 1(5,6) n l by simp
    moreover have "1 < unat (fp vm2)" using 2(3) 1(5) n f(5) by simp
    ultimately show ?thesis using vm_return_leaves [OF 2(1,2,8,4) _ _ 2(6,7)] 2(3) 1(5) by fastforce
  qed
  show ?thesis using 1(1-5) ret by (intro exI [of _ vm1]) blast
qed

section \<open>Exceptions\<close>

lemma handlers_take:
  "vm_wf vm \<Longrightarrow> unat (handler_count vm) = Suc n \<Longrightarrow> h \<in> set (take n (handlers vm)) \<Longrightarrow>
    unat (stack_height h) \<le> ARC_STACK_MAX \<and> unat (frame_depth h) \<le> ARC_FRAMES_MAX"
  by (auto simp: vm_wf_def dest: in_set_takeD) (meson lessI order_less_imp_le set_take_subset_set_take subsetD)+

text \<open>C6. A thrown value is caught. After a \<^verbatim>\<open>TRY_BEGIN\<close>, a \<^verbatim>\<open>THROW\<close> executed while its handler is the
  innermost one, however deep in calls and however high the stack, continues at the catch target with
  exactly the operands of the \<^verbatim>\<open>TRY_BEGIN\<close> below the thrown value, the frames of that time and the handler removed.\<close>

theorem vm_throw_caught:
  assumes w: "now w = Some vm" "vm_wf vm" "unat (handler_count vm) < ARC_HANDLER_MAX" "unat (sp vm) < ARC_STACK_MAX"
    and off: "unat (ip vm) + 4 \<le> length (img_code img)" "off = arc_read_i32 (img_code img) (unat (ip vm))"
      "- (2 ^ 31) \<le> sint (ip vm + 4) + sint off" "sint (ip vm + 4) + sint off < 2 ^ 31"
  shows "\<exists>vm1. vm_exec_exception img OP_TRY_BEGIN w = VRet () (upd w vm1) \<and> vm_wf vm1 \<and> stack vm1 = stack vm \<and> sp vm1 = sp vm \<and>
    handler_count vm1 = handler_count vm + 1 \<and>
    (\<forall>w2 vm2 ys v. now w2 = Some vm2 \<and> vm_wf vm2 \<and> handler_count vm2 = handler_count vm1 \<and>
       take (unat (handler_count vm2)) (handlers vm2) = take (unat (handler_count vm2)) (handlers vm1) \<and>
       take (unat (sp vm)) (stack vm2) = operands vm \<and> operands vm2 = ys @ [v] \<longrightarrow>
       (\<exists>vm3. vm_exec_exception img OP_THROW w2 = VRet () (upd w2 vm3) \<and> operands vm3 = operands vm @ [v] \<and>
          sint (ip vm3) = sint (ip vm + 4) + sint off \<and> fp vm3 = fp vm \<and> handler_count vm3 = handler_count vm \<and>
          frames vm3 = frames vm2))"
proof -
  let ?t = "of_int (sint (ip vm + 4) + sint off) :: u32"
  let ?h = "\<lparr>catch_ip = ?t, stack_height = sp vm, frame_depth = fp vm\<rparr>"
  let ?vm1 = "vm\<lparr>ip := ip vm + 4, handlers := (handlers vm)[unat (handler_count vm) := ?h], handler_count := handler_count vm + 1\<rparr>"
  have t: "sint ?t = sint (ip vm + 4) + sint off"
    using off(3,4) by (simp only: signed_of_int) (simp add: signed_take_bit_int_eq_self)
  have n: "unat (handler_count vm + 1) = Suc (unat (handler_count vm))" "unat (handler_count vm) < length (handlers vm)"
    using w(2,3) by (simp_all add: unat_word_ariths arc_max_defs vm_wf_def)
  have 1: "vm_exec_exception img OP_TRY_BEGIN w = VRet () (upd w ?vm1)"
    using w off by (simp add: vm_exec_exception_def vm_read_i32_def vbind_def run_cur run_setcur vguard_def vret_def
        ip_plus_def Let_def)
  have 3: "\<exists>vm3. vm_exec_exception img OP_THROW w2 = VRet () (upd w2 vm3) \<and> operands vm3 = operands vm @ [v] \<and>
          sint (ip vm3) = sint (ip vm + 4) + sint off \<and> fp vm3 = fp vm \<and> handler_count vm3 = handler_count vm \<and>
          frames vm3 = frames vm2"
    if 2: "now w2 = Some vm2" "vm_wf vm2" "handler_count vm2 = handler_count ?vm1"
      "take (unat (handler_count vm2)) (handlers vm2) = take (unat (handler_count vm2)) (handlers ?vm1)"
      "take (unat (sp vm)) (stack vm2) = operands vm" "operands vm2 = ys @ [v]" for w2 vm2 ys v
  proof -
    let ?u = "vm2\<lparr>handler_count := handler_count vm, fp := fp vm, sp := sp vm, ip := ?t\<rparr>"
    have h: "handlers vm2 ! unat (handler_count vm) = ?h"
      using arg_cong [OF 2(4), of "\<lambda>l. l ! unat (handler_count vm)"] 2(3) n by simp
    have hc: "unat (handler_count vm + 1) \<le> ARC_HANDLER_MAX" "handler_count vm + 1 \<noteq> 0" using n w(2,3) by auto
    have "vm_wf ?u" using 2(2) w(2) handlers_take [OF 2(2)] 2(3) n by (auto simp: vm_wf_def)
    moreover have "operands ?u = operands vm" using 2(5) by (simp add: operands_def)
    moreover have "now (upd w2 ?u) = Some ?u" using 2(1) by simp
    ultimately obtain vm3 where "vm_push v (upd w2 ?u) = VRet () (upd w2 vm3)" "operands vm3 = operands vm @ [v]"
        "same_but_stack ?u vm3"
      using run_push_wf [of "upd w2 ?u" ?u v] length_operands [OF w(2)] w(4) 2(1) by auto
    then show ?thesis using run_pop_snoc [OF 2(1,2,6)] 2(1,3) h hc t same_but_stackD [of ?u vm3]
      by (intro exI [of _ vm3]) (simp add: vm_exec_exception_def vbind_def run_cur run_setcur vguard_def vret_def Let_def)
  qed
  have "vm_wf ?vm1" using vm_wf_handler [of "vm\<lparr>ip := ip vm + 4\<rparr>" ?t] w(2,3) by (simp add: vm_wf_other)
  moreover have "stack ?vm1 = stack vm" "sp ?vm1 = sp vm" "handler_count ?vm1 = handler_count vm + 1" by simp_all
  ultimately show ?thesis using 1
    by - (rule exI [of _ ?vm1], intro conjI allI impI, assumption+, elim conjE, rule 3)
qed

text \<open>An image with two functions; the second one has an argument and a further local.\<close>

definition demo_image :: "u8 list \<Rightarrow> ArcBytecodeImage" where
  "demo_image code = arc_image_init\<lparr>img_code := code, img_functions := \<lparr>items =
     [\<lparr>name_const_idx = 0, arity = 0, local_count = 0, max_stack = 0, code_offset = 0, code_length = 4, upvalues = []\<rparr>,
      \<lparr>name_const_idx = 0, arity = 1, local_count = 2, max_stack = 0, code_offset = 8, code_length = 4, upvalues = []\<rparr>],
     cap = 2\<rparr>\<rparr>"

theorem vm_call_return_witness:
  "\<exists>vm1. vm_exec_call (demo_image [1, 0, 1, 0]) (demo_world [VAL_BOOL True, VAL_I64 5]) =
       VRet () (upd (demo_world [VAL_BOOL True, VAL_I64 5]) vm1) \<and>
     operands vm1 = [VAL_BOOL True, VAL_I64 5, VAL_NULL] \<and> ip vm1 = 8 \<and> fp vm1 = 2"
proof -
  let ?vs = "[VAL_BOOL True, VAL_I64 5]" and ?img = "demo_image [1, 0, 1, 0]"
  have l: "length ?vs \<le> ARC_STACK_MAX" by (simp add: arc_max_defs)
  have c: "call_at ?img (main_vm (demo_world ?vs)) 1 1"
    by (simp add: call_at_def demo_image_def demo_world_def zero_vm_def arc_image_init_def arc_read_u16_def)
  show ?thesis
    using vm_call_return [OF now_demo demo_wf [OF l] c, of "[VAL_BOOL True]" "[VAL_I64 5]"] demo_operands [OF l]
    by (fastforce simp: demo_image_def arc_image_init_def demo_world_def zero_vm_def arc_max_defs)
qed

theorem vm_throw_caught_witness:
  "\<exists>vm1. vm_exec_exception (demo_image [16, 0, 0, 0]) OP_TRY_BEGIN (demo_world [VAL_I64 5]) =
       VRet () (upd (demo_world [VAL_I64 5]) vm1) \<and> handler_count vm1 = 1 \<and>
     (\<exists>vm3. vm_exec_exception (demo_image [16, 0, 0, 0]) OP_THROW
          (upd (demo_world [VAL_I64 5]) (vm1\<lparr>stack := (stack vm1)[1 := VAL_BOOL True], sp := 2, fp := 2\<rparr>)) =
          VRet () (upd (demo_world [VAL_I64 5]) vm3) \<and>
        operands vm3 = [VAL_I64 5, VAL_BOOL True] \<and> sint (ip vm3) = 20 \<and> fp vm3 = 1)"
proof -
  let ?w = "demo_world [VAL_I64 5]" and ?img = "demo_image [16, 0, 0, 0]"
  have l: "length [VAL_I64 5] \<le> ARC_STACK_MAX" by (simp add: arc_max_defs)
  have v: "handler_count (main_vm ?w) = 0" "sp (main_vm ?w) = 1" "fp (main_vm ?w) = 1" "ip (main_vm ?w) = 0"
    "stack (main_vm ?w) = VAL_I64 5 # replicate 1023 VAL_NULL"
    by (simp_all add: demo_world_def zero_vm_def arc_max_defs)
  have off: "img_code ?img = [16, 0, 0, 0]" "arc_read_i32 [16, 0, 0, 0] 0 = 16"
    by (simp_all add: demo_image_def arc_image_init_def arc_read_i32_def)
  obtain vm1 where 1: "vm_exec_exception ?img OP_TRY_BEGIN ?w = VRet () (upd ?w vm1)" "vm_wf vm1"
      "stack vm1 = VAL_I64 5 # replicate 1023 VAL_NULL" "handler_count vm1 = 1"
    and throw: "\<forall>w2 vm2 ys v. now w2 = Some vm2 \<and> vm_wf vm2 \<and> handler_count vm2 = 1 \<and>
       take (unat (handler_count vm2)) (handlers vm2) = take (unat (handler_count vm2)) (handlers vm1) \<and>
       take (Suc 0) (stack vm2) = [VAL_I64 5] \<and> operands vm2 = ys @ [v] \<longrightarrow>
       (\<exists>vm3. vm_exec_exception ?img OP_THROW w2 = VRet () (upd w2 vm3) \<and> operands vm3 = [VAL_I64 5, v] \<and>
          sint (ip vm3) = 20 \<and> fp vm3 = 1 \<and> handler_count vm3 = 0 \<and> frames vm3 = frames vm2)"
    using vm_throw_caught [OF now_demo demo_wf [OF l], of ?img 16] demo_operands [OF l] v off
    by (auto simp: arc_max_defs)
  let ?vm2 = "vm1\<lparr>stack := (stack vm1)[1 := VAL_BOOL True], sp := 2, fp := 2\<rparr>"
  have r: "replicate 1023 VAL_NULL = VAL_NULL # replicate 1022 VAL_NULL" using replicate_Suc [of 1022 VAL_NULL] by simp
  have "vm_wf ?vm2" using 1(2) by (simp add: vm_wf_def arc_max_defs)
  moreover have "operands ?vm2 = [VAL_I64 5] @ [VAL_BOOL True]" "take (Suc 0) (stack ?vm2) = [VAL_I64 5]"
    using 1(3) by (simp_all add: operands_def r take_Cons')
  moreover have "now (upd ?w ?vm2) = Some ?vm2" by (simp add: now_demo)
  ultimately have "\<exists>vm3. vm_exec_exception ?img OP_THROW (upd ?w ?vm2) = VRet () (upd ?w vm3) \<and>
     operands vm3 = [VAL_I64 5, VAL_BOOL True] \<and> sint (ip vm3) = 20 \<and> fp vm3 = 1"
    using throw [THEN spec, of "upd ?w ?vm2", THEN spec, of ?vm2] 1(4) by (fastforce simp: now_demo)
  with 1 show ?thesis by blast
qed

section \<open>Executions stay within bounds\<close>

lemma os_reach_wf: "os_reach lc img p q \<Longrightarrow> world_wf (shared p) \<Longrightarrow> world_wf (shared q)"
  by (induction rule: os_reach.induct) (auto intro: os_round_wf)

lemma vsafe_setup_main: "vkeeps (vm_setup_main img)"
proof -
  have "vsafe (vlift (entry_vm vm fi fn args)) vm_wf" if "vm_wf vm" for vm fi fn args
    by (rule vsafe_lift) (rule vm_wf_entry [OF _ that])
  from vsafe_bind [OF this vsafe_setcur] show ?thesis unfolding vm_setup_main_def
    by (auto intro!: vsafe_bind [OF vsafe_cur])
qed

lemma init_wf: "world_wf (arc_vm_init w)"
  by (simp add: arc_vm_init_def world_wf_def vm_wf_zero heap_ok_def cell_obj_def arc_gc_create_def arc_gc_init_def)

lemma setup_main_wf: "vm_setup_main img ((arc_vm_init w)\<lparr>ctx := [None]\<rparr>) = VRet () w' \<Longrightarrow> world_wf w'"
  using vsafeD [OF vsafe_setup_main, of "(arc_vm_init w)\<lparr>ctx := [None]\<rparr>"] init_wf [of w] by simp


definition demo_libc :: libc where
  "demo_libc = \<lparr>fmt_g = (\<lambda>_. ''0''), strtod = (\<lambda>_. (0, 0)), clock_seconds = (\<lambda>_. 0), thread_create = (\<lambda>_. True), stack_depth = 8\<rparr>"


end
