(* ===== verification/Sem_Graph.thy ===== *)
theory Sem_Graph
  imports Arc_Objects
begin

text \<open>
  The semantic graph, \<^verbatim>\<open>src/semantic_graph/semantic_graph.{h,c}\<close>: regions, nodes, ports and edges, the
  functions that build a graph, and its validation. The arrays are lists, without their capacities
  (doubling a 32-bit capacity wraps only beyond two billion elements). The union of the attributes is a
  datatype; \<open>AttrZero\<close> is the zeroed union of a new node. A role that is \<^verbatim>\<open>NULL\<close> is \<^const>\<open>None\<close>.
\<close>

section \<open>Data\<close>

datatype (plugins only: code size) ArcNodeKind =
    ARC_NODE_CONST_INT | ARC_NODE_CONST_FLOAT | ARC_NODE_CONST_BOOL | ARC_NODE_CONST_NULL
  | ARC_NODE_ADD | ARC_NODE_SUB | ARC_NODE_MUL | ARC_NODE_DIV | ARC_NODE_MOD | ARC_NODE_NEG
  | ARC_NODE_EQ | ARC_NODE_NEQ | ARC_NODE_LT | ARC_NODE_LE | ARC_NODE_GT | ARC_NODE_GE | ARC_NODE_NOT
  | ARC_NODE_IF | ARC_NODE_WHILE | ARC_NODE_LET | ARC_NODE_VAR_REF | ARC_NODE_ASSIGN
  | ARC_NODE_FUNC_DEF | ARC_NODE_FUNC_CALL | ARC_NODE_PARAM | ARC_NODE_RETURN | ARC_NODE_PRINT
  | ARC_NODE_ROOT_OUTPUT | ARC_NODE_SEQUENCE | ARC_NODE_CONST_STRING | ARC_NODE_AND | ARC_NODE_OR
  | ARC_NODE_BIT_AND | ARC_NODE_BIT_OR | ARC_NODE_BIT_XOR | ARC_NODE_BIT_NOT | ARC_NODE_SHL | ARC_NODE_SHR
  | ARC_NODE_CAST_I64 | ARC_NODE_CAST_F64 | ARC_NODE_CAST_STR | ARC_NODE_ARRAY_LITERAL | ARC_NODE_MAP_LITERAL
  | ARC_NODE_INDEX_GET | ARC_NODE_INDEX_SET | ARC_NODE_STR_LEN | ARC_NODE_STR_SLICE | ARC_NODE_STR_INDEX
  | ARC_NODE_LENGTH | ARC_NODE_TRY | ARC_NODE_THROW | ARC_NODE_CLOSURE | ARC_NODE_INTRINSIC_CALL
  | ARC_NODE_BREAK_IF | ARC_NODE_CYCLE | ARC_NODE_RECORD_NEW | ARC_NODE_FIELD_GET | ARC_NODE_FIELD_SET
  | ARC_NODE_THREAD_SPAWN | ARC_NODE_THREAD_JOIN | ARC_NODE_MUTEX_NEW | ARC_NODE_MUTEX_LOCK
  | ARC_NODE_MUTEX_UNLOCK | ARC_NODE_CHAN_NEW | ARC_NODE_CHAN_SEND | ARC_NODE_CHAN_RECV

datatype ArcPortDir = ARC_PORT_INPUT | ARC_PORT_OUTPUT | ARC_PORT_BIDIRECTIONAL

record ArcPort =
  port_id :: ArcPortId
  owner :: ArcNodeId
  dir :: ArcPortDir
  role :: "string option"

record ArcSemEdge =
  edge_id :: ArcEdgeId
  from_port :: ArcPortId
  to_port :: ArcPortId

datatype ArcRegionKind =
    ARC_REGION_MODULE | ARC_REGION_FUNCTION | ARC_REGION_BLOCK | ARC_REGION_THEN | ARC_REGION_ELSE
  | ARC_REGION_LOOP_BODY | ARC_REGION_TRY_BODY | ARC_REGION_CATCH_BODY | ARC_REGION_CYCLE

record ArcRegion =
  region_id :: ArcRegionId
  parent :: ArcRegionId
  region_kind :: ArcRegionKind
  members :: "ArcNodeId list"

datatype ArcAttr =
    AttrZero
  | AttrInt i64
  | AttrFloat f64
  | AttrBool bool
  | AttrName string
  | AttrFunc string ArcRegionId u8
  | AttrBranch ArcRegionId ArcRegionId
  | AttrLoop ArcRegionId
  | AttrString string
  | AttrTry ArcRegionId ArcRegionId
  | AttrCollection u16
  | AttrIntrinsic u16
  | AttrCycle ArcRegionId

record ArcNode =
  node_id :: ArcNodeId
  kind :: ArcNodeKind
  region :: ArcRegionId
  source_id :: ArcElementId
  node_ports :: "ArcPortId list"
  cyclic_order :: "ArcPortId list"
  attr :: ArcAttr

record ArcGraph =
  nodes :: "ArcNode list"
  ports :: "ArcPort list"
  edges :: "ArcSemEdge list"
  regions :: "ArcRegion list"
  root_region :: ArcRegionId
  output_node :: ArcNodeId
  owns_strings :: bool

section \<open>Building a graph\<close>

definition arc_graph_init :: ArcGraph where
  "arc_graph_init = \<lparr>nodes = [], ports = [], edges = [], regions = [], root_region = ARC_INVALID_ID,
     output_node = ARC_INVALID_ID, owns_strings = False\<rparr>"

text \<open>After \<^verbatim>\<open>arc_graph_free\<close> the structure is zeroed; its ids are 0, not \<^verbatim>\<open>ARC_INVALID_ID\<close>.\<close>

definition arc_graph_free :: "ArcGraph \<Rightarrow> ArcGraph" where
  "arc_graph_free g = \<lparr>nodes = [], ports = [], edges = [], regions = [], root_region = 0, output_node = 0,
     owns_strings = False\<rparr>"

definition arc_graph_add_region :: "ArcGraph \<Rightarrow> ArcRegionKind \<Rightarrow> ArcRegionId \<Rightarrow> ArcRegionId \<times> ArcGraph" where
  "arc_graph_add_region g k p =
     (length (regions g),
      g\<lparr>regions := regions g @ [\<lparr>region_id = length (regions g), parent = p, region_kind = k, members = []\<rparr>]\<rparr>)"

definition arc_region_add_member :: "ArcGraph \<Rightarrow> ArcRegionId \<Rightarrow> ArcNodeId \<Rightarrow> ArcGraph outcome" where
  "arc_region_add_member g r n =
     (if r < length (regions g)
      then Ret (g\<lparr>regions := (regions g)[r := (regions g ! r)\<lparr>members := members (regions g ! r) @ [n]\<rparr>]\<rparr>)
      else Undef)"

definition arc_graph_add_node :: "ArcGraph \<Rightarrow> ArcNodeKind \<Rightarrow> ArcRegionId \<Rightarrow> ArcElementId \<Rightarrow> (ArcNodeId \<times> ArcGraph) outcome" where
  "arc_graph_add_node g k r src =
     (let id = length (nodes g);
          g1 = g\<lparr>nodes := nodes g @ [\<lparr>node_id = id, kind = k, region = r, source_id = src, node_ports = [],
                 cyclic_order = [], attr = AttrZero\<rparr>]\<rparr>
      in andthen (arc_region_add_member g1 r id) (\<lambda>g2. Ret (id, g2)))"

definition arc_graph_add_port :: "ArcGraph \<Rightarrow> ArcNodeId \<Rightarrow> ArcPortDir \<Rightarrow> string option \<Rightarrow> (ArcPortId \<times> ArcGraph) outcome" where
  "arc_graph_add_port g ow d rl =
     (let id = length (ports g);
          g1 = g\<lparr>ports := ports g @ [\<lparr>port_id = id, owner = ow, dir = d, role = rl\<rparr>]\<rparr>
      in if ow < length (nodes g)
         then Ret (id, g1\<lparr>nodes := (nodes g)[ow := (nodes g ! ow)\<lparr>node_ports := node_ports (nodes g ! ow) @ [id]\<rparr>]\<rparr>)
         else Undef)"

definition arc_graph_add_edge :: "ArcGraph \<Rightarrow> ArcPortId \<Rightarrow> ArcPortId \<Rightarrow> ArcEdgeId \<times> ArcGraph" where
  "arc_graph_add_edge g src dst =
     (length (edges g), g\<lparr>edges := edges g @ [\<lparr>edge_id = length (edges g), from_port = src, to_port = dst\<rparr>]\<rparr>)"

definition arc_node_set_cyclic_order :: "ArcGraph \<Rightarrow> ArcNodeId \<Rightarrow> ArcPortId list \<Rightarrow> ArcGraph outcome" where
  "arc_node_set_cyclic_order g n order =
     (if n < length (nodes g) then Ret (g\<lparr>nodes := (nodes g)[n := (nodes g ! n)\<lparr>cyclic_order := order\<rparr>]\<rparr>) else Undef)"

definition arc_graph_node :: "ArcGraph \<Rightarrow> ArcNodeId \<Rightarrow> ArcNode option" where
  "arc_graph_node g i = (if i < length (nodes g) then Some (nodes g ! i) else None)"

definition arc_graph_port :: "ArcGraph \<Rightarrow> ArcPortId \<Rightarrow> ArcPort option" where
  "arc_graph_port g i = (if i < length (ports g) then Some (ports g ! i) else None)"

definition arc_graph_region :: "ArcGraph \<Rightarrow> ArcRegionId \<Rightarrow> ArcRegion option" where
  "arc_graph_region g i = (if i < length (regions g) then Some (regions g ! i) else None)"

section \<open>Navigation\<close>

text \<open>The loops over the edges and over the ports of a node that the later passes share (each has its own
  copy of them in C). The source of an input port is the owner of the port its first edge comes from.\<close>

fun edge_source :: "ArcGraph \<Rightarrow> ArcPortId \<Rightarrow> ArcSemEdge list \<Rightarrow> ArcNodeId outcome" where
  "edge_source g p [] = Ret ARC_INVALID_ID"
| "edge_source g p (e # es) =
     (if to_port e = p then
        (if from_port e < length (ports g) then Ret (owner (ports g ! from_port e)) else Undef)
      else edge_source g p es)"

fun port_with_role :: "ArcGraph \<Rightarrow> string \<Rightarrow> ArcPortDir \<Rightarrow> ArcPortId list \<Rightarrow> ArcPortId outcome" where
  "port_with_role g rl d [] = Ret ARC_INVALID_ID"
| "port_with_role g rl d (p # ps) =
     (if p < length (ports g) then
        (if dir (ports g ! p) = d \<and> role (ports g ! p) = Some rl then Ret (port_id (ports g ! p)) else port_with_role g rl d ps)
      else Undef)"

section \<open>Validation\<close>

record ArcGraphValidation =
  gv_errors :: "string list"
  gv_valid :: bool

definition vadd :: "ArcGraphValidation \<Rightarrow> string \<Rightarrow> ArcGraphValidation" where
  "vadd v msg = v\<lparr>gv_errors := gv_errors v @ [take 255 msg], gv_valid := False\<rparr>"

definition vcheck :: "bool \<Rightarrow> string \<Rightarrow> ArcGraphValidation \<Rightarrow> ArcGraphValidation" where
  "vcheck bad msg v = (if bad then vadd v msg else v)"

text \<open>The walk to the ancestors of region \<open>i\<close>, at most \<open>n\<close> steps; does it come back to \<open>i\<close>?\<close>

fun cyclic_ancestry :: "ArcGraph \<Rightarrow> nat \<Rightarrow> ArcRegionId \<Rightarrow> nat \<Rightarrow> bool" where
  "cyclic_ancestry g i cur 0 = False"
| "cyclic_ancestry g i cur (Suc n) =
     (if cur = ARC_INVALID_ID then False
      else if cur = i then True
      else if length (regions g) \<le> cur then False
      else cyclic_ancestry g i (parent (regions g ! cur)) n)"

definition validate_region :: "ArcGraph \<Rightarrow> nat \<Rightarrow> ArcGraphValidation \<Rightarrow> ArcGraphValidation" where
  "validate_region g i v =
     (let r = regions g ! i; n = length (regions g) in
      vcheck (cyclic_ancestry g i (parent r) n) (''region '' @ dec_digits i @ '' has cyclic ancestry'')
     (vcheck (parent r \<noteq> ARC_INVALID_ID \<and> n \<le> parent r)
        (''region '' @ dec_digits i @ '' has invalid parent '' @ dec_digits (parent r))
     (vcheck (region_id r \<noteq> i) (''region at index '' @ dec_digits i @ '' has mismatched id '' @ dec_digits (region_id r)) v)))"

definition validate_regions :: "ArcGraph \<Rightarrow> ArcGraphValidation \<Rightarrow> ArcGraphValidation" where
  "validate_regions g v = fold (validate_region g) [0..<length (regions g)] v"

definition validate_cyclic_entry :: "nat \<Rightarrow> ArcNode \<Rightarrow> nat \<Rightarrow> ArcGraphValidation \<Rightarrow> ArcGraphValidation" where
  "validate_cyclic_entry i n ci v =
     vcheck (cyclic_order n ! ci \<notin> set (node_ports n))
       (''node '' @ dec_digits i @ '' cyclic order entry '' @ dec_digits ci @ '' references unknown port '' @
        dec_digits (cyclic_order n ! ci)) v"

definition validate_node :: "ArcGraph \<Rightarrow> nat \<Rightarrow> ArcGraphValidation \<Rightarrow> ArcGraphValidation" where
  "validate_node g i v =
     (let n = nodes g ! i;
          v1 = vcheck (node_id n \<noteq> i) (''node at index '' @ dec_digits i @ '' has mismatched id '' @ dec_digits (node_id n)) v;
          v2 = vcheck (length (regions g) \<le> region n) (''node '' @ dec_digits i @ '' has invalid region '' @ dec_digits (region n)) v1
      in if 0 < length (cyclic_order n) then
           fold (validate_cyclic_entry i n) [0..<length (cyclic_order n)]
             (vcheck (length (cyclic_order n) \<noteq> length (node_ports n))
                (''node '' @ dec_digits i @ '' cyclic order count '' @ dec_digits (length (cyclic_order n)) @
                 '' != port count '' @ dec_digits (length (node_ports n))) v2)
         else v2)"

definition validate_nodes :: "ArcGraph \<Rightarrow> ArcGraphValidation \<Rightarrow> ArcGraphValidation" where
  "validate_nodes g v = fold (validate_node g) [0..<length (nodes g)] v"

definition validate_edge :: "ArcGraph \<Rightarrow> nat \<Rightarrow> ArcGraphValidation \<Rightarrow> ArcGraphValidation" where
  "validate_edge g i v =
     (let e = edges g ! i; n = length (ports g) in
      vcheck (to_port e < n \<and> dir (ports g ! to_port e) \<noteq> ARC_PORT_INPUT)
        (''edge '' @ dec_digits i @ '' target port '' @ dec_digits (to_port e) @ '' is not an input'')
     (vcheck (from_port e < n \<and> dir (ports g ! from_port e) \<noteq> ARC_PORT_OUTPUT)
        (''edge '' @ dec_digits i @ '' source port '' @ dec_digits (from_port e) @ '' is not an output'')
     (vcheck (n \<le> to_port e) (''edge '' @ dec_digits i @ '' has invalid target port '' @ dec_digits (to_port e))
     (vcheck (n \<le> from_port e) (''edge '' @ dec_digits i @ '' has invalid source port '' @ dec_digits (from_port e))
     (vcheck (edge_id e \<noteq> i) (''edge at index '' @ dec_digits i @ '' has mismatched id '' @ dec_digits (edge_id e)) v)))))"

definition validate_port :: "ArcGraph \<Rightarrow> nat \<Rightarrow> ArcGraphValidation \<Rightarrow> ArcGraphValidation" where
  "validate_port g i v =
     (let p = ports g ! i in
      vcheck (length (nodes g) \<le> owner p) (''port '' @ dec_digits i @ '' has invalid owner node '' @ dec_digits (owner p))
     (vcheck (port_id p \<noteq> i) (''port at index '' @ dec_digits i @ '' has mismatched id '' @ dec_digits (port_id p)) v))"

definition validate_edges_and_ports :: "ArcGraph \<Rightarrow> ArcGraphValidation \<Rightarrow> ArcGraphValidation" where
  "validate_edges_and_ports g v =
     fold (validate_port g) [0..<length (ports g)] (fold (validate_edge g) [0..<length (edges g)] v)"

definition arc_graph_validate :: "ArcGraph \<Rightarrow> ArcGraphValidation" where
  "arc_graph_validate g =
     validate_edges_and_ports g (validate_nodes g (validate_regions g
       (vcheck (root_region g = ARC_INVALID_ID) ''no root region defined'' \<lparr>gv_errors = [], gv_valid = True\<rparr>)))"

definition arc_graph_validation_free :: "ArcGraphValidation \<Rightarrow> ArcGraphValidation" where
  "arc_graph_validation_free v = v\<lparr>gv_errors := []\<rparr>"

section \<open>What validation decides\<close>

text \<open>The nesting of regions as a relation.\<close>

definition parent_rel :: "ArcGraph \<Rightarrow> (nat \<times> nat) set" where
  "parent_rel g = {(i, parent (regions g ! i)) | i. i < length (regions g) \<and> parent (regions g ! i) < length (regions g)}"

definition region_ok :: "ArcGraph \<Rightarrow> nat \<Rightarrow> bool" where
  "region_ok g i \<longleftrightarrow> (let r = regions g ! i in
     region_id r = i \<and> (parent r = ARC_INVALID_ID \<or> parent r < length (regions g)))"

definition node_ok :: "ArcGraph \<Rightarrow> nat \<Rightarrow> bool" where
  "node_ok g i \<longleftrightarrow> (let n = nodes g ! i in
     node_id n = i \<and> region n < length (regions g) \<and>
     (cyclic_order n \<noteq> [] \<longrightarrow> length (cyclic_order n) = length (node_ports n) \<and> set (cyclic_order n) \<subseteq> set (node_ports n)))"

definition edge_ok :: "ArcGraph \<Rightarrow> nat \<Rightarrow> bool" where
  "edge_ok g i \<longleftrightarrow> (let e = edges g ! i in
     edge_id e = i \<and> from_port e < length (ports g) \<and> to_port e < length (ports g) \<and>
     dir (ports g ! from_port e) = ARC_PORT_OUTPUT \<and> dir (ports g ! to_port e) = ARC_PORT_INPUT)"

definition port_ok :: "ArcGraph \<Rightarrow> nat \<Rightarrow> bool" where
  "port_ok g i \<longleftrightarrow> port_id (ports g ! i) = i \<and> owner (ports g ! i) < length (nodes g)"

definition graph_ok :: "ArcGraph \<Rightarrow> bool" where
  "graph_ok g \<longleftrightarrow> (\<forall>i < length (regions g). region_ok g i) \<and> acyclic (parent_rel g) \<and>
     (\<forall>i < length (nodes g). node_ok g i) \<and> (\<forall>i < length (edges g). edge_ok g i) \<and> (\<forall>i < length (ports g). port_ok g i)"

lemma vcheck_valid [simp]: "gv_valid (vcheck bad msg v) \<longleftrightarrow> gv_valid v \<and> \<not> bad"
  by (auto simp: vcheck_def vadd_def)

lemma fold_valid:
  assumes "\<And>i v. i \<in> set is \<Longrightarrow> gv_valid (f i v) \<longleftrightarrow> gv_valid v \<and> P i"
  shows "gv_valid (fold f is v) \<longleftrightarrow> gv_valid v \<and> (\<forall>i \<in> set is. P i)"
  using assms by (induction "is" arbitrary: v) auto

lemma parent_rel_iff:
  "(i, j) \<in> parent_rel g \<longleftrightarrow> i < length (regions g) \<and> j = parent (regions g ! i) \<and> j < length (regions g)"
  by (auto simp: parent_rel_def)

lemma parent_rel_step:
  "(cur, i) \<in> parent_rel g ^^ Suc k \<longleftrightarrow>
    cur < length (regions g) \<and> parent (regions g ! cur) < length (regions g) \<and> (parent (regions g ! cur), i) \<in> parent_rel g ^^ k"
  by (auto simp: relpow_commute [symmetric] parent_rel_iff)

lemma parent_rel_outside: "length (regions g) \<le> cur \<Longrightarrow> i < length (regions g) \<Longrightarrow> (cur, i) \<notin> parent_rel g ^^ k"
  by (cases k) (auto simp: parent_rel_step simp del: relpow.simps(2))

lemma cyclic_ancestry_path:
  assumes "i < length (regions g)" "length (regions g) \<le> ARC_INVALID_ID"
  shows "cyclic_ancestry g i cur n \<longleftrightarrow> (\<exists>k < n. (cur, i) \<in> parent_rel g ^^ k)"
proof (induction n arbitrary: cur)
  case (Suc n)
  have split: "(\<exists>k < Suc n. (cur, i) \<in> parent_rel g ^^ k) \<longleftrightarrow> cur = i \<or> (\<exists>k < n. (cur, i) \<in> parent_rel g ^^ Suc k)"
    by (auto simp: Ex_less_Suc2 simp del: relpow.simps(2))
  show ?case
  proof (cases "cur < length (regions g)")
    case True
    then have "cur \<noteq> ARC_INVALID_ID" using assms(2) by simp
    moreover have "(parent (regions g ! cur), i) \<in> parent_rel g ^^ k \<Longrightarrow> parent (regions g ! cur) < length (regions g)" for k
      using parent_rel_outside [OF _ assms(1)] by (meson not_less)
    ultimately show ?thesis using True Suc.IH unfolding split parent_rel_step by (auto simp: not_less)
  next
    case False
    then show ?thesis using assms parent_rel_outside [OF _ assms(1), of cur]
      unfolding split by (auto simp: not_less simp del: relpow.simps(2))
  qed
qed simp

lemma parent_rel_bound: "finite (parent_rel g)" "card (parent_rel g) \<le> length (regions g)"
proof -
  have s: "parent_rel g \<subseteq> (\<lambda>i. (i, parent (regions g ! i))) ` {..<length (regions g)}" by (auto simp: parent_rel_def)
  then show "finite (parent_rel g)" by (rule finite_subset) simp
  show "card (parent_rel g) \<le> length (regions g)" using surj_card_le [OF _ s] by simp
qed

text \<open>A cycle of regions has at most as many steps as there are regions, so the bounded walk finds it.\<close>

lemma acyclic_ancestry:
  assumes n: "length (regions g) \<le> ARC_INVALID_ID"
  shows "acyclic (parent_rel g) \<longleftrightarrow>
    (\<forall>i < length (regions g). \<not> cyclic_ancestry g i (parent (regions g ! i)) (length (regions g)))"
proof
  assume a: "acyclic (parent_rel g)"
  show "\<forall>i < length (regions g). \<not> cyclic_ancestry g i (parent (regions g ! i)) (length (regions g))"
  proof (intro allI impI notI)
    fix i assume i: "i < length (regions g)" and "cyclic_ancestry g i (parent (regions g ! i)) (length (regions g))"
    then obtain k where k: "(parent (regions g ! i), i) \<in> parent_rel g ^^ k" using cyclic_ancestry_path [OF i n] by auto
    then have "parent (regions g ! i) < length (regions g)" using parent_rel_outside [OF _ i] by (meson not_less)
    with i k have "(i, i) \<in> parent_rel g ^^ Suc k" by (simp add: parent_rel_step del: relpow.simps)
    then have "(i, i) \<in> (parent_rel g)\<^sup>+" by (metis trancl_power zero_less_Suc)
    with a show False by (simp add: acyclic_def)
  qed
next
  assume c: "\<forall>i < length (regions g). \<not> cyclic_ancestry g i (parent (regions g ! i)) (length (regions g))"
  show "acyclic (parent_rel g)" unfolding acyclic_def
  proof (intro allI notI)
    fix i assume "(i, i) \<in> (parent_rel g)\<^sup>+"
    then obtain m where "0 < m" "(i, i) \<in> parent_rel g ^^ m" by (auto simp: trancl_power)
    with relpow_finite_bounded1 [OF parent_rel_bound(1), of m g] obtain k where
      k: "0 < k" "k \<le> card (parent_rel g)" "(i, i) \<in> parent_rel g ^^ k" by blast
    then obtain k' where k': "k = Suc k'" by (cases k) auto
    with k(3) have i: "i < length (regions g)" "(parent (regions g ! i), i) \<in> parent_rel g ^^ k'"
      by (auto simp: parent_rel_step simp del: relpow.simps)
    moreover have "k' < length (regions g)" using k(2) k' parent_rel_bound(2) [of g] by simp
    ultimately have "cyclic_ancestry g i (parent (regions g ! i)) (length (regions g))"
      using cyclic_ancestry_path [OF i(1) n] by auto
    with c i(1) show False by blast
  qed
qed

lemma validate_parts:
  "gv_valid (validate_regions g v) \<longleftrightarrow> gv_valid v \<and> (\<forall>i < length (regions g). region_ok g i \<and>
     \<not> cyclic_ancestry g i (parent (regions g ! i)) (length (regions g)))"
  "gv_valid (validate_nodes g v) \<longleftrightarrow> gv_valid v \<and> (\<forall>i < length (nodes g). node_ok g i)"
  "gv_valid (validate_edges_and_ports g v) \<longleftrightarrow> gv_valid v \<and> (\<forall>i < length (edges g). edge_ok g i) \<and>
     (\<forall>i < length (ports g). port_ok g i)"
proof -
  show "gv_valid (validate_regions g v) \<longleftrightarrow> gv_valid v \<and> (\<forall>i < length (regions g). region_ok g i \<and>
     \<not> cyclic_ancestry g i (parent (regions g ! i)) (length (regions g)))"
    unfolding validate_regions_def
    by (subst fold_valid [where P = "\<lambda>i. region_ok g i \<and> \<not> cyclic_ancestry g i (parent (regions g ! i)) (length (regions g))"])
      (auto simp: validate_region_def region_ok_def Let_def)
  have "gv_valid (validate_node g i v) \<longleftrightarrow> gv_valid v \<and> node_ok g i" for i v
  proof -
    have "gv_valid (fold (validate_cyclic_entry i n) [0..<length (cyclic_order n)] v) \<longleftrightarrow>
        gv_valid v \<and> set (cyclic_order n) \<subseteq> set (node_ports n)" for n v
      by (subst fold_valid [where P = "\<lambda>j. cyclic_order n ! j \<in> set (node_ports n)"])
        (auto simp: validate_cyclic_entry_def subset_eq all_set_conv_all_nth [of "cyclic_order n"])
    then show ?thesis by (auto simp: validate_node_def node_ok_def Let_def)
  qed
  then show "gv_valid (validate_nodes g v) \<longleftrightarrow> gv_valid v \<and> (\<forall>i < length (nodes g). node_ok g i)"
    unfolding validate_nodes_def by (subst fold_valid [where P = "node_ok g"]) auto
  show "gv_valid (validate_edges_and_ports g v) \<longleftrightarrow> gv_valid v \<and> (\<forall>i < length (edges g). edge_ok g i) \<and>
     (\<forall>i < length (ports g). port_ok g i)"
    unfolding validate_edges_and_ports_def
    by (subst fold_valid [where P = "port_ok g"], force simp: validate_port_def port_ok_def Let_def)
      (subst fold_valid [where P = "edge_ok g"], auto simp: validate_edge_def edge_ok_def Let_def)
qed


text \<open>A graph with two regions that are each other's parent, and one with a proper nesting.\<close>

definition nested_graph :: "ArcRegionId \<Rightarrow> ArcGraph" where
  "nested_graph p =
     (let (_, g1) = arc_graph_add_region arc_graph_init ARC_REGION_MODULE p;
          (_, g2) = arc_graph_add_region g1 ARC_REGION_BLOCK 0
      in g2\<lparr>root_region := 0\<rparr>)"


section \<open>Building valid graphs\<close>

text \<open>Uses of the interface with arguments that refer to existing entities: parents, regions and owners
  exist, an edge leads from an output to an input port, and a cyclic order is given last, as an
  arrangement of the node's ports.\<close>

inductive built :: "ArcGraph \<Rightarrow> bool" where
  built_init: "built arc_graph_init"
| built_region: "built g \<Longrightarrow> p = ARC_INVALID_ID \<or> p < length (regions g) \<Longrightarrow> length (regions g) < ARC_INVALID_ID \<Longrightarrow>
    built (snd (arc_graph_add_region g k p))"
| built_node: "built g \<Longrightarrow> r < length (regions g) \<Longrightarrow> arc_graph_add_node g k r src = Ret (n, g') \<Longrightarrow> built g'"
| built_port: "built g \<Longrightarrow> ow < length (nodes g) \<Longrightarrow> cyclic_order (nodes g ! ow) = [] \<Longrightarrow>
    arc_graph_add_port g ow d rl = Ret (p, g') \<Longrightarrow> built g'"
| built_edge: "built g \<Longrightarrow> s < length (ports g) \<Longrightarrow> t < length (ports g) \<Longrightarrow> dir (ports g ! s) = ARC_PORT_OUTPUT \<Longrightarrow>
    dir (ports g ! t) = ARC_PORT_INPUT \<Longrightarrow> built (snd (arc_graph_add_edge g s t))"
| built_order: "built g \<Longrightarrow> n < length (nodes g) \<Longrightarrow> length order = length (node_ports (nodes g ! n)) \<Longrightarrow>
    set order \<subseteq> set (node_ports (nodes g ! n)) \<Longrightarrow> arc_node_set_cyclic_order g n order = Ret g' \<Longrightarrow> built g'"
| built_attr: "built g \<Longrightarrow> n < length (nodes g) \<Longrightarrow> built (g\<lparr>nodes := (nodes g)[n := (nodes g ! n)\<lparr>attr := a\<rparr>]\<rparr>)"
| built_root: "built g \<Longrightarrow> r < length (regions g) \<Longrightarrow> built (g\<lparr>root_region := r\<rparr>)"
| built_output: "built g \<Longrightarrow> n < length (nodes g) \<Longrightarrow> built (g\<lparr>output_node := n\<rparr>)"

text \<open>Parents are older than their children, and a region lists exactly the nodes that name it.\<close>

definition build_inv :: "ArcGraph \<Rightarrow> bool" where
  "build_inv g \<longleftrightarrow> graph_ok g \<and> length (regions g) \<le> ARC_INVALID_ID \<and>
     (\<forall>i < length (regions g). parent (regions g ! i) = ARC_INVALID_ID \<or> parent (regions g ! i) < i) \<and>
     (\<forall>i < length (regions g). members (regions g ! i) = filter (\<lambda>n. region (nodes g ! n) = i) [0..<length (nodes g)]) \<and>
     (\<forall>i < length (nodes g). set (node_ports (nodes g ! i)) \<subseteq> {p. p < length (ports g) \<and> owner (ports g ! p) = i})"

lemma older_parents_acyclic:
  assumes "\<forall>i < length (regions g). parent (regions g ! i) = ARC_INVALID_ID \<or> parent (regions g ! i) < i"
    "length (regions g) \<le> ARC_INVALID_ID"
  shows "acyclic (parent_rel g)"
proof (rule acyclic_subset [of "less_than\<inverse>"])
  show "acyclic (less_than\<inverse>)" using wf_acyclic [OF wf_less_than] by simp
  show "parent_rel g \<subseteq> less_than\<inverse>" using assms by (fastforce simp: parent_rel_def)
qed

lemma build_invD:
  assumes "build_inv g"
  shows "j < length (regions g) \<Longrightarrow> region_ok g j" "j < length (nodes g) \<Longrightarrow> node_ok g j"
    "j < length (edges g) \<Longrightarrow> edge_ok g j" "j < length (ports g) \<Longrightarrow> port_ok g j"
    "j < length (regions g) \<Longrightarrow> parent (regions g ! j) = ARC_INVALID_ID \<or> parent (regions g ! j) < j"
    "j < length (regions g) \<Longrightarrow> members (regions g ! j) = filter (\<lambda>n. region (nodes g ! n) = j) [0..<length (nodes g)]"
    "j < length (nodes g) \<Longrightarrow> set (node_ports (nodes g ! j)) \<subseteq> {p. p < length (ports g) \<and> owner (ports g ! p) = j}"
    "length (regions g) \<le> ARC_INVALID_ID"
  using assms by (auto simp: build_inv_def graph_ok_def)

lemma build_invI:
  assumes "\<And>j. j < length (regions g) \<Longrightarrow> region_ok g j" "\<And>j. j < length (nodes g) \<Longrightarrow> node_ok g j"
    "\<And>j. j < length (edges g) \<Longrightarrow> edge_ok g j" "\<And>j. j < length (ports g) \<Longrightarrow> port_ok g j"
    "\<And>j. j < length (regions g) \<Longrightarrow> parent (regions g ! j) = ARC_INVALID_ID \<or> parent (regions g ! j) < j"
    "\<And>j. j < length (regions g) \<Longrightarrow> members (regions g ! j) = filter (\<lambda>n. region (nodes g ! n) = j) [0..<length (nodes g)]"
    "\<And>j. j < length (nodes g) \<Longrightarrow> set (node_ports (nodes g ! j)) \<subseteq> {p. p < length (ports g) \<and> owner (ports g ! p) = j}"
    "length (regions g) \<le> ARC_INVALID_ID"
  shows "build_inv g"
  using assms older_parents_acyclic [of g] unfolding build_inv_def graph_ok_def by blast

lemma build_inv_region:
  assumes i: "build_inv g" and p: "p = ARC_INVALID_ID \<or> p < length (regions g)" "length (regions g) < ARC_INVALID_ID"
  shows "build_inv (snd (arc_graph_add_region g k p))"
proof -
  let ?g = "snd (arc_graph_add_region g k p)"
  have r: "regions ?g = regions g @ [\<lparr>region_id = length (regions g), parent = p, region_kind = k, members = []\<rparr>]"
    and o: "nodes ?g = nodes g" "ports ?g = ports g" "edges ?g = edges g" by (simp_all add: arc_graph_add_region_def)
  note d = build_invD [OF i]
  have nr: "region (nodes g ! j) < length (regions g)" if "j < length (nodes g)" for j
    using d(2) [OF that] by (simp add: node_ok_def Let_def)
  have none: "filter (\<lambda>n. region (nodes g ! n) = length (regions g)) [0..<length (nodes g)] = []"
    by (rule filter_False) (use nr in fastforce)
  show ?thesis
  proof (rule build_invI)
    fix j
    show "region_ok ?g j" if "j < length (regions ?g)"
      using that d(1) [of j] p(1) by (cases "j = length (regions g)") (auto simp: region_ok_def r nth_append Let_def)
    show "node_ok ?g j" if "j < length (nodes ?g)"
      using that d(2) [of j] by (auto simp: node_ok_def r o Let_def)
    show "edge_ok ?g j" if "j < length (edges ?g)" using that d(3) [of j] by (simp add: edge_ok_def o)
    show "port_ok ?g j" if "j < length (ports ?g)" using that d(4) [of j] by (simp add: port_ok_def o)
    show "parent (regions ?g ! j) = ARC_INVALID_ID \<or> parent (regions ?g ! j) < j" if "j < length (regions ?g)"
      using that d(5) [of j] p(1) by (cases "j = length (regions g)") (auto simp: r nth_append)
    show "members (regions ?g ! j) = filter (\<lambda>n. region (nodes ?g ! n) = j) [0..<length (nodes ?g)]" if "j < length (regions ?g)"
      using that d(6) [of j] none by (cases "j = length (regions g)") (auto simp: r o nth_append)
    show "set (node_ports (nodes ?g ! j)) \<subseteq> {p. p < length (ports ?g) \<and> owner (ports ?g ! p) = j}" if "j < length (nodes ?g)"
      using that d(7) [of j] by (simp add: o)
  qed (use p(2) in \<open>simp add: r\<close>)
qed

lemma build_inv_node:
  assumes i: "build_inv g" and r: "r < length (regions g)" and e: "arc_graph_add_node g k r src = Ret (n, g')"
  shows "build_inv g'"
proof -
  let ?n = "\<lparr>node_id = length (nodes g), kind = k, region = r, source_id = src, node_ports = [], cyclic_order = [], attr = AttrZero\<rparr>"
  have n: "nodes g' = nodes g @ [?n]" and o: "ports g' = ports g" "edges g' = edges g"
    and rg: "regions g' = (regions g)[r := (regions g ! r)\<lparr>members := members (regions g ! r) @ [length (nodes g)]\<rparr>]"
    using e r by (auto simp: arc_graph_add_node_def arc_region_add_member_def Let_def)
  have reg: "parent (regions g' ! j) = parent (regions g ! j)" "region_id (regions g' ! j) = region_id (regions g ! j)"
    "members (regions g' ! j) = (if j = r then members (regions g ! r) @ [length (nodes g)] else members (regions g ! j))" for j
    using r by (cases "j = r"; simp add: rg)+
  have len: "length (regions g') = length (regions g)" by (simp add: rg)
  have snoc: "filter (\<lambda>m. region ((nodes g @ [?n]) ! m) = j) [0..<length (nodes g)] =
      filter (\<lambda>m. region (nodes g ! m) = j) [0..<length (nodes g)]" for j
    by (rule filter_cong) (simp_all add: nth_append)
  note d = build_invD [OF i]
  show ?thesis
  proof (rule build_invI)
    fix j
    show "region_ok g' j" if "j < length (regions g')" using that d(1) [of j] by (simp add: region_ok_def reg len Let_def)
    show "node_ok g' j" if "j < length (nodes g')"
      using that d(2) [of j] r by (cases "j = length (nodes g)") (auto simp: node_ok_def n len nth_append Let_def)
    show "edge_ok g' j" if "j < length (edges g')" using that d(3) [of j] by (simp add: edge_ok_def o)
    show "port_ok g' j" if "j < length (ports g')" using that d(4) [of j] by (simp add: port_ok_def o n)
    show "parent (regions g' ! j) = ARC_INVALID_ID \<or> parent (regions g' ! j) < j" if "j < length (regions g')"
      using that d(5) [of j] by (simp add: reg len)
    show "members (regions g' ! j) = filter (\<lambda>n. region (nodes g' ! n) = j) [0..<length (nodes g')]" if "j < length (regions g')"
      using that d(6) [of j] snoc [of j] by (auto simp: reg len n)
    show "set (node_ports (nodes g' ! j)) \<subseteq> {p. p < length (ports g') \<and> owner (ports g' ! p) = j}" if "j < length (nodes g')"
      using that d(7) [of j] by (cases "j = length (nodes g)") (simp_all add: n o nth_append)
  qed (use d(8) in \<open>simp add: len\<close>)
qed

lemma build_inv_port:
  assumes i: "build_inv g" and ow: "ow < length (nodes g)" "cyclic_order (nodes g ! ow) = []"
    and e: "arc_graph_add_port g ow d rl = Ret (p, g')"
  shows "build_inv g'"
proof -
  have n: "nodes g' = (nodes g)[ow := (nodes g ! ow)\<lparr>node_ports := node_ports (nodes g ! ow) @ [length (ports g)]\<rparr>]"
    and o: "regions g' = regions g" "edges g' = edges g"
    and ps: "ports g' = ports g @ [\<lparr>port_id = length (ports g), owner = ow, dir = d, role = rl\<rparr>]"
    using e ow by (auto simp: arc_graph_add_port_def Let_def)
  have nd: "region (nodes g' ! j) = region (nodes g ! j)" "node_id (nodes g' ! j) = node_id (nodes g ! j)"
    "cyclic_order (nodes g' ! j) = cyclic_order (nodes g ! j)"
    "node_ports (nodes g' ! j) = (if j = ow then node_ports (nodes g ! ow) @ [length (ports g)] else node_ports (nodes g ! j))" for j
    using ow by (cases "j = ow"; simp add: n)+
  have len: "length (nodes g') = length (nodes g)" by (simp add: n)
  note d = build_invD [OF i]
  show ?thesis
  proof (rule build_invI)
    fix j
    show "region_ok g' j" if "j < length (regions g')" using that d(1) [of j] by (simp add: region_ok_def o)
    show "node_ok g' j" if "j < length (nodes g')" using that d(2) [of j] ow(2) by (auto simp: node_ok_def nd len o Let_def)
    show "edge_ok g' j" if "j < length (edges g')" using that d(3) [of j] by (auto simp: edge_ok_def o ps nth_append Let_def)
    show "port_ok g' j" if "j < length (ports g')"
      using that d(4) [of j] ow(1) by (cases "j = length (ports g)") (auto simp: port_ok_def ps len nth_append)
    show "parent (regions g' ! j) = ARC_INVALID_ID \<or> parent (regions g' ! j) < j" if "j < length (regions g')"
      using that d(5) [of j] by (simp add: o)
    show "members (regions g' ! j) = filter (\<lambda>n. region (nodes g' ! n) = j) [0..<length (nodes g')]" if "j < length (regions g')"
      using that d(6) [of j] by (simp add: o nd len)
    show "set (node_ports (nodes g' ! j)) \<subseteq> {p. p < length (ports g') \<and> owner (ports g' ! p) = j}" if "j < length (nodes g')"
      using that d(7) [of j] by (auto simp: nd ps nth_append len)
  qed (use d(8) in \<open>simp add: o\<close>)
qed

lemma build_inv_edge:
  assumes i: "build_inv g" and st: "s < length (ports g)" "t < length (ports g)" "dir (ports g ! s) = ARC_PORT_OUTPUT" "dir (ports g ! t) = ARC_PORT_INPUT"
  shows "build_inv (snd (arc_graph_add_edge g s t))"
proof -
  have "edge_ok (snd (arc_graph_add_edge g s t)) j" if "j < Suc (length (edges g))" for j
    using that st build_invD(3) [OF i, of j]
    by (cases "j = length (edges g)") (auto simp: edge_ok_def arc_graph_add_edge_def nth_append Let_def)
  with i show ?thesis
    by (simp add: build_inv_def graph_ok_def region_ok_def node_ok_def port_ok_def parent_rel_def arc_graph_add_edge_def)
qed

text \<open>An update of a node that keeps its id, region and ports and whose cyclic order is an arrangement of them.\<close>

lemma build_inv_update:
  assumes i: "build_inv g" and n: "n < length (nodes g)"
    and nd: "node_id nd = n" "region nd = region (nodes g ! n)" "node_ports nd = node_ports (nodes g ! n)"
      "cyclic_order nd \<noteq> [] \<Longrightarrow> length (cyclic_order nd) = length (node_ports nd) \<and> set (cyclic_order nd) \<subseteq> set (node_ports nd)"
  shows "build_inv (g\<lparr>nodes := (nodes g)[n := nd]\<rparr>)"
proof -
  note d = build_invD [OF i]
  have r: "region ((nodes g)[n := nd] ! j) = region (nodes g ! j)" for j using n nd(2) by (cases "j = n") simp_all
  have "node_ok (g\<lparr>nodes := (nodes g)[n := nd]\<rparr>) j" if "j < length (nodes g)" for j
    using that d(2) [of j] nd by (cases "j = n") (simp_all add: node_ok_def Let_def)
  moreover have "set (node_ports ((nodes g)[n := nd] ! j)) \<subseteq> {p. p < length (ports g) \<and> owner (ports g ! p) = j}"
    if "j < length (nodes g)" for j using that d(7) [of j] nd(3) by (cases "j = n") simp_all
  ultimately show ?thesis using i
    by (simp add: build_inv_def graph_ok_def region_ok_def edge_ok_def port_ok_def parent_rel_def r)
qed

lemma build_inv_built: "built g \<Longrightarrow> build_inv g"
proof (induction rule: built.induct)
  case built_init
  show ?case by (rule build_invI) (simp_all add: arc_graph_init_def ARC_INVALID_ID_def)
next
  case (built_order g n order g')
  then show ?case using build_invD(2) [OF built_order.IH, of n]
    by (auto simp: arc_node_set_cyclic_order_def node_ok_def Let_def split: if_splits intro!: build_inv_update)
next
  case (built_attr g n a)
  then show ?case using build_invD(2) [OF built_attr.IH, of n]
    by (intro build_inv_update) (auto simp: node_ok_def Let_def)
next
  case (built_root g r)
  then show ?case by (simp add: build_inv_def graph_ok_def region_ok_def node_ok_def edge_ok_def port_ok_def parent_rel_def)
next
  case (built_output g n)
  then show ?case by (simp add: build_inv_def graph_ok_def region_ok_def node_ok_def edge_ok_def port_ok_def parent_rel_def)
qed (rule build_inv_region build_inv_node build_inv_port build_inv_edge; assumption)+

lemma build_inv_valid:
  assumes "build_inv g" "root_region g \<noteq> ARC_INVALID_ID"
  shows "gv_valid (arc_graph_validate g)"
proof -
  have "\<not> cyclic_ancestry g j (parent (regions g ! j)) (length (regions g))" if "j < length (regions g)" for j
    using acyclic_ancestry [OF build_invD(8) [OF assms(1)]] assms(1) that by (simp add: build_inv_def graph_ok_def)
  then show ?thesis using assms by (auto simp: arc_graph_validate_def validate_parts build_inv_def graph_ok_def)
qed



end

