(* ===== verification/Diagnostics.thy ===== *)
theory Diagnostics
  imports Arc_Objects
begin

text \<open>
  Structured diagnostics, \<^verbatim>\<open>src/compiler/diagnostics.h\<close>. The codes are their numbers. Printing gives the
  text that is written to the stream.
\<close>

datatype ArcDiagSeverity = ARC_DIAG_ERROR | ARC_DIAG_WARNING | ARC_DIAG_NOTE

type_synonym ArcDiagCode = nat

record ArcSourceRef =
  element_id :: ArcElementId
  ref_node :: ArcNodeId
  port_role :: "string option"

record ArcRelatedRef =
  rel_ref :: ArcSourceRef
  rel_label :: string

record ArcDiagnostic =
  severity :: ArcDiagSeverity
  diag_code :: ArcDiagCode
  diag_message :: string
  primary :: ArcSourceRef
  related :: "ArcRelatedRef list"
  diag_note :: string

type_synonym ArcDiagList = "ArcDiagnostic list"

definition arc_diag_init :: ArcDiagList where
  "arc_diag_init = []"

definition arc_diag_free :: "ArcDiagList \<Rightarrow> ArcDiagList" where
  "arc_diag_free d = []"

text \<open>The new entry is filled in by the caller.\<close>

definition arc_diag_add :: "ArcDiagList \<Rightarrow> ArcDiagnostic \<Rightarrow> ArcDiagList" where
  "arc_diag_add d x = d @ [x]"

definition arc_diag_code_str :: "ArcDiagCode \<Rightarrow> string" where
  "arc_diag_code_str c =
     (if c = 0 then ''ARC-0000''
      else if 1001 \<le> c \<and> c \<le> 1999 then ''ARC-GRAPH-'' @ pad4 (dec_digits (c - 1000))
      else if 2001 \<le> c \<and> c \<le> 2999 then ''ARC-SEM-'' @ pad4 (dec_digits (c - 2000))
      else if 3001 \<le> c \<and> c \<le> 3999 then ''ARC-TYPE-'' @ pad4 (dec_digits (c - 3000))
      else if 4001 \<le> c \<and> c \<le> 4999 then ''ARC-CODE-'' @ pad4 (dec_digits (c - 4000))
      else if 5001 \<le> c \<and> c \<le> 5999 then ''ARC-VM-'' @ pad4 (dec_digits (c - 5000))
      else ''ARC-'' @ pad4 (dec_digits c))"

fun sev_str :: "ArcDiagSeverity \<Rightarrow> string" where
  "sev_str ARC_DIAG_ERROR = ''error''"
| "sev_str ARC_DIAG_WARNING = ''warning''"
| "sev_str ARC_DIAG_NOTE = ''note''"

definition diag_text :: "ArcDiagnostic \<Rightarrow> string" where
  "diag_text d =
     (let p = primary d; nl = [CHR 0x0A];
          el = element_id p \<noteq> 0; nd = ref_node p \<noteq> ARC_INVALID_ID in
      sev_str (severity d) @ ''['' @ arc_diag_code_str (diag_code d) @ '']: '' @ c_str (diag_message d) @ nl @
      (if el then ''  --> element '' @ dec_digits (unat (element_id p)) else []) @
      (if nd then '' (node '' @ dec_digits (ref_node p) @ '')'' else []) @
      (case port_role p of Some r \<Rightarrow> '' port '' @ [CHR 0x27] @ c_str r @ [CHR 0x27] | None \<Rightarrow> []) @
      (if el \<or> nd then nl else []) @
      concat (map (\<lambda>r. ''  = '' @ c_str (rel_label r) @ '': element '' @ dec_digits (unat (element_id (rel_ref r))) @ nl) (related d)) @
      (if c_str (diag_note d) \<noteq> [] then ''  = note: '' @ c_str (diag_note d) @ nl else []))"

definition arc_diag_print :: "ArcDiagList \<Rightarrow> string" where
  "arc_diag_print ds = concat (map diag_text ds)"

end
