(* ===== verification/Typecheck.thy ===== *)
theory Typecheck
  imports Sem_Graph Diagnostics
begin

text \<open>
  The type checker, \<^verbatim>\<open>src/typecheck/typecheck.{h,c}\<close>: inference by recursion over the data edges, memoized
  per node. The recursion of \<^verbatim>\<open>infer_type\<close> is bounded by \<open>depth\<close>, the number of nested calls the C stack
  affords; exceeding it is \<open>Undef\<close>. A reference to a node or port that does not exist is \<open>Undef\<close>, too.
\<close>

section \<open>Types and context\<close>

datatype ArcType =
    ARC_TYPE_UNKNOWN | ARC_TYPE_NULL | ARC_TYPE_BOOL | ARC_TYPE_I64 | ARC_TYPE_F64 | ARC_TYPE_STRING
  | ARC_TYPE_ARRAY | ARC_TYPE_MAP | ARC_TYPE_CLOSURE | ARC_TYPE_ANY

fun arc_type_name :: "ArcType \<Rightarrow> string" where
  "arc_type_name ARC_TYPE_UNKNOWN = ''unknown''"
| "arc_type_name ARC_TYPE_NULL = ''null''"
| "arc_type_name ARC_TYPE_BOOL = ''bool''"
| "arc_type_name ARC_TYPE_I64 = ''i64''"
| "arc_type_name ARC_TYPE_F64 = ''f64''"
| "arc_type_name ARC_TYPE_STRING = ''string''"
| "arc_type_name ARC_TYPE_ARRAY = ''array''"
| "arc_type_name ARC_TYPE_MAP = ''map''"
| "arc_type_name ARC_TYPE_CLOSURE = ''closure''"
| "arc_type_name ARC_TYPE_ANY = ''any''"

record TcCtx =
  tc_diags :: ArcDiagList
  tc_types :: "ArcType list"
  had_error :: bool

definition tc_error :: "ArcGraph \<Rightarrow> ArcNodeId \<Rightarrow> string \<Rightarrow> TcCtx \<Rightarrow> TcCtx" where
  "tc_error g n msg c =
     c\<lparr>tc_diags := arc_diag_add (tc_diags c)
         \<lparr>severity = ARC_DIAG_ERROR, diag_code = 3001, diag_message = take 255 msg,
          primary = \<lparr>element_id = (if n < length (nodes g) then source_id (nodes g ! n) else 0), ref_node = n, port_role = None\<rparr>,
          related = [], diag_note = []\<rparr>,
       had_error := True\<rparr>"

definition tc_find_source :: "ArcGraph \<Rightarrow> ArcPortId \<Rightarrow> ArcNodeId outcome" where
  "tc_find_source g p = (if p = ARC_INVALID_ID then Ret ARC_INVALID_ID else edge_source g p (edges g))"

definition tc_find_port :: "ArcGraph \<Rightarrow> ArcNodeId \<Rightarrow> string \<Rightarrow> ArcPortDir \<Rightarrow> ArcPortId outcome" where
  "tc_find_port g n rl d = (if n < length (nodes g) then port_with_role g rl d (node_ports (nodes g ! n)) else Undef)"

section \<open>Inference\<close>

type_synonym tc_result = "(ArcType \<times> TcCtx) outcome"

text \<open>The node that feeds an input, found by role or by the role \<^verbatim>\<open>in\<close>; \<^const>\<open>None\<close> when there is none.\<close>

definition input_source :: "ArcGraph \<Rightarrow> ArcNodeId \<Rightarrow> string \<Rightarrow> ArcNodeId option outcome" where
  "input_source g n rl =
     andthen (tc_find_port g n rl ARC_PORT_INPUT) (\<lambda>p1.
     andthen (if p1 = ARC_INVALID_ID then tc_find_port g n ''in'' ARC_PORT_INPUT else Ret p1) (\<lambda>p.
       if p = ARC_INVALID_ID then Ret None
       else andthen (tc_find_source g p) (\<lambda>src. Ret (if src = ARC_INVALID_ID then None else Some src))))"

definition infer_input ::
    "(ArcNodeId \<Rightarrow> TcCtx \<Rightarrow> tc_result) \<Rightarrow> ArcGraph \<Rightarrow> ArcNodeId \<Rightarrow> string \<Rightarrow> TcCtx \<Rightarrow> tc_result" where
  "infer_input infer g n rl c =
     andthen (input_source g n rl) (\<lambda>s. case s of None \<Rightarrow> Ret (ARC_TYPE_UNKNOWN, c) | Some src \<Rightarrow> infer src c)"

definition is_numeric :: "ArcType \<Rightarrow> bool" where
  "is_numeric t \<longleftrightarrow> t = ARC_TYPE_I64 \<or> t = ARC_TYPE_F64"

text \<open>The two inputs of a binary node, in order, and the input of a unary one.\<close>

definition infer_both :: "(ArcNodeId \<Rightarrow> TcCtx \<Rightarrow> tc_result) \<Rightarrow> ArcGraph \<Rightarrow> ArcNodeId \<Rightarrow>
    (ArcType \<Rightarrow> ArcType \<Rightarrow> TcCtx \<Rightarrow> ArcType \<times> TcCtx) \<Rightarrow> TcCtx \<Rightarrow> tc_result" where
  "infer_both infer g n k c =
     andthen (infer_input infer g n ''lhs'' c) (\<lambda>(lhs, c).
     andthen (infer_input infer g n ''rhs'' c) (\<lambda>(rhs, c). Ret (k lhs rhs c)))"

definition infer_value :: "(ArcNodeId \<Rightarrow> TcCtx \<Rightarrow> tc_result) \<Rightarrow> ArcGraph \<Rightarrow> ArcNodeId \<Rightarrow>
    (ArcType \<Rightarrow> TcCtx \<Rightarrow> ArcType \<times> TcCtx) \<Rightarrow> TcCtx \<Rightarrow> tc_result" where
  "infer_value infer g n k c = andthen (infer_input infer g n ''value'' c) (\<lambda>(v, c). Ret (k v c))"

definition add_type :: "ArcGraph \<Rightarrow> ArcNodeId \<Rightarrow> ArcType \<Rightarrow> ArcType \<Rightarrow> TcCtx \<Rightarrow> ArcType \<times> TcCtx" where
  "add_type g n lhs rhs c =
     (if lhs = ARC_TYPE_STRING \<and> rhs = ARC_TYPE_STRING then (ARC_TYPE_STRING, c)
      else if is_numeric lhs \<and> is_numeric rhs then
        (if lhs = ARC_TYPE_F64 \<or> rhs = ARC_TYPE_F64 then ARC_TYPE_F64 else ARC_TYPE_I64, c)
      else if lhs = ARC_TYPE_ANY \<or> rhs = ARC_TYPE_ANY then (ARC_TYPE_ANY, c)
      else (ARC_TYPE_ANY, tc_error g n (''ADD requires numeric or string operands, got '' @ arc_type_name lhs @ '' and '' @ arc_type_name rhs) c))"

definition infer_add :: "(ArcNodeId \<Rightarrow> TcCtx \<Rightarrow> tc_result) \<Rightarrow> ArcGraph \<Rightarrow> ArcNodeId \<Rightarrow> TcCtx \<Rightarrow> tc_result" where
  "infer_add infer g n = infer_both infer g n (add_type g n)"

definition arith_type :: "ArcGraph \<Rightarrow> ArcNodeId \<Rightarrow> ArcNodeKind \<Rightarrow> ArcType \<Rightarrow> ArcType \<Rightarrow> TcCtx \<Rightarrow> ArcType \<times> TcCtx" where
  "arith_type g n k lhs rhs c =
     (if is_numeric lhs \<and> is_numeric rhs then
        (if lhs = ARC_TYPE_F64 \<or> rhs = ARC_TYPE_F64 then ARC_TYPE_F64 else ARC_TYPE_I64, c)
      else if lhs = ARC_TYPE_ANY \<or> rhs = ARC_TYPE_ANY then (ARC_TYPE_ANY, c)
      else (ARC_TYPE_ANY, tc_error g n
        ((if k = ARC_NODE_SUB then ''SUB'' else if k = ARC_NODE_MUL then ''MUL'' else if k = ARC_NODE_DIV then ''DIV'' else ''MOD'') @
         '' requires numeric operands, got '' @ arc_type_name lhs @ '' and '' @ arc_type_name rhs) c))"

definition infer_arith :: "(ArcNodeId \<Rightarrow> TcCtx \<Rightarrow> tc_result) \<Rightarrow> ArcGraph \<Rightarrow> ArcNodeId \<Rightarrow> ArcNodeKind \<Rightarrow> TcCtx \<Rightarrow> tc_result" where
  "infer_arith infer g n k = infer_both infer g n (arith_type g n k)"

definition operand_check :: "ArcGraph \<Rightarrow> ArcNodeId \<Rightarrow> bool \<Rightarrow> string \<Rightarrow> TcCtx \<Rightarrow> TcCtx" where
  "operand_check g n bad msg c = (if bad then tc_error g n msg c else c)"

definition comparison_type :: "ArcGraph \<Rightarrow> ArcNodeId \<Rightarrow> ArcType \<Rightarrow> ArcType \<Rightarrow> TcCtx \<Rightarrow> ArcType \<times> TcCtx" where
  "comparison_type g n lhs rhs c =
     (ARC_TYPE_BOOL,
      operand_check g n (\<not> is_numeric rhs \<and> rhs \<noteq> ARC_TYPE_ANY) (''comparison requires numeric operands, got '' @ arc_type_name rhs)
     (operand_check g n (\<not> is_numeric lhs \<and> lhs \<noteq> ARC_TYPE_ANY) (''comparison requires numeric operands, got '' @ arc_type_name lhs) c))"

definition infer_comparison :: "(ArcNodeId \<Rightarrow> TcCtx \<Rightarrow> tc_result) \<Rightarrow> ArcGraph \<Rightarrow> ArcNodeId \<Rightarrow> TcCtx \<Rightarrow> tc_result" where
  "infer_comparison infer g n = infer_both infer g n (comparison_type g n)"

definition bitwise_type :: "ArcGraph \<Rightarrow> ArcNodeId \<Rightarrow> ArcType \<Rightarrow> ArcType \<Rightarrow> TcCtx \<Rightarrow> ArcType \<times> TcCtx" where
  "bitwise_type g n lhs rhs c =
     (ARC_TYPE_I64,
      operand_check g n (rhs \<noteq> ARC_TYPE_I64 \<and> rhs \<noteq> ARC_TYPE_ANY) (''bitwise op requires i64 operands, got '' @ arc_type_name rhs)
     (operand_check g n (lhs \<noteq> ARC_TYPE_I64 \<and> lhs \<noteq> ARC_TYPE_ANY) (''bitwise op requires i64 operands, got '' @ arc_type_name lhs) c))"

definition infer_bitwise_binary :: "(ArcNodeId \<Rightarrow> TcCtx \<Rightarrow> tc_result) \<Rightarrow> ArcGraph \<Rightarrow> ArcNodeId \<Rightarrow> TcCtx \<Rightarrow> tc_result" where
  "infer_bitwise_binary infer g n = infer_both infer g n (bitwise_type g n)"

definition neg_type :: "ArcGraph \<Rightarrow> ArcNodeId \<Rightarrow> ArcType \<Rightarrow> TcCtx \<Rightarrow> ArcType \<times> TcCtx" where
  "neg_type g n v c =
     (if is_numeric v then (v, c) else if v = ARC_TYPE_ANY then (ARC_TYPE_ANY, c)
      else (ARC_TYPE_ANY, tc_error g n (''NEG requires numeric operand, got '' @ arc_type_name v) c))"

definition infer_neg :: "(ArcNodeId \<Rightarrow> TcCtx \<Rightarrow> tc_result) \<Rightarrow> ArcGraph \<Rightarrow> ArcNodeId \<Rightarrow> TcCtx \<Rightarrow> tc_result" where
  "infer_neg infer g n = infer_value infer g n (neg_type g n)"

definition bit_not_type :: "ArcGraph \<Rightarrow> ArcNodeId \<Rightarrow> ArcType \<Rightarrow> TcCtx \<Rightarrow> ArcType \<times> TcCtx" where
  "bit_not_type g n v c =
     (ARC_TYPE_I64, operand_check g n (v \<noteq> ARC_TYPE_I64 \<and> v \<noteq> ARC_TYPE_ANY) (''BIT_NOT requires i64 operand, got '' @ arc_type_name v) c)"

definition infer_bit_not :: "(ArcNodeId \<Rightarrow> TcCtx \<Rightarrow> tc_result) \<Rightarrow> ArcGraph \<Rightarrow> ArcNodeId \<Rightarrow> TcCtx \<Rightarrow> tc_result" where
  "infer_bit_not infer g n = infer_value infer g n (bit_not_type g n)"

definition str_len_type :: "ArcGraph \<Rightarrow> ArcNodeId \<Rightarrow> ArcType \<Rightarrow> TcCtx \<Rightarrow> ArcType \<times> TcCtx" where
  "str_len_type g n v c =
     (ARC_TYPE_I64, operand_check g n (v \<noteq> ARC_TYPE_STRING \<and> v \<noteq> ARC_TYPE_ANY) (''STR_LEN requires string, got '' @ arc_type_name v) c)"

definition infer_str_len :: "(ArcNodeId \<Rightarrow> TcCtx \<Rightarrow> tc_result) \<Rightarrow> ArcGraph \<Rightarrow> ArcNodeId \<Rightarrow> TcCtx \<Rightarrow> tc_result" where
  "infer_str_len infer g n = infer_value infer g n (str_len_type g n)"

definition infer_simple_kind :: "(ArcNodeId \<Rightarrow> TcCtx \<Rightarrow> tc_result) \<Rightarrow> ArcGraph \<Rightarrow> ArcNodeId \<Rightarrow> ArcNodeKind \<Rightarrow> TcCtx \<Rightarrow> tc_result" where
  "infer_simple_kind infer g n k c =
     (let both = (\<lambda>t. infer_both infer g n (\<lambda>_ _ c. (t, c)) c);
          value = (\<lambda>t. infer_value infer g n (\<lambda>_ c. (t, c)) c);
          plain = (\<lambda>t. Ret (t, c)) in
      if k = ARC_NODE_EQ \<or> k = ARC_NODE_NEQ then both ARC_TYPE_BOOL
      else if k = ARC_NODE_NOT then value ARC_TYPE_BOOL
      else if k = ARC_NODE_AND \<or> k = ARC_NODE_OR then both ARC_TYPE_ANY
      else if k = ARC_NODE_CAST_I64 then value ARC_TYPE_I64
      else if k = ARC_NODE_CAST_F64 then value ARC_TYPE_F64
      else if k = ARC_NODE_CAST_STR then value ARC_TYPE_STRING
      else if k = ARC_NODE_STR_SLICE \<or> k = ARC_NODE_STR_INDEX then plain ARC_TYPE_STRING
      else if k = ARC_NODE_LENGTH then value ARC_TYPE_I64
      else if k = ARC_NODE_ARRAY_LITERAL then plain ARC_TYPE_ARRAY
      else if k = ARC_NODE_MAP_LITERAL then plain ARC_TYPE_MAP
      else if k = ARC_NODE_INDEX_GET then plain ARC_TYPE_ANY
      else if k = ARC_NODE_INDEX_SET then plain ARC_TYPE_NULL
      else if k \<in> {ARC_NODE_IF, ARC_NODE_WHILE, ARC_NODE_CYCLE, ARC_NODE_LET, ARC_NODE_ASSIGN, ARC_NODE_SEQUENCE,
                    ARC_NODE_ROOT_OUTPUT, ARC_NODE_PRINT, ARC_NODE_BREAK_IF} then plain ARC_TYPE_NULL
      else if k \<in> {ARC_NODE_VAR_REF, ARC_NODE_FUNC_CALL, ARC_NODE_INTRINSIC_CALL, ARC_NODE_PARAM} then plain ARC_TYPE_ANY
      else if k = ARC_NODE_FUNC_DEF \<or> k = ARC_NODE_CLOSURE then plain ARC_TYPE_CLOSURE
      else if k = ARC_NODE_RETURN \<or> k = ARC_NODE_THROW then value ARC_TYPE_NULL
      else if k = ARC_NODE_TRY then plain ARC_TYPE_NULL
      else plain ARC_TYPE_ANY)"

definition infer_kind :: "(ArcNodeId \<Rightarrow> TcCtx \<Rightarrow> tc_result) \<Rightarrow> ArcGraph \<Rightarrow> ArcNodeId \<Rightarrow> ArcNodeKind \<Rightarrow> TcCtx \<Rightarrow> tc_result" where
  "infer_kind infer g n k c =
     (if k = ARC_NODE_CONST_INT then Ret (ARC_TYPE_I64, c)
      else if k = ARC_NODE_CONST_FLOAT then Ret (ARC_TYPE_F64, c)
      else if k = ARC_NODE_CONST_BOOL then Ret (ARC_TYPE_BOOL, c)
      else if k = ARC_NODE_CONST_NULL then Ret (ARC_TYPE_NULL, c)
      else if k = ARC_NODE_CONST_STRING then Ret (ARC_TYPE_STRING, c)
      else if k = ARC_NODE_ADD then infer_add infer g n c
      else if k \<in> {ARC_NODE_SUB, ARC_NODE_MUL, ARC_NODE_DIV, ARC_NODE_MOD} then infer_arith infer g n k c
      else if k = ARC_NODE_NEG then infer_neg infer g n c
      else if k \<in> {ARC_NODE_LT, ARC_NODE_LE, ARC_NODE_GT, ARC_NODE_GE} then infer_comparison infer g n c
      else if k \<in> {ARC_NODE_BIT_AND, ARC_NODE_BIT_OR, ARC_NODE_BIT_XOR, ARC_NODE_SHL, ARC_NODE_SHR} then infer_bitwise_binary infer g n c
      else if k = ARC_NODE_BIT_NOT then infer_bit_not infer g n c
      else if k = ARC_NODE_STR_LEN then infer_str_len infer g n c
      else infer_simple_kind infer g n k c)"

fun infer_type :: "nat \<Rightarrow> ArcGraph \<Rightarrow> ArcNodeId \<Rightarrow> TcCtx \<Rightarrow> tc_result" where
  "infer_type 0 g n c = Undef"
| "infer_type (Suc depth) g n c =
     (if length (nodes g) \<le> n then Ret (ARC_TYPE_UNKNOWN, c)
      else if tc_types c ! n \<noteq> ARC_TYPE_UNKNOWN then Ret (tc_types c ! n, c)
      else andthen (infer_kind (infer_type depth g) g n (kind (nodes g ! n)) c) (\<lambda>(t, c).
             Ret (t, c\<lparr>tc_types := (tc_types c)[n := t]\<rparr>)))"

section \<open>The pass\<close>

record ArcTypeCheckResult =
  diagnostics :: ArcDiagList
  node_types :: "ArcType list"
  success :: bool

fun infer_nodes :: "nat \<Rightarrow> ArcGraph \<Rightarrow> ArcNodeId list \<Rightarrow> TcCtx \<Rightarrow> TcCtx outcome" where
  "infer_nodes depth g [] c = Ret c"
| "infer_nodes depth g (n # ns) c = andthen (infer_type depth g n c) (\<lambda>(_, c). infer_nodes depth g ns c)"

definition arc_typecheck :: "nat \<Rightarrow> ArcGraph \<Rightarrow> ArcTypeCheckResult outcome" where
  "arc_typecheck depth g =
     (if nodes g = [] then Ret \<lparr>diagnostics = arc_diag_init, node_types = [], success = True\<rparr>
      else andthen (infer_nodes depth g [0..<length (nodes g)]
                      \<lparr>tc_diags = arc_diag_init, tc_types = replicate (length (nodes g)) ARC_TYPE_UNKNOWN, had_error = False\<rparr>)
             (\<lambda>c. Ret \<lparr>diagnostics = tc_diags c, node_types = tc_types c, success = \<not> had_error c\<rparr>))"

definition arc_typecheck_result_free :: "ArcTypeCheckResult \<Rightarrow> ArcTypeCheckResult" where
  "arc_typecheck_result_free r = \<lparr>diagnostics = arc_diag_free (diagnostics r), node_types = [], success = False\<rparr>"

section \<open>Typing rules\<close>

definition binary_kinds :: "ArcNodeKind set" where
  "binary_kinds = {ARC_NODE_ADD, ARC_NODE_SUB, ARC_NODE_MUL, ARC_NODE_DIV, ARC_NODE_MOD, ARC_NODE_LT, ARC_NODE_LE, ARC_NODE_GT,
     ARC_NODE_GE, ARC_NODE_BIT_AND, ARC_NODE_BIT_OR, ARC_NODE_BIT_XOR, ARC_NODE_SHL, ARC_NODE_SHR, ARC_NODE_EQ, ARC_NODE_NEQ,
     ARC_NODE_AND, ARC_NODE_OR}"

definition unary_kinds :: "ArcNodeKind set" where
  "unary_kinds = {ARC_NODE_NEG, ARC_NODE_BIT_NOT, ARC_NODE_STR_LEN, ARC_NODE_NOT, ARC_NODE_CAST_I64, ARC_NODE_CAST_F64,
     ARC_NODE_CAST_STR, ARC_NODE_LENGTH, ARC_NODE_RETURN, ARC_NODE_THROW}"

definition num_type :: "ArcType \<Rightarrow> ArcType \<Rightarrow> ArcType option" where
  "num_type l r =
     (if is_numeric l \<and> is_numeric r then Some (if l = ARC_TYPE_I64 \<and> r = ARC_TYPE_I64 then ARC_TYPE_I64 else ARC_TYPE_F64)
      else if l = ARC_TYPE_ANY \<or> r = ARC_TYPE_ANY then Some ARC_TYPE_ANY else None)"

text \<open>The type of a node from the types of its inputs \<^verbatim>\<open>lhs\<close>, \<^verbatim>\<open>rhs\<close> and \<^verbatim>\<open>value\<close>; \<^const>\<open>None\<close> where they do not fit.\<close>

definition type_rule :: "ArcNodeKind \<Rightarrow> ArcType \<Rightarrow> ArcType \<Rightarrow> ArcType \<Rightarrow> ArcType option" where
  "type_rule k l r v =
     (if k = ARC_NODE_ADD then (if l = ARC_TYPE_STRING \<and> r = ARC_TYPE_STRING then Some ARC_TYPE_STRING else num_type l r)
      else if k \<in> {ARC_NODE_SUB, ARC_NODE_MUL, ARC_NODE_DIV, ARC_NODE_MOD} then num_type l r
      else if k = ARC_NODE_NEG then (if is_numeric v \<or> v = ARC_TYPE_ANY then Some v else None)
      else if k \<in> {ARC_NODE_LT, ARC_NODE_LE, ARC_NODE_GT, ARC_NODE_GE} then
        (if (is_numeric l \<or> l = ARC_TYPE_ANY) \<and> (is_numeric r \<or> r = ARC_TYPE_ANY) then Some ARC_TYPE_BOOL else None)
      else if k \<in> {ARC_NODE_BIT_AND, ARC_NODE_BIT_OR, ARC_NODE_BIT_XOR, ARC_NODE_SHL, ARC_NODE_SHR} then
        (if l \<in> {ARC_TYPE_I64, ARC_TYPE_ANY} \<and> r \<in> {ARC_TYPE_I64, ARC_TYPE_ANY} then Some ARC_TYPE_I64 else None)
      else if k = ARC_NODE_BIT_NOT then (if v \<in> {ARC_TYPE_I64, ARC_TYPE_ANY} then Some ARC_TYPE_I64 else None)
      else if k = ARC_NODE_STR_LEN then (if v \<in> {ARC_TYPE_STRING, ARC_TYPE_ANY} then Some ARC_TYPE_I64 else None)
      else if k \<in> {ARC_NODE_CONST_INT, ARC_NODE_CAST_I64, ARC_NODE_LENGTH} then Some ARC_TYPE_I64
      else if k \<in> {ARC_NODE_CONST_FLOAT, ARC_NODE_CAST_F64} then Some ARC_TYPE_F64
      else if k \<in> {ARC_NODE_CONST_BOOL, ARC_NODE_EQ, ARC_NODE_NEQ, ARC_NODE_NOT} then Some ARC_TYPE_BOOL
      else if k \<in> {ARC_NODE_CONST_STRING, ARC_NODE_CAST_STR, ARC_NODE_STR_SLICE, ARC_NODE_STR_INDEX} then Some ARC_TYPE_STRING
      else if k = ARC_NODE_ARRAY_LITERAL then Some ARC_TYPE_ARRAY
      else if k = ARC_NODE_MAP_LITERAL then Some ARC_TYPE_MAP
      else if k \<in> {ARC_NODE_FUNC_DEF, ARC_NODE_CLOSURE} then Some ARC_TYPE_CLOSURE
      else if k \<in> {ARC_NODE_CONST_NULL, ARC_NODE_INDEX_SET, ARC_NODE_IF, ARC_NODE_WHILE, ARC_NODE_CYCLE, ARC_NODE_LET,
                    ARC_NODE_ASSIGN, ARC_NODE_SEQUENCE, ARC_NODE_ROOT_OUTPUT, ARC_NODE_PRINT, ARC_NODE_BREAK_IF,
                    ARC_NODE_RETURN, ARC_NODE_THROW, ARC_NODE_TRY} then Some ARC_TYPE_NULL
      else Some ARC_TYPE_ANY)"

text \<open>The type the checker goes on with after an error.\<close>

definition rule_type :: "ArcNodeKind \<Rightarrow> ArcType \<Rightarrow> ArcType \<Rightarrow> ArcType \<Rightarrow> ArcType" where
  "rule_type k l r v =
     (case type_rule k l r v of
        Some t \<Rightarrow> t
      | None \<Rightarrow>
          if k \<in> {ARC_NODE_LT, ARC_NODE_LE, ARC_NODE_GT, ARC_NODE_GE} then ARC_TYPE_BOOL
          else if k \<in> {ARC_NODE_ADD, ARC_NODE_SUB, ARC_NODE_MUL, ARC_NODE_DIV, ARC_NODE_MOD, ARC_NODE_NEG} then ARC_TYPE_ANY
          else ARC_TYPE_I64)"

text \<open>\<open>c'\<close> is \<open>c\<close> after some diagnostics, an error among them exactly if the rule does not apply.\<close>

definition reported :: "TcCtx \<Rightarrow> TcCtx \<Rightarrow> ArcType option \<Rightarrow> bool" where
  "reported c c' t \<longleftrightarrow> tc_types c' = tc_types c \<and> had_error c' = (had_error c \<or> t = None)"

lemma reported_error [simp]:
  "tc_types (tc_error g n msg c) = tc_types c" "had_error (tc_error g n msg c)"
  "tc_types (operand_check g n bad msg c) = tc_types c" "had_error (operand_check g n bad msg c) = (had_error c \<or> bad)"
  by (simp_all add: tc_error_def operand_check_def)

lemma infer_kind_binary:
  assumes "k \<in> binary_kinds"
  shows "\<exists>f. (\<forall>c. infer_kind infer g n k c = infer_both infer g n f c) \<and>
    (\<forall>l r c v. fst (f l r c) = rule_type k l r v \<and> reported c (snd (f l r c)) (type_rule k l r v))"
proof -
  consider "k = ARC_NODE_ADD" | "k \<in> {ARC_NODE_SUB, ARC_NODE_MUL, ARC_NODE_DIV, ARC_NODE_MOD}"
    | "k \<in> {ARC_NODE_LT, ARC_NODE_LE, ARC_NODE_GT, ARC_NODE_GE}"
    | "k \<in> {ARC_NODE_BIT_AND, ARC_NODE_BIT_OR, ARC_NODE_BIT_XOR, ARC_NODE_SHL, ARC_NODE_SHR}"
    | "k \<in> {ARC_NODE_EQ, ARC_NODE_NEQ}" | "k \<in> {ARC_NODE_AND, ARC_NODE_OR}"
    using assms unfolding binary_kinds_def by blast
  then show ?thesis
  proof cases
    case 1
    then show ?thesis
      by (intro exI [of _ "add_type g n"])
        (auto simp: infer_kind_def infer_add_def add_type_def rule_type_def type_rule_def num_type_def reported_def is_numeric_def)
  next
    case 2
    then have "infer_kind infer g n k c = infer_both infer g n (arith_type g n k) c" for c
      by (elim insertE emptyE; simp add: infer_kind_def infer_arith_def)
    moreover have "type_rule k l r v = num_type l r" "rule_type k l r v = (case num_type l r of Some t \<Rightarrow> t | None \<Rightarrow> ARC_TYPE_ANY)" for l r v
      using 2 by (elim insertE emptyE; simp add: type_rule_def rule_type_def)+
    ultimately show ?thesis
      by (intro exI [of _ "arith_type g n k"]) (auto simp: arith_type_def num_type_def reported_def is_numeric_def)
  next
    case 3
    then have "infer_kind infer g n k c = infer_both infer g n (comparison_type g n) c" for c
      by (elim insertE emptyE; simp add: infer_kind_def infer_comparison_def)
    moreover have "rule_type k l r v = ARC_TYPE_BOOL" "type_rule k l r v = (if (is_numeric l \<or> l = ARC_TYPE_ANY) \<and> (is_numeric r \<or> r = ARC_TYPE_ANY) then Some ARC_TYPE_BOOL else None)" for l r v
      using 3 by (elim insertE emptyE; simp add: type_rule_def rule_type_def)+
    ultimately show ?thesis by (intro exI [of _ "comparison_type g n"]) (auto simp: comparison_type_def reported_def)
  next
    case 4
    then have "infer_kind infer g n k c = infer_both infer g n (bitwise_type g n) c" for c
      by (elim insertE emptyE; simp add: infer_kind_def infer_bitwise_binary_def)
    moreover have "rule_type k l r v = ARC_TYPE_I64" "type_rule k l r v = (if l \<in> {ARC_TYPE_I64, ARC_TYPE_ANY} \<and> r \<in> {ARC_TYPE_I64, ARC_TYPE_ANY} then Some ARC_TYPE_I64 else None)" for l r v
      using 4 by (elim insertE emptyE; simp add: type_rule_def rule_type_def)+
    ultimately show ?thesis by (intro exI [of _ "bitwise_type g n"]) (auto simp: bitwise_type_def reported_def)
  next
    case 5
    then show ?thesis
      by (intro exI [of _ "\<lambda>_ _ c. (ARC_TYPE_BOOL, c)"])
        (elim insertE emptyE; simp add: infer_kind_def infer_simple_kind_def rule_type_def type_rule_def reported_def)
  next
    case 6
    then show ?thesis
      by (intro exI [of _ "\<lambda>_ _ c. (ARC_TYPE_ANY, c)"])
        (elim insertE emptyE; simp add: infer_kind_def infer_simple_kind_def rule_type_def type_rule_def reported_def)
  qed
qed

lemma infer_kind_unary:
  assumes "k \<in> unary_kinds"
  shows "\<exists>f. (\<forall>c. infer_kind infer g n k c = infer_value infer g n f c) \<and>
    (\<forall>l r c v. fst (f v c) = rule_type k l r v \<and> reported c (snd (f v c)) (type_rule k l r v))"
proof -
  consider "k = ARC_NODE_NEG" | "k = ARC_NODE_BIT_NOT" | "k = ARC_NODE_STR_LEN"
    | "k \<in> {ARC_NODE_NOT, ARC_NODE_CAST_I64, ARC_NODE_CAST_F64, ARC_NODE_CAST_STR, ARC_NODE_LENGTH, ARC_NODE_RETURN, ARC_NODE_THROW}"
    using assms unfolding unary_kinds_def by blast
  then show ?thesis
  proof cases
    case 1
    then show ?thesis
      by (intro exI [of _ "neg_type g n"])
        (simp add: infer_kind_def infer_neg_def neg_type_def rule_type_def type_rule_def reported_def)
  next
    case 2
    then show ?thesis
      by (intro exI [of _ "bit_not_type g n"])
        (simp add: infer_kind_def infer_bit_not_def bit_not_type_def rule_type_def type_rule_def reported_def)
  next
    case 3
    then show ?thesis
      by (intro exI [of _ "str_len_type g n"])
        (simp add: infer_kind_def infer_str_len_def str_len_type_def rule_type_def type_rule_def reported_def)
  next
    case 4
    then show ?thesis
      by (intro exI [of _ "\<lambda>_ c. (rule_type k undefined undefined undefined, c)"])
        (elim insertE emptyE; simp add: infer_kind_def infer_simple_kind_def rule_type_def type_rule_def reported_def)
  qed
qed

lemma infer_kind_plain:
  assumes "k \<notin> binary_kinds" "k \<notin> unary_kinds"
  shows "infer_kind infer g n k c = Ret (rule_type k l r v, c)" "type_rule k l r v \<noteq> None"
  using assms by (cases k; simp add: binary_kinds_def unary_kinds_def infer_kind_def infer_simple_kind_def rule_type_def type_rule_def)+

lemma rule_type_known: "rule_type k l r v \<noteq> ARC_TYPE_UNKNOWN"
proof -
  have n: "num_type l r \<noteq> Some ARC_TYPE_UNKNOWN" by (simp add: num_type_def)
  show ?thesis
  proof (cases "type_rule k l r v")
    case (Some t)
    then show ?thesis using n by (simp add: rule_type_def) (auto simp: type_rule_def is_numeric_def split: if_splits)
  qed (simp add: rule_type_def)
qed

section \<open>Soundness of inference\<close>

text \<open>The type recorded for the node behind an input.\<close>

definition src_type :: "ArcGraph \<Rightarrow> ArcType list \<Rightarrow> ArcNodeId \<Rightarrow> string \<Rightarrow> ArcType" where
  "src_type g ts n rl =
     (case input_source g n rl of
        Ret (Some s) \<Rightarrow> if s < length (nodes g) then ts ! s else ARC_TYPE_UNKNOWN
      | _ \<Rightarrow> ARC_TYPE_UNKNOWN)"

definition roles :: "ArcNodeKind \<Rightarrow> string set" where
  "roles k = (if k \<in> binary_kinds then {''lhs'', ''rhs''} else if k \<in> unary_kinds then {''value''} else {})"

definition node_rule :: "ArcGraph \<Rightarrow> ArcType list \<Rightarrow> ArcNodeId \<Rightarrow> ArcType option" where
  "node_rule g ts n = type_rule (kind (nodes g ! n)) (src_type g ts n ''lhs'') (src_type g ts n ''rhs'') (src_type g ts n ''value'')"

definition node_rule_type :: "ArcGraph \<Rightarrow> ArcType list \<Rightarrow> ArcNodeId \<Rightarrow> ArcType" where
  "node_rule_type g ts n = rule_type (kind (nodes g ! n)) (src_type g ts n ''lhs'') (src_type g ts n ''rhs'') (src_type g ts n ''value'')"

text \<open>Everything the node's rule looks at has been inferred.\<close>

definition inputs_known :: "ArcGraph \<Rightarrow> ArcType list \<Rightarrow> ArcNodeId \<Rightarrow> bool" where
  "inputs_known g ts n \<longleftrightarrow> (\<forall>rl \<in> roles (kind (nodes g ! n)). \<forall>s. input_source g n rl = Ret (Some s) \<longrightarrow> s < length (nodes g) \<longrightarrow>
     ts ! s \<noteq> ARC_TYPE_UNKNOWN)"

definition extends :: "ArcType list \<Rightarrow> ArcType list \<Rightarrow> bool" where
  "extends ts ts' \<longleftrightarrow> length ts' = length ts \<and> (\<forall>i < length ts. ts ! i \<noteq> ARC_TYPE_UNKNOWN \<longrightarrow> ts' ! i = ts ! i)"

text \<open>A node whose type is known has a rule that does not apply.\<close>

definition ill_typed :: "ArcGraph \<Rightarrow> ArcType list \<Rightarrow> bool" where
  "ill_typed g ts \<longleftrightarrow> (\<exists>i < length (nodes g). ts ! i \<noteq> ARC_TYPE_UNKNOWN \<and> node_rule g ts i = None)"

definition tc_inv :: "ArcGraph \<Rightarrow> TcCtx \<Rightarrow> bool" where
  "tc_inv g c \<longleftrightarrow> length (tc_types c) = length (nodes g) \<and> had_error c = ill_typed g (tc_types c) \<and>
     (\<forall>i < length (nodes g). tc_types c ! i \<noteq> ARC_TYPE_UNKNOWN \<longrightarrow>
        inputs_known g (tc_types c) i \<and> tc_types c ! i = node_rule_type g (tc_types c) i)"

lemma extends_refl [simp]: "extends ts ts"
  by (simp add: extends_def)

lemma extends_trans: "extends a b \<Longrightarrow> extends b c \<Longrightarrow> extends a c"
  unfolding extends_def by auto

lemma rules_roles:
  assumes "\<And>rl. rl \<in> roles k \<Longrightarrow> f rl = f' rl"
  shows "type_rule k (f ''lhs'') (f ''rhs'') (f ''value'') = type_rule k (f' ''lhs'') (f' ''rhs'') (f' ''value'')"
    "rule_type k (f ''lhs'') (f ''rhs'') (f ''value'') = rule_type k (f' ''lhs'') (f' ''rhs'') (f' ''value'')"
  using assms by (cases k; simp add: roles_def binary_kinds_def unary_kinds_def rule_type_def type_rule_def)+

lemma src_type_extends:
  assumes "inputs_known g ts n" "extends ts ts'" "length ts = length (nodes g)" "rl \<in> roles (kind (nodes g ! n))"
  shows "src_type g ts' n rl = src_type g ts n rl"
  using assms by (auto simp: src_type_def inputs_known_def extends_def split: outcome.split option.split)

lemma node_rule_extends:
  assumes "inputs_known g ts n" "extends ts ts'" "length ts = length (nodes g)"
  shows "inputs_known g ts' n" "node_rule g ts' n = node_rule g ts n" "node_rule_type g ts' n = node_rule_type g ts n"
proof -
  show "inputs_known g ts' n" using assms by (auto simp: inputs_known_def extends_def)
  show "node_rule g ts' n = node_rule g ts n" "node_rule_type g ts' n = node_rule_type g ts n"
    unfolding node_rule_def node_rule_type_def
    using rules_roles [of "kind (nodes g ! n)" "src_type g ts' n" "src_type g ts n"] src_type_extends [OF assms] by auto
qed

text \<open>What a call on node \<open>s\<close> leaves behind.\<close>

definition inferred :: "ArcGraph \<Rightarrow> TcCtx \<Rightarrow> TcCtx \<Rightarrow> bool" where
  "inferred g c c' \<longleftrightarrow> tc_inv g c' \<and> extends (tc_types c) (tc_types c')"

definition infer_ok :: "ArcGraph \<Rightarrow> (ArcNodeId \<Rightarrow> TcCtx \<Rightarrow> tc_result) \<Rightarrow> bool" where
  "infer_ok g infer \<longleftrightarrow> (\<forall>s c t c'. tc_inv g c \<longrightarrow> infer s c = Ret (t, c') \<longrightarrow> inferred g c c' \<and>
     (if s < length (nodes g) then t = tc_types c' ! s \<and> t \<noteq> ARC_TYPE_UNKNOWN else t = ARC_TYPE_UNKNOWN))"

lemma inferred_trans: "inferred g a b \<Longrightarrow> inferred g b c \<Longrightarrow> inferred g a c"
  unfolding inferred_def using extends_trans by blast

lemma inferred_length: "inferred g c c' \<Longrightarrow> length (tc_types c') = length (nodes g)"
  by (simp add: inferred_def tc_inv_def)

lemma infer_input_ok:
  assumes "infer_ok g infer" "tc_inv g c" "infer_input infer g n rl c = Ret (t, c')"
  shows "inferred g c c'" "t = src_type g (tc_types c') n rl"
    "\<And>s. input_source g n rl = Ret (Some s) \<Longrightarrow> s < length (nodes g) \<Longrightarrow> tc_types c' ! s \<noteq> ARC_TYPE_UNKNOWN"
proof -
  obtain o1 where o1: "input_source g n rl = Ret o1"
    "(case o1 of None \<Rightarrow> Ret (ARC_TYPE_UNKNOWN, c) | Some src \<Rightarrow> infer src c) = Ret (t, c')"
    using assms(3) by (auto simp: infer_input_def andthen_Ret)
  have "inferred g c c' \<and> t = src_type g (tc_types c') n rl \<and>
      (\<forall>s. input_source g n rl = Ret (Some s) \<longrightarrow> s < length (nodes g) \<longrightarrow> tc_types c' ! s \<noteq> ARC_TYPE_UNKNOWN)"
  proof (cases o1)
    case None
    then show ?thesis using o1 assms(2) by (auto simp: inferred_def src_type_def)
  next
    case (Some s)
    then have "inferred g c c' \<and> (if s < length (nodes g) then t = tc_types c' ! s \<and> t \<noteq> ARC_TYPE_UNKNOWN else t = ARC_TYPE_UNKNOWN)"
      using o1(2) assms(1,2) unfolding infer_ok_def by (metis option.simps(5))
    then show ?thesis using o1(1) Some by (auto simp: src_type_def split: if_splits)
  qed
  then show "inferred g c c'" "t = src_type g (tc_types c') n rl"
    "\<And>s. input_source g n rl = Ret (Some s) \<Longrightarrow> s < length (nodes g) \<Longrightarrow> tc_types c' ! s \<noteq> ARC_TYPE_UNKNOWN" by blast+
qed

text \<open>One node: its inputs are inferred first, and its type is the one the rule gives.\<close>

lemma infer_kind_ok:
  assumes ok: "infer_ok g infer" and c: "tc_inv g c" and e: "infer_kind infer g n (kind (nodes g ! n)) c = Ret (t, c')"
  shows "\<exists>c1. inferred g c c1 \<and> inputs_known g (tc_types c1) n \<and> t = node_rule_type g (tc_types c1) n \<and>
    reported c1 c' (node_rule g (tc_types c1) n)"
proof -
  let ?k = "kind (nodes g ! n)"
  consider (b) "?k \<in> binary_kinds" | (u) "?k \<in> unary_kinds" "?k \<notin> binary_kinds" | (p) "?k \<notin> binary_kinds" "?k \<notin> unary_kinds" by blast
  then show ?thesis
  proof cases
    case b
    from infer_kind_binary [OF b, of infer g n] obtain f where f: "\<And>c. infer_kind infer g n ?k c = infer_both infer g n f c"
      "\<And>l r c v. fst (f l r c) = rule_type ?k l r v \<and> reported c (snd (f l r c)) (type_rule ?k l r v)" by blast
    from e f(1) obtain l c1 r c2 where 1: "infer_input infer g n ''lhs'' c = Ret (l, c1)"
      and 2: "infer_input infer g n ''rhs'' c1 = Ret (r, c2)" and 3: "f l r c2 = (t, c')"
      by (auto simp: infer_both_def andthen_Ret split: prod.splits)
    note i1 = infer_input_ok [OF ok c 1]
    have c1: "tc_inv g c1" using i1(1) by (simp add: inferred_def)
    note i2 = infer_input_ok [OF ok c1 2]
    have lr: "inferred g c c2" using inferred_trans i1(1) i2(1) by blast
    have ext: "extends (tc_types c1) (tc_types c2)" using i2(1) by (simp add: inferred_def)
    have rep: "reported c2 c' (type_rule ?k l r v)" "t = rule_type ?k l r v" for v using f(2) [of l r c2 v] 3 by auto
    have k1: "tc_types c2 ! s \<noteq> ARC_TYPE_UNKNOWN" if "input_source g n ''lhs'' = Ret (Some s)" "s < length (nodes g)" for s
      using i1(3) [OF that] ext that(2) inferred_length [OF i1(1)] by (simp add: extends_def)
    have l: "l = src_type g (tc_types c2) n ''lhs''"
      using i1(2,3) ext inferred_length [OF i1(1)] by (auto simp: src_type_def extends_def split: outcome.split option.split)
    have kn: "inputs_known g (tc_types c2) n" using k1 i2(3) b by (auto simp: inputs_known_def roles_def)
    show ?thesis using kn lr rep l i2(2) by (intro exI [of _ c2]) (auto simp: node_rule_type_def node_rule_def)
  next
    case u
    from infer_kind_unary [OF u(1), of infer g n] obtain f where f: "\<And>c. infer_kind infer g n ?k c = infer_value infer g n f c"
      "\<And>l r c v. fst (f v c) = rule_type ?k l r v \<and> reported c (snd (f v c)) (type_rule ?k l r v)" by blast
    from e f(1) obtain v c1 where 1: "infer_input infer g n ''value'' c = Ret (v, c1)" and 2: "f v c1 = (t, c')"
      by (auto simp: infer_value_def andthen_Ret split: prod.splits)
    note i1 = infer_input_ok [OF ok c 1]
    have rep: "reported c1 c' (type_rule ?k l r v)" "t = rule_type ?k l r v" for l r using f(2) [of v c1 l r] 2 by auto
    have kn: "inputs_known g (tc_types c1) n" using i1(3) u by (auto simp: inputs_known_def roles_def)
    show ?thesis using kn i1(1,2) rep by (intro exI [of _ c1]) (auto simp: node_rule_type_def node_rule_def)
  next
    case p
    let ?s = "src_type g (tc_types c) n"
    have e': "c' = c" "t = node_rule_type g (tc_types c) n"
      using e infer_kind_plain(1) [OF p, of infer g n c "?s ''lhs''" "?s ''rhs''" "?s ''value''"] by (auto simp: node_rule_type_def)
    have "node_rule g (tc_types c) n \<noteq> None" unfolding node_rule_def by (rule infer_kind_plain(2) [OF p])
    then show ?thesis using e' c p by (intro exI [of _ c]) (auto simp: inferred_def inputs_known_def roles_def reported_def)
  qed
qed

lemma tc_inv_update:
  assumes inv: "tc_inv g c" and n: "n < length (nodes g)" and kn: "inputs_known g (tc_types c) n"
    and t: "t = node_rule_type g (tc_types c) n" and r: "reported c c' (node_rule g (tc_types c) n)"
  shows "inferred g c (c'\<lparr>tc_types := (tc_types c')[n := t]\<rparr>)" "(tc_types c')[n := t] ! n = t" "t \<noteq> ARC_TYPE_UNKNOWN"
proof -
  let ?ts = "(tc_types c)[n := t]"
  have c': "tc_types c' = tc_types c" "had_error c' = (had_error c \<or> node_rule g (tc_types c) n = None)" using r by (simp_all add: reported_def)
  have len: "length (tc_types c) = length (nodes g)" using inv by (simp add: tc_inv_def)
  have ext: "extends (tc_types c) ?ts"
    using inv t n by (simp add: extends_def tc_inv_def nth_list_update)
  show t0: "t \<noteq> ARC_TYPE_UNKNOWN" using t by (simp add: node_rule_type_def rule_type_known)
  show tn: "(tc_types c')[n := t] ! n = t" using n len c' by simp
  have known: "inputs_known g (tc_types c) i" "node_rule_type g (tc_types c) i = ?ts ! i" "tc_types c ! i \<noteq> ARC_TYPE_UNKNOWN \<or> i = n"
    if i: "i < length (nodes g)" "?ts ! i \<noteq> ARC_TYPE_UNKNOWN" for i
    using i inv kn t len by (cases "i = n"; simp add: tc_inv_def)+
  have "ill_typed g ?ts = (ill_typed g (tc_types c) \<or> node_rule g (tc_types c) n = None)"
    using known node_rule_extends(2) [OF _ ext len] n t0 len unfolding ill_typed_def by (metis nth_list_update)
  then have e: "had_error c' = ill_typed g ?ts" using inv c' by (simp add: tc_inv_def)
  have "inputs_known g ?ts i \<and> ?ts ! i = node_rule_type g ?ts i"
    if i: "i < length (nodes g)" "?ts ! i \<noteq> ARC_TYPE_UNKNOWN" for i
    using known [OF i] node_rule_extends [OF known(1) [OF i] ext len] by simp
  then show "inferred g c (c'\<lparr>tc_types := (tc_types c')[n := t]\<rparr>)" using ext len e c' by (simp add: inferred_def tc_inv_def)
qed

lemma infer_type_ok: "infer_ok g (infer_type depth g)"
proof (induction depth)
  case 0
  show ?case by (simp add: infer_ok_def)
next
  case (Suc depth)
  have "inferred g c c' \<and> (if n < length (nodes g) then t = tc_types c' ! n \<and> t \<noteq> ARC_TYPE_UNKNOWN else t = ARC_TYPE_UNKNOWN)"
    if c: "tc_inv g c" and e: "infer_type (Suc depth) g n c = Ret (t, c')" for n c t c'
  proof (cases "n < length (nodes g) \<and> tc_types c ! n = ARC_TYPE_UNKNOWN")
    case False
    then show ?thesis using c e by (auto simp: inferred_def split: if_splits)
  next
    case True
    then obtain c2 where 1: "infer_kind (infer_type depth g) g n (kind (nodes g ! n)) c = Ret (t, c2)"
      and c': "c' = c2\<lparr>tc_types := (tc_types c2)[n := t]\<rparr>"
      using e by (auto simp: andthen_Ret)
    from infer_kind_ok [OF Suc.IH c 1] obtain c1 where k: "inferred g c c1" "inputs_known g (tc_types c1) n"
      "t = node_rule_type g (tc_types c1) n" "reported c1 c2 (node_rule g (tc_types c1) n)" by blast
    have "tc_inv g c1" using k(1) by (simp add: inferred_def)
    note u = tc_inv_update [OF this _ k(2-4)]
    show ?thesis using u True inferred_trans [OF k(1)] c' by simp
  qed
  then show ?case unfolding infer_ok_def by blast
qed

lemma infer_nodes_ok:
  assumes "tc_inv g c" "infer_nodes depth g ns c = Ret c'"
  shows "inferred g c c' \<and> (\<forall>n \<in> set ns. n < length (nodes g) \<longrightarrow> tc_types c' ! n \<noteq> ARC_TYPE_UNKNOWN)"
  using assms
proof (induction ns arbitrary: c)
  case Nil
  then show ?case by (auto simp: inferred_def)
next
  case (Cons n ns)
  from Cons.prems(2) obtain t c1 where 1: "infer_type depth g n c = Ret (t, c1)" and 2: "infer_nodes depth g ns c1 = Ret c'"
    by (auto simp: andthen_Ret)
  have i: "inferred g c c1" "n < length (nodes g) \<Longrightarrow> tc_types c1 ! n \<noteq> ARC_TYPE_UNKNOWN"
    using infer_type_ok [of g depth, unfolded infer_ok_def] Cons.prems(1) 1 by (force split: if_splits)+
  have "tc_inv g c1" using i(1) by (simp add: inferred_def)
  note IH = Cons.IH [OF this 2]
  have "tc_types c' ! n = tc_types c1 ! n" if "n < length (nodes g)"
    using IH i(2) [OF that] that inferred_length [OF i(1)] by (simp add: inferred_def extends_def)
  then show ?case using IH i inferred_trans [OF i(1)] by auto
qed


section \<open>When inference returns\<close>

text \<open>The edges inference follows: from a node to the nodes behind the inputs its rule looks at.\<close>

definition feeds :: "ArcGraph \<Rightarrow> (ArcNodeId \<times> ArcNodeId) set" where
  "feeds g = {(s, n). n < length (nodes g) \<and> s < length (nodes g) \<and> (\<exists>rl \<in> roles (kind (nodes g ! n)). input_source g n rl = Ret (Some s))}"

lemma finite_feeds: "finite (feeds g)"
  by (rule finite_subset [of _ "{..<length (nodes g)} \<times> {..<length (nodes g)}"]) (auto simp: feeds_def)

lemma edge_source_defined: "\<forall>e \<in> set es. from_port e < length (ports g) \<Longrightarrow> \<exists>s. edge_source g p es = Ret s"
  by (induction es) auto

lemma port_with_role_defined: "\<forall>p \<in> set ps. p < length (ports g) \<Longrightarrow> \<exists>p. port_with_role g rl d ps = Ret p"
  by (induction ps) auto

lemma input_source_defined:
  assumes "build_inv g" "n < length (nodes g)"
  shows "\<exists>s. input_source g n rl = Ret s"
proof -
  have "\<forall>e \<in> set (edges g). from_port e < length (ports g)"
    using build_invD(3) [OF assms(1)] by (auto simp: edge_ok_def in_set_conv_nth Let_def)
  then have e: "\<exists>s. tc_find_source g p = Ret s" for p using edge_source_defined by (simp add: tc_find_source_def)
  have "\<forall>p \<in> set (node_ports (nodes g ! n)). p < length (ports g)" using build_invD(7) [OF assms] by auto
  then have p: "\<exists>p. tc_find_port g n rl ARC_PORT_INPUT = Ret p" for rl
    using port_with_role_defined assms(2) by (simp add: tc_find_port_def)
  from p [of rl] p [of "''in''"] obtain p1 p2 where
    "tc_find_port g n rl ARC_PORT_INPUT = Ret p1" "tc_find_port g n ''in'' ARC_PORT_INPUT = Ret p2" by blast
  moreover obtain s1 s2 where "tc_find_source g p1 = Ret s1" "tc_find_source g p2 = Ret s2" using e by meson
  ultimately show ?thesis by (auto simp: input_source_def)
qed

text \<open>Enough depth for the inputs is enough for the node, one more.\<close>

lemma infer_kind_defined:
  assumes "\<And>rl c. rl \<in> roles k \<Longrightarrow> \<exists>r. infer_input infer g n rl c = Ret r"
  shows "\<exists>r. infer_kind infer g n k c = Ret r"
proof -
  consider (b) "k \<in> binary_kinds" | (u) "k \<in> unary_kinds" "k \<notin> binary_kinds" | (p) "k \<notin> binary_kinds" "k \<notin> unary_kinds" by blast
  then show ?thesis
  proof cases
    case b
    then obtain l c1 where 1: "infer_input infer g n ''lhs'' c = Ret (l, c1)" using assms [of "''lhs''" c] by (auto simp: roles_def)
    obtain r c2 where 2: "infer_input infer g n ''rhs'' c1 = Ret (r, c2)" using b assms [of "''rhs''" c1] by (auto simp: roles_def)
    from infer_kind_binary [OF b, of infer g n] obtain f where "\<forall>c. infer_kind infer g n k c = infer_both infer g n f c" by blast
    then show ?thesis by (simp add: infer_both_def 1 2)
  next
    case u
    then obtain v c1 where 1: "infer_input infer g n ''value'' c = Ret (v, c1)" using assms [of "''value''" c] by (auto simp: roles_def)
    from infer_kind_unary [OF u(1), of infer g n] obtain f where "\<forall>c. infer_kind infer g n k c = infer_value infer g n f c" by blast
    then show ?thesis by (simp add: infer_value_def 1)
  next
    case p
    then show ?thesis using infer_kind_plain by blast
  qed
qed

definition returns_from :: "ArcGraph \<Rightarrow> ArcNodeId \<Rightarrow> nat \<Rightarrow> bool" where
  "returns_from g n d \<longleftrightarrow> (\<forall>depth c. d \<le> depth \<longrightarrow> (\<exists>r. infer_type depth g n c = Ret r))"

lemma returns_from_mono: "returns_from g n d \<Longrightarrow> d \<le> d' \<Longrightarrow> returns_from g n d'"
  by (auto simp: returns_from_def)

lemma returns_from_bound:
  assumes "finite S" "\<forall>s \<in> S. \<exists>d. returns_from g s d"
  shows "\<exists>d. \<forall>s \<in> S. returns_from g s d"
  using assms
proof (induction S)
  case (insert s S)
  then obtain d d' where "\<forall>s \<in> S. returns_from g s d" "returns_from g s d'" by auto
  then show ?case using returns_from_mono max.cobounded1 max.cobounded2 by (intro exI [of _ "max d d'"]) blast
qed simp

lemma acyclic_returns:
  assumes inv: "build_inv g" and ac: "acyclic (feeds g)"
  shows "\<exists>d. returns_from g n d"
proof (induction n rule: wf_induct [OF finite_acyclic_wf [OF finite_feeds ac]])
  case (1 n)
  let ?S = "{s. (s, n) \<in> feeds g}"
  have "finite ?S" by (rule finite_subset [of _ "{..<length (nodes g)}"]) (auto simp: feeds_def)
  then obtain d where d: "\<forall>s \<in> ?S. returns_from g s d" using 1 returns_from_bound by (metis mem_Collect_eq)
  have "\<exists>r. infer_type depth g n c = Ret r" if "Suc (Suc d) \<le> depth" for depth c
  proof -
    obtain e where e: "depth = Suc (Suc e)" "d \<le> Suc e" using \<open>Suc (Suc d) \<le> depth\<close> by (metis Suc_le_D Suc_le_mono le_SucI)
    have "\<exists>r. infer_input (infer_type (Suc e) g) g n rl c = Ret r" if "n < length (nodes g)" "rl \<in> roles (kind (nodes g ! n))" for rl c
    proof -
      obtain o1 where o1: "input_source g n rl = Ret o1" using input_source_defined [OF inv \<open>n < length (nodes g)\<close>] by blast
      have "\<exists>r. infer_type (Suc e) g s c = Ret r" if "o1 = Some s" for s
      proof (cases "s < length (nodes g)")
        case True
        then have "(s, n) \<in> feeds g" using o1 that \<open>n < length (nodes g)\<close> \<open>rl \<in> roles _\<close> by (auto simp: feeds_def)
        then show ?thesis using d e(2) unfolding returns_from_def by blast
      qed simp
      then show ?thesis using o1 by (auto simp: infer_input_def split: option.split)
    qed
    then show ?thesis using infer_kind_defined [of "kind (nodes g ! n)" "infer_type (Suc e) g" g n c] e(1) by fastforce
  qed
  then show ?case unfolding returns_from_def by blast
qed

lemma infer_nodes_defined: "\<forall>n \<in> set ns. returns_from g n depth \<Longrightarrow> \<exists>c'. infer_nodes depth g ns c = Ret c'"
proof (induction ns arbitrary: c)
  case (Cons n ns)
  then have "\<exists>r. infer_type depth g n c = Ret r" by (simp add: returns_from_def)
  then obtain t c1 where "infer_type depth g n c = Ret (t, c1)" by auto
  then show ?case using Cons by simp
qed simp

text \<open>Nodes on a cycle: while none of them has a type, inference of one of them needs that of another.\<close>

definition untyped :: "ArcNodeId set \<Rightarrow> TcCtx \<Rightarrow> bool" where
  "untyped B c \<longleftrightarrow> (\<forall>b \<in> B. tc_types c ! b = ARC_TYPE_UNKNOWN)"

definition avoids :: "ArcNodeId set \<Rightarrow> (ArcNodeId \<Rightarrow> TcCtx \<Rightarrow> tc_result) \<Rightarrow> bool" where
  "avoids B infer \<longleftrightarrow> (\<forall>s c t c'. untyped B c \<longrightarrow> infer s c = Ret (t, c') \<longrightarrow> s \<notin> B \<and> untyped B c')"

lemma infer_input_avoids:
  assumes "avoids B infer" "untyped B c" "infer_input infer g n rl c = Ret (t, c')"
  shows "untyped B c'" "\<And>s. input_source g n rl = Ret (Some s) \<Longrightarrow> s \<notin> B"
proof -
  obtain o1 where o1: "input_source g n rl = Ret o1"
    "(case o1 of None \<Rightarrow> Ret (ARC_TYPE_UNKNOWN, c) | Some src \<Rightarrow> infer src c) = Ret (t, c')"
    using assms(3) by (auto simp: infer_input_def andthen_Ret)
  then show "untyped B c'" "\<And>s. input_source g n rl = Ret (Some s) \<Longrightarrow> s \<notin> B"
    using assms(1,2) by (cases o1; simp add: avoids_def; blast)+
qed

lemma infer_kind_avoids:
  assumes ok: "avoids B infer" and c: "untyped B c" and e: "infer_kind infer g n k c = Ret (t, c')"
  shows "untyped B c' \<and> (\<forall>rl \<in> roles k. \<forall>s. input_source g n rl = Ret (Some s) \<longrightarrow> s \<notin> B)"
proof -
  consider (b) "k \<in> binary_kinds" | (u) "k \<in> unary_kinds" "k \<notin> binary_kinds" | (p) "k \<notin> binary_kinds" "k \<notin> unary_kinds" by blast
  then show ?thesis
  proof cases
    case b
    from infer_kind_binary [OF b, of infer g n] obtain f where f: "\<And>c. infer_kind infer g n k c = infer_both infer g n f c"
      "\<And>l r c. reported c (snd (f l r c)) (type_rule k l r l)" by blast
    from e f(1) obtain l c1 r c2 where 1: "infer_input infer g n ''lhs'' c = Ret (l, c1)"
      and 2: "infer_input infer g n ''rhs'' c1 = Ret (r, c2)" and 3: "f l r c2 = (t, c')"
      by (auto simp: infer_both_def andthen_Ret split: prod.splits)
    note i1 = infer_input_avoids [OF ok c 1]
    note i2 = infer_input_avoids [OF ok i1(1) 2]
    show ?thesis using i1(2) i2 f(2) [of c2 l r] 3 b by (auto simp: roles_def reported_def untyped_def)
  next
    case u
    from infer_kind_unary [OF u(1), of infer g n] obtain f where f: "\<And>c. infer_kind infer g n k c = infer_value infer g n f c"
      "\<And>v c. reported c (snd (f v c)) (type_rule k v v v)" by blast
    from e f(1) obtain v c1 where 1: "infer_input infer g n ''value'' c = Ret (v, c1)" and 2: "f v c1 = (t, c')"
      by (auto simp: infer_value_def andthen_Ret split: prod.splits)
    show ?thesis using infer_input_avoids [OF ok c 1] f(2) [of c1 v] 2 u by (auto simp: roles_def reported_def untyped_def)
  next
    case p
    have "c' = c" using e infer_kind_plain(1) [OF p, of infer g n c t t t] by simp
    then show ?thesis using c p by (simp add: roles_def)
  qed
qed

lemma infer_type_avoids:
  assumes B: "\<And>b. b \<in> B \<Longrightarrow> b < length (nodes g) \<and> (\<exists>s \<in> B. (s, b) \<in> feeds g)"
  shows "avoids B (infer_type depth g)"
proof (induction depth)
  case 0
  show ?case by (simp add: avoids_def)
next
  case (Suc depth)
  have "n \<notin> B \<and> untyped B c'" if c: "untyped B c" and e: "infer_type (Suc depth) g n c = Ret (t, c')" for n c t c'
  proof (cases "n < length (nodes g) \<and> tc_types c ! n = ARC_TYPE_UNKNOWN")
    case False
    then show ?thesis using c e B [of n] by (auto simp: untyped_def split: if_splits)
  next
    case True
    then obtain c2 where 1: "infer_kind (infer_type depth g) g n (kind (nodes g ! n)) c = Ret (t, c2)"
      and c': "c' = c2\<lparr>tc_types := (tc_types c2)[n := t]\<rparr>"
      using e by (auto simp: andthen_Ret)
    note k = infer_kind_avoids [OF Suc.IH c 1]
    have "n \<notin> B" using B [of n] k by (auto simp: feeds_def)
    then have "untyped B c'" using k c' by (auto simp: untyped_def) (metis nth_list_update_neq)
    then show ?thesis using \<open>n \<notin> B\<close> by simp
  qed
  then show ?case unfolding avoids_def by blast
qed

lemma infer_nodes_avoids: "avoids B (infer_type depth g) \<Longrightarrow> untyped B c \<Longrightarrow> infer_nodes depth g ns c = Ret c' \<Longrightarrow> set ns \<inter> B = {}"
proof (induction ns arbitrary: c)
  case (Cons n ns)
  then obtain t c1 where "infer_type depth g n c = Ret (t, c1)" "infer_nodes depth g ns c1 = Ret c'" by (auto simp: andthen_Ret)
  moreover then have "n \<notin> B" "untyped B c1" using Cons.prems(1,2) unfolding avoids_def by blast+
  ultimately show ?case using Cons by simp
qed simp

lemma infer_nodes_outcome: "arc_typecheck depth g = Ret r \<Longrightarrow> nodes g \<noteq> [] \<Longrightarrow>
  \<exists>c. infer_nodes depth g [0..<length (nodes g)]
    \<lparr>tc_diags = arc_diag_init, tc_types = replicate (length (nodes g)) ARC_TYPE_UNKNOWN, had_error = False\<rparr> = Ret c \<and>
    r = \<lparr>diagnostics = tc_diags c, node_types = tc_types c, success = \<not> had_error c\<rparr>"
  by (auto simp: arc_typecheck_def andthen_Ret simp del: upt.simps)

lemma arc_typecheck_returns:
  assumes "\<And>c. \<exists>c'. infer_nodes depth g [0..<length (nodes g)] c = Ret c'"
  shows "\<exists>depth r. arc_typecheck depth g = Ret r"
proof -
  obtain c' where "infer_nodes depth g [0..<length (nodes g)]
      \<lparr>tc_diags = arc_diag_init, tc_types = replicate (length (nodes g)) ARC_TYPE_UNKNOWN, had_error = False\<rparr> = Ret c'"
    using assms by blast
  then show ?thesis by (intro exI [of _ depth]) (simp add: arc_typecheck_def del: upt.simps)
qed

lemma cyclic_never_returns:
  assumes "arc_typecheck depth g = Ret r"
  shows "acyclic (feeds g)"
proof (rule acyclicI, intro allI notI)
  fix n assume n: "(n, n) \<in> (feeds g)\<^sup>+"
  let ?B = "{b. (b, b) \<in> (feeds g)\<^sup>+}"
  have B: "b < length (nodes g) \<and> (\<exists>s \<in> ?B. (s, b) \<in> feeds g)" if b: "b \<in> ?B" for b
  proof -
    obtain s where s: "(s, b) \<in> feeds g" "(b, s) \<in> (feeds g)\<^sup>*" using b tranclD2 [of b b "feeds g"] by auto
    then have "(s, s) \<in> (feeds g)\<^sup>+" by (meson rtrancl_into_trancl2)
    then show ?thesis using s(1) by (auto simp: feeds_def)
  qed
  have n': "n < length (nodes g)" using B n by blast
  then obtain c where "infer_nodes depth g [0..<length (nodes g)]
      \<lparr>tc_diags = arc_diag_init, tc_types = replicate (length (nodes g)) ARC_TYPE_UNKNOWN, had_error = False\<rparr> = Ret c"
    using infer_nodes_outcome [OF assms] by fastforce
  from infer_nodes_avoids [OF infer_type_avoids [of ?B, OF B] _ this] B have "set [0..<length (nodes g)] \<inter> ?B = {}"
    by (auto simp: untyped_def)
  then show False using n n' by auto
qed

text \<open>C13. On a graph made by the building functions the type checker returns, for some number of nested calls,
  exactly if no node feeds an input of its own rule, directly or through other nodes. (Validation does not look at
  data edges, so a valid graph with such a cycle makes the recursion of \<^verbatim>\<open>infer_type\<close> run until the C stack overflows.)\<close>

theorem typecheck_returns_iff:
  assumes "built g"
  shows "(\<exists>depth r. arc_typecheck depth g = Ret r) \<longleftrightarrow> acyclic (feeds g)"
proof
  assume "\<exists>depth r. arc_typecheck depth g = Ret r"
  then show "acyclic (feeds g)" using cyclic_never_returns by blast
next
  assume "acyclic (feeds g)"
  then have "\<forall>n \<in> set [0..<length (nodes g)]. \<exists>d. returns_from g n d" using acyclic_returns [OF build_inv_built [OF assms]] by blast
  then obtain d where "\<forall>n \<in> set [0..<length (nodes g)]. returns_from g n d" using returns_from_bound by blast
  from infer_nodes_defined [OF this] show "\<exists>depth r. arc_typecheck depth g = Ret r" by (rule arc_typecheck_returns)
qed

text \<open>A negation whose input is fed by port \<open>p\<close>: 0 is the output of a constant, 2 that of the negation itself.\<close>

definition neg_graph :: "ArcPortId \<Rightarrow> ArcGraph outcome" where
  "neg_graph p =
     andthen (arc_graph_add_node ((snd (arc_graph_add_region arc_graph_init ARC_REGION_MODULE ARC_INVALID_ID))\<lparr>root_region := 0\<rparr>)
                ARC_NODE_CONST_INT 0 1) (\<lambda>(_, g).
     andthen (arc_graph_add_node g ARC_NODE_NEG 0 2) (\<lambda>(_, g).
     andthen (arc_graph_add_port g 0 ARC_PORT_OUTPUT (Some ''out'')) (\<lambda>(_, g).
     andthen (arc_graph_add_port g 1 ARC_PORT_INPUT (Some ''value'')) (\<lambda>(_, g).
     andthen (arc_graph_add_port g 1 ARC_PORT_OUTPUT (Some ''out'')) (\<lambda>(_, g).
     Ret (snd (arc_graph_add_edge g p 1)))))))"

lemmas graph_eval = arc_graph_add_node_def arc_region_add_member_def arc_graph_add_region_def arc_graph_init_def
  arc_graph_add_port_def arc_graph_add_edge_def Let_def

lemma neg_graph_built:
  assumes "p \<in> {0, 2}" "neg_graph p = Ret g"
  shows "built g"
proof -
  let ?r = "snd (arc_graph_add_region arc_graph_init ARC_REGION_MODULE ARC_INVALID_ID)"
  have "built ?r" by (rule built_region [OF built_init]) (simp_all add: arc_graph_init_def ARC_INVALID_ID_def)
  then have g0: "built (?r\<lparr>root_region := 0\<rparr>)" by (rule built_root) (simp add: arc_graph_add_region_def)
  from assms(2) obtain n1 g1 n2 g2 p1 g3 p2 g4 p3 g5 where
    1: "arc_graph_add_node (?r\<lparr>root_region := 0\<rparr>) ARC_NODE_CONST_INT 0 1 = Ret (n1, g1)" and
    2: "arc_graph_add_node g1 ARC_NODE_NEG 0 2 = Ret (n2, g2)" and
    3: "arc_graph_add_port g2 0 ARC_PORT_OUTPUT (Some ''out'') = Ret (p1, g3)" and
    4: "arc_graph_add_port g3 1 ARC_PORT_INPUT (Some ''value'') = Ret (p2, g4)" and
    5: "arc_graph_add_port g4 1 ARC_PORT_OUTPUT (Some ''out'') = Ret (p3, g5)" and
    6: "g = snd (arc_graph_add_edge g5 p 1)"
    unfolding neg_graph_def by (auto simp: andthen_Ret)
  have b1: "built g1" by (rule built_node [OF g0 _ 1]) (simp add: graph_eval)
  have b2: "built g2" by (rule built_node [OF b1 _ 2]) (use 1 in \<open>auto simp: graph_eval\<close>)
  have b3: "built g3" by (rule built_port [OF b2 _ _ 3]) (use 1 2 in \<open>auto simp: graph_eval\<close>)
  have b4: "built g4" by (rule built_port [OF b3 _ _ 4]) (use 1 2 3 in \<open>auto simp: graph_eval\<close>)
  have b5: "built g5" by (rule built_port [OF b4 _ _ 5]) (use 1 2 3 4 in \<open>auto simp: graph_eval\<close>)
  show ?thesis unfolding 6 by (rule built_edge [OF b5]) (use 1 2 3 4 5 assms(1) in \<open>auto simp: graph_eval\<close>)
qed

lemma neg_graph_facts:
  assumes "neg_graph p = Ret g" "p \<in> {0, 2}"
  shows "length (nodes g) = 2" "kind (nodes g ! 0) = ARC_NODE_CONST_INT" "kind (nodes g ! 1) = ARC_NODE_NEG"
    "input_source g 1 ''value'' = Ret (Some (if p = 0 then 0 else 1))" "root_region g = 0"
  using assms by (auto simp: neg_graph_def graph_eval input_source_def tc_find_port_def tc_find_source_def ARC_INVALID_ID_def)

theorem typecheck_returns_iff_witness:
  "\<exists>g g'. neg_graph 0 = Ret g \<and> acyclic (feeds g) \<and> (\<exists>depth r. arc_typecheck depth g = Ret r) \<and>
    neg_graph 2 = Ret g' \<and> gv_valid (arc_graph_validate g') \<and> \<not> (\<exists>depth r. arc_typecheck depth g' = Ret r)"
proof -
  obtain g where g: "neg_graph 0 = Ret g" by (simp add: neg_graph_def graph_eval)
  obtain g' where g': "neg_graph 2 = Ret g'" by (simp add: neg_graph_def graph_eval)
  note f = neg_graph_facts [OF g, simplified] neg_graph_facts [OF g', simplified]
  have "feeds g \<subseteq> {(0, 1)}"
  proof
    fix e assume "e \<in> feeds g"
    then obtain s n rl where e: "e = (s, n)" "n < 2" "rl \<in> roles (kind (nodes g ! n))" "input_source g n rl = Ret (Some s)"
      by (auto simp: feeds_def f)
    show "e \<in> {(0, 1)}" using e less_2_cases [OF e(2)] by (auto simp: f roles_def binary_kinds_def unary_kinds_def)
  qed
  then have a: "acyclic (feeds g)" by (rule acyclic_subset [rotated]) (simp add: acyclic_insert wf_acyclic)
  have "(1, 1) \<in> feeds g'" by (simp add: feeds_def f roles_def binary_kinds_def unary_kinds_def)
  then have "\<not> acyclic (feeds g')" by (auto simp: acyclic_def)
  moreover have "gv_valid (arc_graph_validate g')"
    by (rule build_inv_valid [OF build_inv_built [OF neg_graph_built [OF _ g']]]) (use f(10) in \<open>simp_all add: ARC_INVALID_ID_def\<close>)
  ultimately show ?thesis
    using typecheck_returns_iff [OF neg_graph_built [OF _ g]] typecheck_returns_iff [OF neg_graph_built [OF _ g']] a g g' by simp
qed


end
