(* ===== verification/Graph_Attr.thy ===== *)
theory Graph_Attr
  imports Sem_Graph
begin

text \<open>
  Reading the attribute union of a node (\<^verbatim>\<open>ArcNode.attr\<close> in \<^verbatim>\<open>src/semantic_graph/semantic_graph.h\<close>), as the passes
  over the graph do. A new node's union is zero, so its pointers are \<^verbatim>\<open>NULL\<close> (\<^const>\<open>None\<close>) and its numbers are 0.
  Reading the bytes of one member as another one is outside the model and \<open>Undef\<close>.
\<close>

definition attr_int :: "ArcAttr \<Rightarrow> i64 outcome" where
  "attr_int a = (case a of AttrInt i \<Rightarrow> Ret i | AttrZero \<Rightarrow> Ret 0 | _ \<Rightarrow> Undef)"

definition attr_float :: "ArcAttr \<Rightarrow> f64 outcome" where
  "attr_float a = (case a of AttrFloat d \<Rightarrow> Ret d | AttrZero \<Rightarrow> Ret 0 | _ \<Rightarrow> Undef)"

definition attr_bool :: "ArcAttr \<Rightarrow> bool outcome" where
  "attr_bool a = (case a of AttrBool b \<Rightarrow> Ret b | AttrZero \<Rightarrow> Ret False | _ \<Rightarrow> Undef)"

definition attr_name :: "ArcAttr \<Rightarrow> string option outcome" where
  "attr_name a = (case a of AttrName s \<Rightarrow> Ret (Some s) | AttrZero \<Rightarrow> Ret None | _ \<Rightarrow> Undef)"

definition attr_func :: "ArcAttr \<Rightarrow> (string option \<times> ArcRegionId \<times> u8) outcome" where
  "attr_func a = (case a of AttrFunc s r n \<Rightarrow> Ret (Some s, r, n) | AttrZero \<Rightarrow> Ret (None, 0, 0) | _ \<Rightarrow> Undef)"

definition attr_branch :: "ArcAttr \<Rightarrow> (ArcRegionId \<times> ArcRegionId) outcome" where
  "attr_branch a = (case a of AttrBranch t e \<Rightarrow> Ret (t, e) | AttrZero \<Rightarrow> Ret (0, 0) | _ \<Rightarrow> Undef)"

definition attr_loop :: "ArcAttr \<Rightarrow> ArcRegionId outcome" where
  "attr_loop a = (case a of AttrLoop r \<Rightarrow> Ret r | AttrZero \<Rightarrow> Ret 0 | _ \<Rightarrow> Undef)"

definition attr_cycle :: "ArcAttr \<Rightarrow> ArcRegionId outcome" where
  "attr_cycle a = (case a of AttrCycle r \<Rightarrow> Ret r | AttrZero \<Rightarrow> Ret 0 | _ \<Rightarrow> Undef)"

definition attr_string :: "ArcAttr \<Rightarrow> string option outcome" where
  "attr_string a = (case a of AttrString s \<Rightarrow> Ret (Some s) | AttrZero \<Rightarrow> Ret None | _ \<Rightarrow> Undef)"

definition attr_try :: "ArcAttr \<Rightarrow> (ArcRegionId \<times> ArcRegionId) outcome" where
  "attr_try a = (case a of AttrTry t c \<Rightarrow> Ret (t, c) | AttrZero \<Rightarrow> Ret (0, 0) | _ \<Rightarrow> Undef)"

definition attr_collection :: "ArcAttr \<Rightarrow> u16 outcome" where
  "attr_collection a = (case a of AttrCollection n \<Rightarrow> Ret n | AttrZero \<Rightarrow> Ret 0 | _ \<Rightarrow> Undef)"

definition attr_intrinsic :: "ArcAttr \<Rightarrow> u16 outcome" where
  "attr_intrinsic a = (case a of AttrIntrinsic n \<Rightarrow> Ret n | AttrZero \<Rightarrow> Ret 0 | _ \<Rightarrow> Undef)"

lemmas attr_simps = attr_int_def attr_float_def attr_bool_def attr_name_def attr_func_def attr_branch_def attr_loop_def
  attr_cycle_def attr_string_def attr_try_def attr_collection_def attr_intrinsic_def

text \<open>The enumerators in order; \<^verbatim>\<open>%d\<close> prints the number of one.\<close>

definition node_kinds :: "ArcNodeKind list" where
  "node_kinds = [ARC_NODE_CONST_INT, ARC_NODE_CONST_FLOAT, ARC_NODE_CONST_BOOL, ARC_NODE_CONST_NULL, ARC_NODE_ADD, ARC_NODE_SUB,
     ARC_NODE_MUL, ARC_NODE_DIV, ARC_NODE_MOD, ARC_NODE_NEG, ARC_NODE_EQ, ARC_NODE_NEQ, ARC_NODE_LT, ARC_NODE_LE,
     ARC_NODE_GT, ARC_NODE_GE, ARC_NODE_NOT, ARC_NODE_IF, ARC_NODE_WHILE, ARC_NODE_LET, ARC_NODE_VAR_REF,
     ARC_NODE_ASSIGN, ARC_NODE_FUNC_DEF, ARC_NODE_FUNC_CALL, ARC_NODE_PARAM, ARC_NODE_RETURN, ARC_NODE_PRINT,
     ARC_NODE_ROOT_OUTPUT, ARC_NODE_SEQUENCE, ARC_NODE_CONST_STRING, ARC_NODE_AND, ARC_NODE_OR, ARC_NODE_BIT_AND,
     ARC_NODE_BIT_OR, ARC_NODE_BIT_XOR, ARC_NODE_BIT_NOT, ARC_NODE_SHL, ARC_NODE_SHR, ARC_NODE_CAST_I64,
     ARC_NODE_CAST_F64, ARC_NODE_CAST_STR, ARC_NODE_ARRAY_LITERAL, ARC_NODE_MAP_LITERAL, ARC_NODE_INDEX_GET,
     ARC_NODE_INDEX_SET, ARC_NODE_STR_LEN, ARC_NODE_STR_SLICE, ARC_NODE_STR_INDEX, ARC_NODE_LENGTH, ARC_NODE_TRY,
     ARC_NODE_THROW, ARC_NODE_CLOSURE, ARC_NODE_INTRINSIC_CALL, ARC_NODE_BREAK_IF, ARC_NODE_CYCLE,
     ARC_NODE_RECORD_NEW, ARC_NODE_FIELD_GET, ARC_NODE_FIELD_SET, ARC_NODE_THREAD_SPAWN, ARC_NODE_THREAD_JOIN,
     ARC_NODE_MUTEX_NEW, ARC_NODE_MUTEX_LOCK, ARC_NODE_MUTEX_UNLOCK, ARC_NODE_CHAN_NEW, ARC_NODE_CHAN_SEND,
     ARC_NODE_CHAN_RECV]"

definition kind_number :: "ArcNodeKind \<Rightarrow> nat" where
  "kind_number k = length (takeWhile (\<lambda>x. x \<noteq> k) node_kinds)"

text \<open>\<^verbatim>\<open>is_expr_node\<close> of \<^verbatim>\<open>src/semantic/semantic.c\<close>: kinds that are compiled where their value is used, not as statements.\<close>

definition is_expr_node :: "ArcNodeKind \<Rightarrow> bool" where
  "is_expr_node k \<longleftrightarrow> k \<in> {ARC_NODE_CONST_INT, ARC_NODE_CONST_FLOAT, ARC_NODE_CONST_BOOL, ARC_NODE_CONST_NULL, ARC_NODE_CONST_STRING,
     ARC_NODE_ADD, ARC_NODE_SUB, ARC_NODE_MUL, ARC_NODE_DIV, ARC_NODE_MOD, ARC_NODE_NEG, ARC_NODE_EQ,
     ARC_NODE_NEQ, ARC_NODE_LT, ARC_NODE_LE, ARC_NODE_GT, ARC_NODE_GE, ARC_NODE_NOT, ARC_NODE_AND, ARC_NODE_OR,
     ARC_NODE_BIT_AND, ARC_NODE_BIT_OR, ARC_NODE_BIT_XOR, ARC_NODE_BIT_NOT, ARC_NODE_SHL, ARC_NODE_SHR,
     ARC_NODE_CAST_I64, ARC_NODE_CAST_F64, ARC_NODE_CAST_STR, ARC_NODE_ARRAY_LITERAL, ARC_NODE_MAP_LITERAL,
     ARC_NODE_INDEX_GET, ARC_NODE_LENGTH, ARC_NODE_STR_LEN, ARC_NODE_STR_SLICE, ARC_NODE_STR_INDEX,
     ARC_NODE_VAR_REF, ARC_NODE_FUNC_CALL, ARC_NODE_INTRINSIC_CALL, ARC_NODE_RECORD_NEW, ARC_NODE_FIELD_GET,
     ARC_NODE_FIELD_SET, ARC_NODE_THREAD_SPAWN, ARC_NODE_THREAD_JOIN, ARC_NODE_MUTEX_NEW, ARC_NODE_CHAN_NEW,
     ARC_NODE_CHAN_RECV}"

text \<open>\<^verbatim>\<open>strcmp\<close> of two pointers that may be \<^verbatim>\<open>NULL\<close>.\<close>

definition c_streq :: "string option \<Rightarrow> string option \<Rightarrow> bool outcome" where
  "c_streq a b = (case (a, b) of (Some x, Some y) \<Rightarrow> Ret (x = y) | _ \<Rightarrow> Undef)"

text \<open>Array accesses: outside the array they are undefined.\<close>

definition node_at :: "ArcGraph \<Rightarrow> ArcNodeId \<Rightarrow> ArcNode outcome" where
  "node_at g n = (if n < length (nodes g) then Ret (nodes g ! n) else Undef)"

definition port_at :: "ArcGraph \<Rightarrow> ArcPortId \<Rightarrow> ArcPort outcome" where
  "port_at g p = (if p < length (ports g) then Ret (ports g ! p) else Undef)"

definition region_at :: "ArcGraph \<Rightarrow> ArcRegionId \<Rightarrow> ArcRegion outcome" where
  "region_at g r = (if r < length (regions g) then Ret (regions g ! r) else Undef)"

text \<open>Signed 64-bit arithmetic is defined when the result is representable.\<close>

definition c_i64 :: "int \<Rightarrow> i64 outcome" where
  "c_i64 r = (if - (2 ^ 63) \<le> r \<and> r < 2 ^ 63 then Ret (of_int r) else Undef)"

end
