(* ===== verification/Arc_Cmd.thy ===== *)
theory Arc_Cmd
  imports Graph_Attr
begin

text \<open>
  Commands of the passes over the semantic graph: functions on the state of a pass (the interpreter, the compiler, the
  lowering) whose outcome is a value and the next state. \<open>locale kept\<close> collects what follows for a
  relation between the states before and after that composes.
\<close>

type_synonym ('s, 'a) cmd = "'s \<Rightarrow> ('a \<times> 's) outcome"

definition iret :: "'a \<Rightarrow> ('s, 'a) cmd" where
  "iret x s = Ret (x, s)"

definition ibind :: "('s, 'a) cmd \<Rightarrow> ('a \<Rightarrow> ('s, 'b) cmd) \<Rightarrow> ('s, 'b) cmd" where
  "ibind m k s = andthen (m s) (\<lambda>(x, s'). k x s')"

definition ilift :: "'a outcome \<Rightarrow> ('s, 'a) cmd" where
  "ilift r s = andthen r (\<lambda>x. Ret (x, s))"

definition imod :: "('s \<Rightarrow> 's) \<Rightarrow> ('s, unit) cmd" where
  "imod f s = Ret ((), f s)"

definition iget :: "('s \<Rightarrow> 'a) \<Rightarrow> ('s, 'a) cmd" where
  "iget f s = Ret (f s, s)"

lemmas cmd_defs = iret_def ibind_def ilift_def imod_def iget_def

lemma ibind_Ret: "ibind m k s = Ret (y, s'') \<longleftrightarrow> (\<exists>x s'. m s = Ret (x, s') \<and> k x s' = Ret (y, s''))"
  by (auto simp: ibind_def andthen_Ret)

text \<open>A relation between the states before and after a call that composes.\<close>

locale kept =
  fixes inv :: "'s \<Rightarrow> bool" and R :: "'s \<Rightarrow> 's \<Rightarrow> bool"
  assumes refl: "R s s" and trans: "R a b \<Longrightarrow> R b c \<Longrightarrow> R a c"
begin

definition keeps :: "('s, 'a) cmd \<Rightarrow> bool" where
  "keeps m \<longleftrightarrow> (\<forall>s x s'. inv s \<longrightarrow> m s = Ret (x, s') \<longrightarrow> R s s' \<and> inv s')"

lemma keepsD: "keeps m \<Longrightarrow> inv s \<Longrightarrow> m s = Ret (x, s') \<Longrightarrow> R s s' \<and> inv s'"
  by (simp add: keeps_def)

lemma keeps_ret: "keeps (iret x)"
  by (simp add: keeps_def iret_def refl)

lemma keeps_lift: "keeps (ilift r)"
  by (auto simp: keeps_def ilift_def andthen_Ret refl)

lemma keeps_get: "keeps (iget f)"
  by (simp add: keeps_def iget_def refl)

lemma keeps_mod: "(\<And>s. inv s \<Longrightarrow> R s (f s) \<and> inv (f s)) \<Longrightarrow> keeps (imod f)"
  by (simp add: keeps_def imod_def)

lemma keeps_bind:
  assumes "keeps m" "\<And>x. keeps (k x)"
  shows "keeps (ibind m k)"
  unfolding keeps_def
proof (intro allI impI)
  fix s x s' assume inv: "inv s" and run: "ibind m k s = Ret (x, s')"
  then obtain y s1 where 1: "m s = Ret (y, s1)" "k y s1 = Ret (x, s')" by (auto simp: ibind_Ret)
  then show "R s s' \<and> inv s'" using keepsD [OF assms(1) inv 1(1)] keepsD [OF assms(2) _ 1(2)] trans by blast
qed

lemma keeps_if: "(c \<Longrightarrow> keeps a) \<Longrightarrow> (\<not> c \<Longrightarrow> keeps b) \<Longrightarrow> keeps (if c then a else b)"
  by simp

lemma keeps_option: "keeps a \<Longrightarrow> (\<And>x. keeps (b x)) \<Longrightarrow> keeps (case opt of None \<Rightarrow> a | Some x \<Rightarrow> b x)"
  by (simp split: option.splits)

lemma keeps_prod: "(\<And>x y. keeps (b x y)) \<Longrightarrow> keeps (case p of (x, y) \<Rightarrow> b x y)"
  by (simp split: prod.splits)

lemmas keeps_rules = keeps_bind keeps_lift keeps_if keeps_ret keeps_get

end

end
