(* ===== verification/Compiler.thy ===== *)
theory Compiler
  imports Arc_Cmd Bytecode_Format Opcodes "HOL-Library.Signed_Division"
begin

text \<open>
  The compiler from the semantic graph to bytecode, \<^verbatim>\<open>src/compiler/compiler_internal.h\<close>, \<^verbatim>\<open>compile_nodes.c\<close> and
  \<^verbatim>\<open>compiler.c\<close>. The fixed arrays of the C structure are modelled with their bounds: the locals and the
  enclosing variables are the used prefixes of arrays of 256, the captured variables an array of 64 with its count (what is
  beyond the count is read again after a nested closure). Writing outside of them is \<open>Undef\<close>, as is a
  \<^verbatim>\<open>strcmp\<close> with \<^verbatim>\<open>NULL\<close>. Positions in the code are natural numbers: code sections are shorter than two gigabytes. The
  recursion of \<^verbatim>\<open>compile_node\<close> is bounded by \<open>depth\<close>, the nested calls the C stack affords.
\<close>

unbundle bit_operations_syntax

section \<open>State\<close>

type_synonym LocalVar = "string option \<times> u16"

record Compiler =
  c_image :: ArcBytecodeImage
  c_code :: ArcBuf
  c_errors :: "string list"
  c_had_error :: bool
  c_locals :: "LocalVar list"
  c_stack_depth :: int
  c_max_stack :: int
  c_debug_func_idx :: u16
  c_enclosing :: "LocalVar list"
  c_upvals :: "(string option \<times> bool \<times> u16) list"
  c_upval_count :: nat

type_synonym 'a cm = "(Compiler, 'a) cmd"

definition cerr :: "string \<Rightarrow> unit cm" where
  "cerr msg = imod (\<lambda>c. c\<lparr>c_errors := c_errors c @ [take 255 msg], c_had_error := True\<rparr>)"

section \<open>Emitting code\<close>

definition code_len :: "Compiler \<Rightarrow> nat" where
  "code_len c = length (buf_data (c_code c))"

definition emit_byte :: "u8 \<Rightarrow> unit cm" where
  "emit_byte b = imod (\<lambda>c. c\<lparr>c_code := arc_buf_push (c_code c) b\<rparr>)"

definition emit_u16 :: "u16 \<Rightarrow> unit cm" where
  "emit_u16 v = imod (\<lambda>c. c\<lparr>c_code := arc_buf_push_u16 (c_code c) v\<rparr>)"

definition emit_i32 :: "u32 \<Rightarrow> unit cm" where
  "emit_i32 v = imod (\<lambda>c. c\<lparr>c_code := arc_buf_push_i32 (c_code c) v\<rparr>)"

definition set_depth :: "int \<Rightarrow> Compiler \<Rightarrow> Compiler" where
  "set_depth d c = c\<lparr>c_stack_depth := d, c_max_stack := (if c_max_stack c < d then d else c_max_stack c)\<rparr>"

definition emit_op :: "ArcOpcode \<Rightarrow> unit cm" where
  "emit_op op =
     ibind (emit_byte (op_byte op)) (\<lambda>_.
       imod (\<lambda>c. set_depth (c_stack_depth c - max 0 (op_pops op) + max 0 (op_pushes op)) c))"

definition emit_const :: "nat \<Rightarrow> unit cm" where
  "emit_const idx = ibind (emit_op OP_CONST) (\<lambda>_. emit_u16 (of_nat idx))"

definition emit_jump :: "ArcOpcode \<Rightarrow> nat cm" where
  "emit_jump op = ibind (emit_op op) (\<lambda>_. ibind (iget code_len) (\<lambda>pp. ibind (emit_i32 0) (\<lambda>_. iret pp)))"

definition patch_jump :: "nat \<Rightarrow> unit cm" where
  "patch_jump pp =
     ibind (iget code_len) (\<lambda>t.
       let off = (of_nat t :: u32) - (of_nat pp + 4) in
       if t < pp + 4 then ilift Undef
       else imod (\<lambda>c. c\<lparr>c_code := (c_code c)\<lparr>buf_data := (buf_data (c_code c))[
              pp := ucast (off AND 0xFF), pp + 1 := ucast (drop_bit 8 off AND 0xFF),
              pp + 2 := ucast (drop_bit 16 off AND 0xFF), pp + 3 := ucast (drop_bit 24 off AND 0xFF)]\<rparr>\<rparr>))"

definition track_stack :: "int \<Rightarrow> int \<Rightarrow> unit cm" where
  "track_stack pops pushes = imod (\<lambda>c. set_depth (c_stack_depth c - pops + pushes) c)"

section \<open>Variables\<close>

fun find_rev :: "LocalVar list \<Rightarrow> string option \<Rightarrow> nat \<Rightarrow> u16 option outcome" where
  "find_rev ls x 0 = Ret None"
| "find_rev ls x (Suc i) =
     andthen (c_streq (fst (ls ! i)) x) (\<lambda>eq. if eq then Ret (Some (snd (ls ! i))) else find_rev ls x i)"

definition find_local :: "string option \<Rightarrow> u16 option cm" where
  "find_local x c = ilift (find_rev (c_locals c) x (length (c_locals c))) c"

definition add_local :: "string option \<Rightarrow> u16 cm" where
  "add_local x =
     ibind (iget (length \<circ> c_locals)) (\<lambda>n.
       if 256 \<le> n then ilift Undef
       else ibind (imod (\<lambda>c. c\<lparr>c_locals := c_locals c @ [(x, of_nat n)]\<rparr>)) (\<lambda>_. iret (of_nat n)))"

fun find_captured :: "(string option \<times> bool \<times> u16) list \<Rightarrow> string option \<Rightarrow> nat \<Rightarrow> nat option outcome" where
  "find_captured [] x i = Ret None"
| "find_captured ((y, _) # us) x i =
     andthen (c_streq y x) (\<lambda>eq. if eq then Ret (Some i) else find_captured us x (Suc i))"

definition find_upvalue :: "string option \<Rightarrow> nat option cm" where
  "find_upvalue x =
     ibind (iget (\<lambda>c. take (c_upval_count c) (c_upvals c))) (\<lambda>us.
     ibind (ilift (find_captured us x 0)) (\<lambda>found. case found of
        Some i \<Rightarrow> iret (Some i)
      | None \<Rightarrow>
          ibind (iget c_enclosing) (\<lambda>enc.
          ibind (ilift (find_rev enc x (length enc))) (\<lambda>slot. case slot of
             None \<Rightarrow> iret None
           | Some sl \<Rightarrow>
               ibind (iget c_upval_count) (\<lambda>ui.
                 if 64 \<le> ui then ilift Undef
                 else ibind (imod (\<lambda>c. c\<lparr>c_upvals := (c_upvals c)[ui := (x, True, sl)], c_upval_count := Suc ui\<rparr>)) (\<lambda>_.
                   iret (Some ui)))))))"

section \<open>Walking the graph\<close>

definition find_source_node :: "ArcGraph \<Rightarrow> ArcPortId \<Rightarrow> ArcNodeId outcome" where
  "find_source_node g p = edge_source g p (edges g)"

definition find_port_by_role :: "ArcGraph \<Rightarrow> ArcNodeId \<Rightarrow> string \<Rightarrow> ArcPortDir \<Rightarrow> ArcPortId outcome" where
  "find_port_by_role g n rl d = andthen (node_at g n) (\<lambda>nd. port_with_role g rl d (node_ports nd))"

text \<open>The node behind a port, found by role.\<close>

definition role_source :: "ArcGraph \<Rightarrow> ArcNodeId \<Rightarrow> string \<Rightarrow> ArcNodeId outcome" where
  "role_source g n rl = andthen (find_port_by_role g n rl ARC_PORT_INPUT) (find_source_node g)"

text \<open>\<^verbatim>\<open>if (src != ARC_INVALID_ID) compile_node(c, src);\<close>\<close>

definition compile_if_source :: "(ArcNodeId \<Rightarrow> unit cm) \<Rightarrow> ArcNodeId \<Rightarrow> unit cm" where
  "compile_if_source cn src = (if src = ARC_INVALID_ID then iret () else cn src)"

section \<open>Constants and folding\<close>

definition pool_const :: "(ArcConstPool \<Rightarrow> (nat \<times> ArcConstPool) outcome) \<Rightarrow> nat cm" where
  "pool_const add c =
     andthen (add (img_constants (c_image c))) (\<lambda>(i, p). Ret (i, c\<lparr>c_image := (c_image c)\<lparr>img_constants := p\<rparr>\<rparr>))"

definition is_const_numeric :: "ArcNode \<Rightarrow> bool" where
  "is_const_numeric n \<longleftrightarrow> kind n = ARC_NODE_CONST_INT \<or> kind n = ARC_NODE_CONST_FLOAT"

definition fold_num :: "bool \<Rightarrow> f64 \<Rightarrow> i64 \<Rightarrow> ArcConstPool \<Rightarrow> (nat \<times> ArcConstPool) outcome" where
  "fold_num f fv iv p = (if f then arc_const_pool_add_f64 p fv else arc_const_pool_add_i64 p iv)"

text \<open>A numeric constant as a double and as an integer. The conversion of a double out of range is undefined.\<close>

definition const_f64 :: "ArcNode \<Rightarrow> f64 outcome" where
  "const_f64 n = (if kind n = ARC_NODE_CONST_FLOAT then attr_float (attr n) else andthen (attr_int (attr n)) (\<lambda>i. Ret (f64_of_i64 i)))"

definition const_i64 :: "ArcNode \<Rightarrow> i64 outcome" where
  "const_i64 n =
     (if kind n = ARC_NODE_CONST_INT then attr_int (attr n)
      else andthen (attr_float (attr n)) (\<lambda>d. case f64_to_i64 d of Some i \<Rightarrow> Ret i | None \<Rightarrow> Undef))"

text \<open>Both results are computed before \<^verbatim>\<open>fold_num\<close> chooses one, so the integer operation must be defined even
  when a floating-point result is wanted. \<^verbatim>\<open>li << ri\<close> is two's complement, \<^verbatim>\<open>li >> ri\<close> arithmetic; a
  shift by a negative count or by 64 and more is undefined.\<close>

definition fold_value :: "ArcNodeKind \<Rightarrow> bool \<Rightarrow> f64 \<Rightarrow> f64 \<Rightarrow> i64 \<Rightarrow> i64 \<Rightarrow> (ArcConstPool \<Rightarrow> (nat \<times> ArcConstPool) outcome) option outcome" where
  "fold_value op f lf rf li ri =
     (let num = (\<lambda>fv iv. andthen (c_i64 iv) (\<lambda>i. Ret (Some (fold_num f fv i))));
          truth = (\<lambda>b. Ret (Some (\<lambda>p. arc_const_pool_add_bool p b)));
          bits = (\<lambda>i. if f then Ret None else Ret (Some (fold_num False 0 i)));
          shift = (\<lambda>h. if f then Ret None
                       else if sint ri < 0 \<or> 64 \<le> sint ri then Undef else Ret (Some (fold_num False 0 (h (nat (sint ri))))));
          l = sint li; r = sint ri in
      if op = ARC_NODE_ADD then num (f64_add lf rf) (l + r)
      else if op = ARC_NODE_SUB then num (f64_sub lf rf) (l - r)
      else if op = ARC_NODE_MUL then num (f64_mul lf rf) (l * r)
      else if op = ARC_NODE_DIV then
        (if r = 0 \<and> \<not> f then Ret None else if r = 0 then Undef else num (f64_div lf rf) (l sdiv r))
      else if op = ARC_NODE_MOD then
        (if r = 0 \<and> \<not> f then Ret None else if r = 0 then Undef
         else andthen (c_i64 (l sdiv r)) (\<lambda>_. num (f64_fmod lf rf) (l smod r)))
      else if op = ARC_NODE_EQ then truth (if f then f64_eq lf rf else l = r)
      else if op = ARC_NODE_NEQ then truth (if f then \<not> f64_eq lf rf else l \<noteq> r)
      else if op = ARC_NODE_LT then truth (if f then f64_lt lf rf else l < r)
      else if op = ARC_NODE_LE then truth (if f then f64_le lf rf else l \<le> r)
      else if op = ARC_NODE_GT then truth (if f then f64_lt rf lf else r < l)
      else if op = ARC_NODE_GE then truth (if f then f64_le rf lf else r \<le> l)
      else if op = ARC_NODE_BIT_AND then bits (li AND ri)
      else if op = ARC_NODE_BIT_OR then bits (li OR ri)
      else if op = ARC_NODE_BIT_XOR then bits (li XOR ri)
      else if op = ARC_NODE_SHL then shift (\<lambda>n. push_bit n li)
      else if op = ARC_NODE_SHR then shift (\<lambda>n. signed_drop_bit n li)
      else Ret None)"

definition try_fold_binary :: "ArcGraph \<Rightarrow> ArcNodeId \<Rightarrow> ArcNodeId \<Rightarrow> ArcNodeKind \<Rightarrow> bool cm" where
  "try_fold_binary g lhs rhs op =
     ibind (ilift (node_at g lhs)) (\<lambda>l. ibind (ilift (node_at g rhs)) (\<lambda>r.
       if \<not> is_const_numeric l \<or> \<not> is_const_numeric r then iret False
       else
         ibind (ilift (const_f64 l)) (\<lambda>lf. ibind (ilift (const_f64 r)) (\<lambda>rf.
         ibind (ilift (const_i64 l)) (\<lambda>li. ibind (ilift (const_i64 r)) (\<lambda>ri.
         ibind (ilift (fold_value op (kind l = ARC_NODE_CONST_FLOAT \<or> kind r = ARC_NODE_CONST_FLOAT) lf rf li ri)) (\<lambda>res.
           case res of
             None \<Rightarrow> iret False
           | Some add \<Rightarrow> ibind (pool_const add) (\<lambda>ci. ibind (emit_const ci) (\<lambda>_. iret True)))))))))"

definition fold_unary :: "ArcNodeKind \<Rightarrow> ArcNode \<Rightarrow> (ArcConstPool \<Rightarrow> (nat \<times> ArcConstPool) outcome) option outcome" where
  "fold_unary op s =
     (let k = kind s in
      if op = ARC_NODE_NEG then
        (if k = ARC_NODE_CONST_INT then andthen (attr_int (attr s)) (\<lambda>i. andthen (c_i64 (- sint i)) (\<lambda>r.
            Ret (Some (\<lambda>p. arc_const_pool_add_i64 p r))))
         else if k = ARC_NODE_CONST_FLOAT then andthen (attr_float (attr s)) (\<lambda>d. Ret (Some (\<lambda>p. arc_const_pool_add_f64 p (f64_neg d))))
         else Ret None)
      else if op = ARC_NODE_NOT then
        (if k = ARC_NODE_CONST_BOOL then andthen (attr_bool (attr s)) (\<lambda>b. Ret (Some (\<lambda>p. arc_const_pool_add_bool p (\<not> b))))
         else if k = ARC_NODE_CONST_INT then andthen (attr_int (attr s)) (\<lambda>i. Ret (Some (\<lambda>p. arc_const_pool_add_bool p (i = 0))))
         else Ret None)
      else if op = ARC_NODE_BIT_NOT then
        (if k = ARC_NODE_CONST_INT then andthen (attr_int (attr s)) (\<lambda>i. Ret (Some (\<lambda>p. arc_const_pool_add_i64 p (NOT i))))
         else Ret None)
      else Ret None)"

definition try_fold_unary :: "ArcGraph \<Rightarrow> ArcNodeId \<Rightarrow> ArcNodeKind \<Rightarrow> bool cm" where
  "try_fold_unary g src op =
     ibind (ilift (node_at g src)) (\<lambda>s.
       if \<not> is_const_numeric s \<and> kind s \<noteq> ARC_NODE_CONST_BOOL then iret False
       else ibind (ilift (fold_unary op s)) (\<lambda>res. case res of
           None \<Rightarrow> iret False
         | Some add \<Rightarrow> ibind (pool_const add) (\<lambda>ci. ibind (emit_const ci) (\<lambda>_. iret True))))"

section \<open>Node kinds and opcodes\<close>

fun binary_op_for_kind :: "ArcNodeKind \<Rightarrow> ArcOpcode option" where
  "binary_op_for_kind ARC_NODE_ADD = Some OP_ADD"
| "binary_op_for_kind ARC_NODE_SUB = Some OP_SUB"
| "binary_op_for_kind ARC_NODE_MUL = Some OP_MUL"
| "binary_op_for_kind ARC_NODE_DIV = Some OP_DIV"
| "binary_op_for_kind ARC_NODE_MOD = Some OP_MOD"
| "binary_op_for_kind ARC_NODE_EQ = Some OP_EQ"
| "binary_op_for_kind ARC_NODE_NEQ = Some OP_NEQ"
| "binary_op_for_kind ARC_NODE_LT = Some OP_LT"
| "binary_op_for_kind ARC_NODE_LE = Some OP_LE"
| "binary_op_for_kind ARC_NODE_GT = Some OP_GT"
| "binary_op_for_kind ARC_NODE_GE = Some OP_GE"
| "binary_op_for_kind ARC_NODE_BIT_AND = Some OP_BIT_AND"
| "binary_op_for_kind ARC_NODE_BIT_OR = Some OP_BIT_OR"
| "binary_op_for_kind ARC_NODE_BIT_XOR = Some OP_BIT_XOR"
| "binary_op_for_kind ARC_NODE_SHL = Some OP_SHL"
| "binary_op_for_kind ARC_NODE_SHR = Some OP_SHR"
| "binary_op_for_kind ARC_NODE_STR_INDEX = Some OP_STR_INDEX"
| "binary_op_for_kind ARC_NODE_INDEX_GET = Some OP_INDEX_GET"
| "binary_op_for_kind _ = None"

fun unary_op_for_kind :: "ArcNodeKind \<Rightarrow> ArcOpcode option" where
  "unary_op_for_kind ARC_NODE_NEG = Some OP_NEG"
| "unary_op_for_kind ARC_NODE_NOT = Some OP_NOT"
| "unary_op_for_kind ARC_NODE_BIT_NOT = Some OP_BIT_NOT"
| "unary_op_for_kind ARC_NODE_CAST_I64 = Some OP_CAST_I64"
| "unary_op_for_kind ARC_NODE_CAST_F64 = Some OP_CAST_F64"
| "unary_op_for_kind ARC_NODE_CAST_STR = Some OP_CAST_STR"
| "unary_op_for_kind ARC_NODE_STR_LEN = Some OP_STR_LEN"
| "unary_op_for_kind ARC_NODE_LENGTH = Some OP_LENGTH"
| "unary_op_for_kind _ = None"

section \<open>Compiling nodes\<close>

text \<open>The helpers take \<^verbatim>\<open>compile_node\<close> as the argument \<open>cn\<close>.\<close>

fun compile_members :: "(ArcNodeId \<Rightarrow> unit cm) \<Rightarrow> ArcGraph \<Rightarrow> ArcNodeId list \<Rightarrow> unit cm" where
  "compile_members cn g [] = iret ()"
| "compile_members cn g (m # ms) =
     ibind (ilift (node_at g m)) (\<lambda>nd.
       if kind nd = ARC_NODE_PARAM \<or> is_expr_node (kind nd) then compile_members cn g ms
       else ibind (cn m) (\<lambda>_. compile_members cn g ms))"

definition compile_region_from :: "(ArcNodeId \<Rightarrow> unit cm) \<Rightarrow> ArcGraph \<Rightarrow> ArcRegionId \<Rightarrow> nat \<Rightarrow> unit cm" where
  "compile_region_from cn g rid start =
     (if rid = ARC_INVALID_ID then iret ()
      else ibind (ilift (region_at g rid)) (\<lambda>r. compile_members cn g (drop start (members r))))"

definition compile_value_port :: "(ArcNodeId \<Rightarrow> unit cm) \<Rightarrow> ArcGraph \<Rightarrow> ArcNodeId \<Rightarrow> unit cm" where
  "compile_value_port cn g n =
     ibind (ilift (find_port_by_role g n ''value'' ARC_PORT_INPUT)) (\<lambda>v1.
     ibind (if v1 = ARC_INVALID_ID then ilift (find_port_by_role g n ''in'' ARC_PORT_INPUT) else iret v1) (\<lambda>vp.
     ibind (ilift (find_source_node g vp)) (compile_if_source cn)))"

fun compile_roles :: "(ArcNodeId \<Rightarrow> unit cm) \<Rightarrow> ArcGraph \<Rightarrow> ArcNodeId \<Rightarrow> string list \<Rightarrow> unit cm" where
  "compile_roles cn g n [] = iret ()"
| "compile_roles cn g n (rl # rls) =
     ibind (ilift (role_source g n rl)) (\<lambda>s. ibind (compile_if_source cn s) (\<lambda>_. compile_roles cn g n rls))"

definition compile_3input :: "(ArcNodeId \<Rightarrow> unit cm) \<Rightarrow> ArcGraph \<Rightarrow> ArcNodeId \<Rightarrow> string \<Rightarrow> string \<Rightarrow> string \<Rightarrow> ArcOpcode \<Rightarrow> unit cm" where
  "compile_3input cn g n a b d op = ibind (compile_roles cn g n [a, b, d]) (\<lambda>_. emit_op op)"

text \<open>The first two input ports of the cyclic order, in order.\<close>

definition order_inputs :: "ArcGraph \<Rightarrow> ArcPortId list \<Rightarrow> ArcPortId list" where
  "order_inputs g ps =
     concat (map (\<lambda>p. case arc_graph_port g p of
        Some q \<Rightarrow> if dir q = ARC_PORT_INPUT then [port_id q] else [] | None \<Rightarrow> []) ps)"

definition binary_ports :: "ArcGraph \<Rightarrow> ArcNodeId \<Rightarrow> ArcNode \<Rightarrow> (ArcPortId \<times> ArcPortId) outcome" where
  "binary_ports g n nd =
     (if 2 \<le> length (cyclic_order nd) then
        Ret (case order_inputs g (cyclic_order nd) of
           [] \<Rightarrow> (ARC_INVALID_ID, ARC_INVALID_ID) | [l] \<Rightarrow> (l, ARC_INVALID_ID) | l # r # _ \<Rightarrow> (l, r))
      else andthen (find_port_by_role g n ''lhs'' ARC_PORT_INPUT) (\<lambda>l.
           andthen (find_port_by_role g n ''rhs'' ARC_PORT_INPUT) (\<lambda>r. Ret (l, r))))"

definition compile_binary :: "(ArcNodeId \<Rightarrow> unit cm) \<Rightarrow> ArcGraph \<Rightarrow> ArcNodeId \<Rightarrow> ArcOpcode \<Rightarrow> unit cm" where
  "compile_binary cn g n op =
     ibind (ilift (node_at g n)) (\<lambda>nd.
     ibind (ilift (binary_ports g n nd)) (\<lambda>(lp, rp).
       if lp = ARC_INVALID_ID \<or> rp = ARC_INVALID_ID
       then cerr (''binary op node '' @ dec_digits n @ '' missing lhs/rhs input ports'')
       else
         ibind (ilift (find_source_node g lp)) (\<lambda>ls.
         ibind (ilift (find_source_node g rp)) (\<lambda>rs.
           if ls = ARC_INVALID_ID \<or> rs = ARC_INVALID_ID
           then cerr (''binary op node '' @ dec_digits n @ '' has disconnected inputs'')
           else
             ibind (try_fold_binary g ls rs (kind nd)) (\<lambda>folded.
               if folded then iret ()
               else ibind (cn ls) (\<lambda>_. ibind (cn rs) (\<lambda>_. emit_op op)))))))"

definition compile_unary :: "(ArcNodeId \<Rightarrow> unit cm) \<Rightarrow> ArcGraph \<Rightarrow> ArcNodeId \<Rightarrow> ArcOpcode \<Rightarrow> unit cm" where
  "compile_unary cn g n op =
     ibind (ilift (node_at g n)) (\<lambda>nd.
     ibind (ilift (find_port_by_role g n ''value'' ARC_PORT_INPUT)) (\<lambda>i1.
     ibind (if i1 = ARC_INVALID_ID then ilift (find_port_by_role g n ''in'' ARC_PORT_INPUT) else iret i1) (\<lambda>ip.
     ibind (ilift (find_source_node g ip)) (\<lambda>src.
       if src = ARC_INVALID_ID then cerr (''unary node '' @ dec_digits n @ '' has no input'')
       else ibind (try_fold_unary g src (kind nd)) (\<lambda>folded.
         if folded then iret () else ibind (cn src) (\<lambda>_. emit_op op))))))"

text \<open>Compiles what is connected to the input ports of a list; the value counts them at eight bits.\<close>

fun compile_ports :: "(ArcNodeId \<Rightarrow> unit cm) \<Rightarrow> ArcGraph \<Rightarrow> ArcPortId list \<Rightarrow> u8 \<Rightarrow> u8 cm" where
  "compile_ports cn g [] count = iret count"
| "compile_ports cn g (p # ps) count =
     (case arc_graph_port g p of
        None \<Rightarrow> compile_ports cn g ps count
      | Some q \<Rightarrow>
          if dir q = ARC_PORT_INPUT then
            ibind (ilift (find_source_node g (port_id q))) (\<lambda>src.
              if src = ARC_INVALID_ID then compile_ports cn g ps count
              else ibind (cn src) (\<lambda>_. compile_ports cn g ps (count + 1)))
          else compile_ports cn g ps count)"

definition compile_input_ports :: "(ArcNodeId \<Rightarrow> unit cm) \<Rightarrow> ArcGraph \<Rightarrow> ArcNode \<Rightarrow> u8 cm" where
  "compile_input_ports cn g nd = compile_ports cn g (node_ports nd) 0"

definition compile_const :: "ArcNode \<Rightarrow> unit cm" where
  "compile_const nd =
     (let k = kind nd; put = (\<lambda>add. ibind (pool_const add) emit_const) in
      if k = ARC_NODE_CONST_INT then ibind (ilift (attr_int (attr nd))) (\<lambda>i. put (\<lambda>p. arc_const_pool_add_i64 p i))
      else if k = ARC_NODE_CONST_FLOAT then ibind (ilift (attr_float (attr nd))) (\<lambda>d. put (\<lambda>p. arc_const_pool_add_f64 p d))
      else if k = ARC_NODE_CONST_BOOL then ibind (ilift (attr_bool (attr nd))) (\<lambda>b. put (\<lambda>p. arc_const_pool_add_bool p b))
      else if k = ARC_NODE_CONST_NULL then put arc_const_pool_add_null
      else if k = ARC_NODE_CONST_STRING then
        ibind (ilift (attr_string (attr nd))) (\<lambda>t. put (\<lambda>p. arc_const_pool_add_string p (case t of Some x \<Rightarrow> x | None \<Rightarrow> [])))
      else iret ())"

definition compile_shortcircuit :: "(ArcNodeId \<Rightarrow> unit cm) \<Rightarrow> ArcGraph \<Rightarrow> ArcNodeId \<Rightarrow> bool \<Rightarrow> unit cm" where
  "compile_shortcircuit cn g n is_or =
     ibind (ilift (role_source g n ''lhs'')) (\<lambda>ls. ibind (ilift (role_source g n ''rhs'')) (\<lambda>rs.
       if ls = ARC_INVALID_ID \<or> rs = ARC_INVALID_ID
       then cerr ((if is_or then ''OR'' else ''AND'') @ '' node '' @ dec_digits n @ '' has disconnected inputs'')
       else
         ibind (cn ls) (\<lambda>_. ibind (emit_op OP_DUP) (\<lambda>_.
         ibind (emit_jump (if is_or then OP_JUMP_IF_TRUE else OP_JUMP_IF_FALSE)) (\<lambda>skip.
         ibind (emit_op OP_POP) (\<lambda>_. ibind (cn rs) (\<lambda>_. patch_jump skip)))))))"

definition emit_u16_op :: "ArcOpcode \<Rightarrow> u16 \<Rightarrow> int \<Rightarrow> int \<Rightarrow> unit cm" where
  "emit_u16_op op v pops pushes = ibind (emit_byte (op_byte op)) (\<lambda>_. ibind (emit_u16 v) (\<lambda>_. track_stack pops pushes))"

definition compile_collections :: "(ArcNodeId \<Rightarrow> unit cm) \<Rightarrow> ArcGraph \<Rightarrow> ArcNodeId \<Rightarrow> ArcNode \<Rightarrow> unit cm" where
  "compile_collections cn g n nd =
     (if kind nd = ARC_NODE_ARRAY_LITERAL then
        ibind (compile_input_ports cn g nd) (\<lambda>cnt. emit_u16_op OP_ARRAY_NEW (ucast cnt) (uint cnt) 1)
      else if kind nd = ARC_NODE_MAP_LITERAL then
        ibind (compile_input_ports cn g nd) (\<lambda>_. ibind (ilift (attr_collection (attr nd))) (\<lambda>pc. emit_u16_op OP_MAP_NEW pc (uint pc * 2) 1))
      else if kind nd = ARC_NODE_INDEX_SET then compile_3input cn g n ''container'' ''key'' ''value'' OP_INDEX_SET
      else compile_3input cn g n ''value'' ''start'' ''end'' OP_STR_SLICE)"

definition compile_try :: "(ArcNodeId \<Rightarrow> unit cm) \<Rightarrow> ArcGraph \<Rightarrow> ArcNode \<Rightarrow> unit cm" where
  "compile_try cn g nd =
     ibind (emit_jump OP_TRY_BEGIN) (\<lambda>tb.
     ibind (ilift (attr_try (attr nd))) (\<lambda>(try_region, catch_region).
     ibind (compile_region_from cn g try_region 0) (\<lambda>_.
     ibind (emit_op OP_TRY_END) (\<lambda>_.
     ibind (emit_jump OP_JUMP) (\<lambda>ej.
     ibind (patch_jump tb) (\<lambda>_.
     ibind (compile_region_from cn g catch_region 0) (\<lambda>_. patch_jump ej)))))))"

section \<open>Functions and closures\<close>

definition set_function :: "nat \<Rightarrow> (ArcFuncRecord \<Rightarrow> ArcFuncRecord) \<Rightarrow> Compiler \<Rightarrow> Compiler" where
  "set_function fi f c =
     c\<lparr>c_image := (c_image c)\<lparr>img_functions := (img_functions (c_image c))\<lparr>items := (items (img_functions (c_image c)))[
        fi := f (items (img_functions (c_image c)) ! fi)]\<rparr>\<rparr>\<rparr>"

definition add_function :: "ArcFuncRecord \<Rightarrow> nat cm" where
  "add_function r c =
     andthen (arc_func_table_add (img_functions (c_image c)) r) (\<lambda>(i, t). Ret (i, c\<lparr>c_image := (c_image c)\<lparr>img_functions := t\<rparr>\<rparr>))"

definition new_func :: "u16 \<Rightarrow> u8 \<Rightarrow> ArcFuncRecord" where
  "new_func name ar = \<lparr>name_const_idx = name, arity = ar, local_count = 0, max_stack = 0, code_offset = 0, code_length = 0, upvalues = []\<rparr>"

definition name_const :: "string option \<Rightarrow> nat cm" where
  "name_const x = (case x of None \<Rightarrow> ilift Undef | Some name \<Rightarrow> pool_const (\<lambda>p. arc_const_pool_add_string p name))"

fun add_params :: "ArcGraph \<Rightarrow> ArcNodeId list \<Rightarrow> unit cm" where
  "add_params g [] = iret ()"
| "add_params g (m # ms) =
     ibind (ilift (node_at g m)) (\<lambda>nd.
       if kind nd = ARC_NODE_PARAM
       then ibind (ilift (attr_name (attr nd))) (\<lambda>x. ibind (add_local x) (\<lambda>_. add_params g ms))
       else add_params g ms)"

definition index_of :: "('a \<Rightarrow> bool) \<Rightarrow> 'a list \<Rightarrow> nat option" where
  "index_of P xs = (let i = length (takeWhile (\<lambda>x. \<not> P x) xs) in if i < length xs then Some i else None)"

definition compile_function :: "(ArcNodeId \<Rightarrow> unit cm) \<Rightarrow> ArcGraph \<Rightarrow> ArcNodeId \<Rightarrow> unit cm" where
  "compile_function cn g fid =
     ibind (ilift (node_at g fid)) (\<lambda>fn.
     ibind (ilift (attr_func (attr fn))) (\<lambda>(fname, body_rid, ar).
     ibind (imod (\<lambda>c. c\<lparr>c_locals := [], c_stack_depth := 0, c_max_stack := 0\<rparr>)) (\<lambda>_.
     ibind (name_const fname) (\<lambda>name_ci.
     ibind (iget (\<lambda>c. index_of (\<lambda>f. name_const_idx f = of_nat name_ci) (items (img_functions (c_image c))))) (\<lambda>found.
     ibind (case found of Some fi \<Rightarrow> iret fi | None \<Rightarrow> add_function (new_func (of_nat name_ci) ar)) (\<lambda>fi.
     ibind (imod (\<lambda>c. c\<lparr>c_debug_func_idx := of_nat fi\<rparr>)) (\<lambda>_.
     ibind (ilift (region_at g body_rid)) (\<lambda>body.
     ibind (add_params g (members body)) (\<lambda>_.
     ibind (iget code_len) (\<lambda>cs.
     ibind (compile_region_from cn g body_rid 0) (\<lambda>_.
     ibind (iget (buf_data \<circ> c_code)) (\<lambda>bytes.
     ibind (if length bytes = cs \<or> last bytes \<noteq> op_byte OP_RETURN
            then ibind (pool_const arc_const_pool_add_null) (\<lambda>ci. ibind (emit_const ci) (\<lambda>_. emit_op OP_RETURN))
            else iret ()) (\<lambda>_.
     imod (\<lambda>c. set_function fi (\<lambda>_. \<lparr>name_const_idx = of_nat name_ci, arity = ar, local_count = of_nat (length (c_locals c)),
       max_stack = of_int (c_max_stack c), code_offset = of_nat cs, code_length = of_nat (code_len c - cs), upvalues = []\<rparr>) c))))))))))))))"

text \<open>The variables of the enclosing functions are stacked in \<^verbatim>\<open>enclosing\<close>. The counts are restored after the
  inner function, the contents of \<^verbatim>\<open>upvals\<close> are not.\<close>

definition compile_closure :: "(ArcNodeId \<Rightarrow> unit cm) \<Rightarrow> ArcGraph \<Rightarrow> ArcNodeId \<Rightarrow> unit cm" where
  "compile_closure cn g n =
     ibind (ilift (find_port_by_role g n ''func'' ARC_PORT_INPUT)) (\<lambda>fp.
       if fp = ARC_INVALID_ID then cerr ''closure: no func input''
       else
         ibind (ilift (find_source_node g fp)) (\<lambda>fs.
           if fs = ARC_INVALID_ID then cerr ''closure: disconnected func''
           else
             ibind (iget id) (\<lambda>c0.
               if 256 < length (c_enclosing c0) + length (c_locals c0) then ilift Undef
               else
                 ibind (imod (\<lambda>c. c\<lparr>c_enclosing := c_enclosing c @ c_locals c, c_upval_count := 0\<rparr>)) (\<lambda>_.
                 ibind (compile_function cn g fs) (\<lambda>_.
                 ibind (iget (\<lambda>c. length (items (img_functions (c_image c))) - 1)) (\<lambda>fi.
                 ibind (imod (\<lambda>c. if 0 < c_upval_count c
                     then set_function fi (\<lambda>f. f\<lparr>upvalues := map (\<lambda>(_, l, i). \<lparr>is_local = l, uv_index = i\<rparr>) (take (c_upval_count c) (c_upvals c))\<rparr>) c
                     else c)) (\<lambda>_.
                 ibind (imod (\<lambda>c. c\<lparr>
                     c_locals := take (length (c_locals c0)) (drop (length (c_enclosing c0)) (c_enclosing c)),
                     c_enclosing := take (length (c_enclosing c0)) (c_enclosing c), c_upval_count := c_upval_count c0,
                     c_stack_depth := uint (of_int (c_stack_depth c0) :: u16), c_max_stack := c_max_stack c0,
                     c_debug_func_idx := c_debug_func_idx c0\<rparr>)) (\<lambda>_.
                 emit_u16_op OP_CLOSURE (of_nat fi) 0 1))))))))"

definition emit_call :: "ArcOpcode \<Rightarrow> u16 \<Rightarrow> u8 \<Rightarrow> unit cm" where
  "emit_call op idx argc =
     ibind (emit_byte (op_byte op)) (\<lambda>_. ibind (emit_u16 idx) (\<lambda>_. ibind (emit_byte argc) (\<lambda>_. emit_byte 0)))"

definition compile_intrinsic_call :: "(ArcNodeId \<Rightarrow> unit cm) \<Rightarrow> ArcGraph \<Rightarrow> ArcNode \<Rightarrow> unit cm" where
  "compile_intrinsic_call cn g nd =
     ibind (compile_input_ports cn g nd) (\<lambda>argc. ibind (ilift (attr_intrinsic (attr nd))) (\<lambda>i.
     ibind (emit_call OP_INTRINSIC i argc) (\<lambda>_. track_stack (uint argc) 1)))"

section \<open>Statements and control flow\<close>

text \<open>A variable of an enclosing function, or an error.\<close>

definition compile_captured :: "string option \<Rightarrow> string \<Rightarrow> ArcOpcode \<Rightarrow> int \<Rightarrow> int \<Rightarrow> unit cm" where
  "compile_captured x wher op pops pushes =
     ibind (iget c_enclosing) (\<lambda>enc.
     ibind (if enc \<noteq> [] then find_upvalue x else iret None) (\<lambda>uv. case uv of
        Some u \<Rightarrow> emit_u16_op op (of_nat u) pops pushes
      | None \<Rightarrow> (case x of None \<Rightarrow> ilift Undef | Some name \<Rightarrow> cerr (''undefined '' @ [CHR 0x27] @ name @ [CHR 0x27] @ wher))))"

definition emit_local :: "ArcOpcode \<Rightarrow> u16 \<Rightarrow> unit cm" where
  "emit_local op slot = ibind (emit_op op) (\<lambda>_. emit_u16 slot)"

definition intrinsic_number :: "ArcIntrinsicId \<Rightarrow> u16" where
  "intrinsic_number i = of_nat (length (takeWhile (\<lambda>x. x \<noteq> i) ARC_INTRINSICS))"

definition emit_print :: "unit cm" where
  "emit_print = ibind (emit_call OP_INTRINSIC (intrinsic_number ARC_INTRINSIC_PRINT) 1) (\<lambda>_. imod (\<lambda>c. c\<lparr>c_stack_depth := c_stack_depth c - 1\<rparr>))"

definition compile_stmts :: "(ArcNodeId \<Rightarrow> unit cm) \<Rightarrow> ArcGraph \<Rightarrow> ArcNodeId \<Rightarrow> ArcNode \<Rightarrow> unit cm" where
  "compile_stmts cn g n nd =
     (let k = kind nd in
      if k = ARC_NODE_LET then
        ibind (compile_value_port cn g n) (\<lambda>_. ibind (ilift (attr_name (attr nd))) (\<lambda>x. ibind (add_local x) (emit_local OP_STORE_LOCAL)))
      else if k = ARC_NODE_ASSIGN then
        ibind (compile_value_port cn g n) (\<lambda>_. ibind (ilift (attr_name (attr nd))) (\<lambda>x. ibind (find_local x) (\<lambda>slot. case slot of
            Some sl \<Rightarrow> emit_local OP_STORE_LOCAL sl
          | None \<Rightarrow> compile_captured x '' in assign'' OP_SET_UPVAL 1 0)))
      else if k = ARC_NODE_PRINT then ibind (compile_value_port cn g n) (\<lambda>_. emit_print)
      else if k = ARC_NODE_ROOT_OUTPUT then compile_value_port cn g n
      else if k = ARC_NODE_RETURN then
        ibind (ilift (find_port_by_role g n ''value'' ARC_PORT_INPUT)) (\<lambda>vp.
        ibind (if vp \<noteq> ARC_INVALID_ID then compile_value_port cn g n
               else ibind (pool_const arc_const_pool_add_null) emit_const) (\<lambda>_. emit_op OP_RETURN))
      else iret ())"

definition jump_back :: "nat \<Rightarrow> unit cm" where
  "jump_back loop_top = ibind (emit_op OP_JUMP) (\<lambda>_. ibind (iget code_len) (\<lambda>n. emit_i32 (of_nat loop_top - (of_nat n + 4))))"

definition compile_cond :: "(ArcNodeId \<Rightarrow> unit cm) \<Rightarrow> ArcGraph \<Rightarrow> ArcNodeId \<Rightarrow> unit cm" where
  "compile_cond cn g n = ibind (ilift (role_source g n ''cond'')) (compile_if_source cn)"

text \<open>The first \<^verbatim>\<open>BREAK_IF\<close> of a cycle is tested at its head.\<close>

fun first_break :: "ArcGraph \<Rightarrow> ArcNodeId list \<Rightarrow> ArcNodeId option outcome" where
  "first_break g [] = Ret None"
| "first_break g (m # ms) =
     andthen (node_at g m) (\<lambda>nd. if kind nd = ARC_NODE_BREAK_IF then Ret (Some m) else first_break g ms)"

definition compile_if :: "(ArcNodeId \<Rightarrow> unit cm) \<Rightarrow> ArcGraph \<Rightarrow> ArcNodeId \<Rightarrow> ArcNode \<Rightarrow> unit cm" where
  "compile_if cn g n nd =
     ibind (compile_cond cn g n) (\<lambda>_.
     ibind (emit_jump OP_JUMP_IF_FALSE) (\<lambda>ej.
     ibind (ilift (attr_branch (attr nd))) (\<lambda>(then_region, else_region).
     ibind (compile_region_from cn g then_region 0) (\<lambda>_.
     ibind (emit_jump OP_JUMP) (\<lambda>endj.
     ibind (patch_jump ej) (\<lambda>_.
     ibind (compile_region_from cn g else_region 0) (\<lambda>_. patch_jump endj)))))))"

definition compile_while :: "(ArcNodeId \<Rightarrow> unit cm) \<Rightarrow> ArcGraph \<Rightarrow> ArcNodeId \<Rightarrow> ArcNode \<Rightarrow> unit cm" where
  "compile_while cn g n nd =
     ibind (iget code_len) (\<lambda>loop_top.
     ibind (compile_cond cn g n) (\<lambda>_.
     ibind (emit_jump OP_JUMP_IF_FALSE) (\<lambda>ex.
     ibind (ilift (attr_loop (attr nd))) (\<lambda>body.
     ibind (compile_region_from cn g body 0) (\<lambda>_.
     ibind (jump_back loop_top) (\<lambda>_. patch_jump ex))))))"

definition compile_cycle :: "(ArcNodeId \<Rightarrow> unit cm) \<Rightarrow> ArcGraph \<Rightarrow> ArcNode \<Rightarrow> unit cm" where
  "compile_cycle cn g nd =
     ibind (ilift (attr_cycle (attr nd))) (\<lambda>rid.
     ibind (ilift (region_at g rid)) (\<lambda>body.
     ibind (iget code_len) (\<lambda>loop_top.
     ibind (ilift (first_break g (members body))) (\<lambda>brk.
     ibind (case brk of None \<Rightarrow> iret 0
            | Some b \<Rightarrow> ibind (compile_cond cn g b) (\<lambda>_. emit_jump OP_JUMP_IF_TRUE)) (\<lambda>exit_jump.
     ibind (compile_region_from cn g rid 0) (\<lambda>_.
     ibind (jump_back loop_top) (\<lambda>_. if brk \<noteq> None then patch_jump exit_jump else iret ())))))))"

definition compile_control :: "(ArcNodeId \<Rightarrow> unit cm) \<Rightarrow> ArcGraph \<Rightarrow> ArcNodeId \<Rightarrow> ArcNode \<Rightarrow> unit cm" where
  "compile_control cn g n nd =
     (if kind nd = ARC_NODE_IF then compile_if cn g n nd
      else if kind nd = ARC_NODE_WHILE then compile_while cn g n nd
      else compile_cycle cn g nd)"

section \<open>Calls, records, concurrency\<close>

text \<open>The function whose name constant is the given name.\<close>

definition named :: "ArcBytecodeImage \<Rightarrow> string \<Rightarrow> ArcFuncRecord \<Rightarrow> bool" where
  "named img name f \<longleftrightarrow>
     (let ni = unat (name_const_idx f); cs = items (img_constants img) in
      ni < length cs \<and> (case cs ! ni of ARC_CONST_STRING t \<Rightarrow> c_str t = name | _ \<Rightarrow> False))"

definition find_function :: "string option \<Rightarrow> nat option cm" where
  "find_function x =
     (case x of
        None \<Rightarrow> ilift Undef
      | Some name \<Rightarrow> iget (\<lambda>c. index_of (named (c_image c) name) (items (img_functions (c_image c)))))"

definition compile_call_to :: "string option \<Rightarrow> string \<Rightarrow> ArcOpcode \<Rightarrow> u8 \<Rightarrow> unit cm" where
  "compile_call_to x msg op argc =
     ibind (find_function x) (\<lambda>fi. case fi of
        None \<Rightarrow> cerr (msg @ [CHR 0x27] @ (case x of Some name \<Rightarrow> name | None \<Rightarrow> []) @ [CHR 0x27])
      | Some i \<Rightarrow> ibind (emit_call op (of_nat i) argc) (\<lambda>_. track_stack (uint argc) 1))"

definition compile_func_call :: "(ArcNodeId \<Rightarrow> unit cm) \<Rightarrow> ArcGraph \<Rightarrow> ArcNode \<Rightarrow> unit cm" where
  "compile_func_call cn g nd =
     ibind (compile_ports cn g (if cyclic_order nd \<noteq> [] then cyclic_order nd else node_ports nd) 0) (\<lambda>argc.
     ibind (ilift (attr_name (attr nd))) (\<lambda>x. compile_call_to x ''undefined function '' OP_CALL argc))"

definition compile_record_op :: "(ArcNodeId \<Rightarrow> unit cm) \<Rightarrow> ArcGraph \<Rightarrow> ArcNodeId \<Rightarrow> ArcNode \<Rightarrow> unit cm" where
  "compile_record_op cn g n nd =
     ibind (ilift (attr_name (attr nd))) (\<lambda>x. ibind (name_const x) (\<lambda>ci.
       if kind nd = ARC_NODE_RECORD_NEW then emit_u16_op OP_RECORD_NEW (of_nat ci) 0 1
       else if kind nd = ARC_NODE_FIELD_GET then
         ibind (compile_value_port cn g n) (\<lambda>_. emit_u16_op OP_FIELD_GET (of_nat ci) 1 1)
       else ibind (compile_roles cn g n [''record'', ''value'']) (\<lambda>_. emit_u16_op OP_FIELD_SET (of_nat ci) 2 1)))"

definition compile_concurrency :: "(ArcNodeId \<Rightarrow> unit cm) \<Rightarrow> ArcGraph \<Rightarrow> ArcNodeId \<Rightarrow> ArcNode \<Rightarrow> unit cm" where
  "compile_concurrency cn g n nd =
     (let k = kind nd; on_value = (\<lambda>op. ibind (compile_value_port cn g n) (\<lambda>_. emit_op op)) in
      if k = ARC_NODE_THREAD_SPAWN then
        ibind (compile_input_ports cn g nd) (\<lambda>argc. ibind (ilift (attr_name (attr nd))) (\<lambda>x.
          compile_call_to x ''thread_spawn: undefined function '' OP_THREAD_SPAWN argc))
      else if k = ARC_NODE_THREAD_JOIN then on_value OP_THREAD_JOIN
      else if k = ARC_NODE_MUTEX_NEW then emit_op OP_MUTEX_NEW
      else if k = ARC_NODE_MUTEX_LOCK then on_value OP_MUTEX_LOCK
      else if k = ARC_NODE_MUTEX_UNLOCK then on_value OP_MUTEX_UNLOCK
      else if k = ARC_NODE_CHAN_NEW then ibind (ilift (attr_collection (attr nd))) (\<lambda>n. emit_u16_op OP_CHAN_NEW n 0 1)
      else if k = ARC_NODE_CHAN_SEND then compile_binary cn g n OP_CHAN_SEND
      else if k = ARC_NODE_CHAN_RECV then on_value OP_CHAN_RECV
      else iret ())"

section \<open>The dispatch\<close>

definition compile_var_ref :: "ArcNode \<Rightarrow> unit cm" where
  "compile_var_ref nd =
     ibind (ilift (attr_name (attr nd))) (\<lambda>x. ibind (find_local x) (\<lambda>slot. case slot of
        Some sl \<Rightarrow> emit_local OP_LOAD_LOCAL sl
      | None \<Rightarrow> compile_captured x [] OP_GET_UPVAL 0 1))"

definition compile_kind :: "(ArcNodeId \<Rightarrow> unit cm) \<Rightarrow> ArcGraph \<Rightarrow> ArcNodeId \<Rightarrow> ArcNode \<Rightarrow> unit cm" where
  "compile_kind cn g n nd =
     (let k = kind nd in
      case binary_op_for_kind k of Some op \<Rightarrow> compile_binary cn g n op
      | None \<Rightarrow> case unary_op_for_kind k of Some op \<Rightarrow> compile_unary cn g n op
      | None \<Rightarrow>
        if k \<in> {ARC_NODE_CONST_INT, ARC_NODE_CONST_FLOAT, ARC_NODE_CONST_BOOL, ARC_NODE_CONST_NULL, ARC_NODE_CONST_STRING} then compile_const nd
        else if k = ARC_NODE_AND then compile_shortcircuit cn g n False
        else if k = ARC_NODE_OR then compile_shortcircuit cn g n True
        else if k \<in> {ARC_NODE_ARRAY_LITERAL, ARC_NODE_MAP_LITERAL, ARC_NODE_INDEX_SET, ARC_NODE_STR_SLICE} then compile_collections cn g n nd
        else if k = ARC_NODE_TRY then compile_try cn g nd
        else if k = ARC_NODE_THROW then compile_unary cn g n OP_THROW
        else if k = ARC_NODE_CLOSURE then compile_closure cn g n
        else if k = ARC_NODE_INTRINSIC_CALL then compile_intrinsic_call cn g nd
        else if k \<in> {ARC_NODE_RECORD_NEW, ARC_NODE_FIELD_GET, ARC_NODE_FIELD_SET} then compile_record_op cn g n nd
        else if k \<in> {ARC_NODE_THREAD_SPAWN, ARC_NODE_THREAD_JOIN, ARC_NODE_MUTEX_NEW, ARC_NODE_MUTEX_LOCK, ARC_NODE_MUTEX_UNLOCK,
                      ARC_NODE_CHAN_NEW, ARC_NODE_CHAN_SEND, ARC_NODE_CHAN_RECV} then compile_concurrency cn g n nd
        else if k = ARC_NODE_VAR_REF then compile_var_ref nd
        else if k \<in> {ARC_NODE_LET, ARC_NODE_ASSIGN, ARC_NODE_PRINT, ARC_NODE_ROOT_OUTPUT, ARC_NODE_RETURN} then compile_stmts cn g n nd
        else if k \<in> {ARC_NODE_IF, ARC_NODE_WHILE, ARC_NODE_CYCLE} then compile_control cn g n nd
        else if k = ARC_NODE_FUNC_CALL then compile_func_call cn g nd
        else if k \<in> {ARC_NODE_BREAK_IF, ARC_NODE_SEQUENCE, ARC_NODE_PARAM} then iret ()
        else cerr (''unsupported node kind '' @ dec_digits (kind_number k) @ '' at node '' @ dec_digits n))"

definition add_debug :: "ArcNode \<Rightarrow> nat \<Rightarrow> unit cm" where
  "add_debug nd ds c =
     (if ds < code_len c \<and> source_id nd \<noteq> 0 then
        andthen (arc_debug_table_add (img_debug (c_image c))
          \<lparr>dbg_func_idx = c_debug_func_idx c, bc_start = of_nat ds, bc_end = of_nat (code_len c), element_id = source_id nd\<rparr>)
          (\<lambda>t. Ret ((), c\<lparr>c_image := (c_image c)\<lparr>img_debug := t\<rparr>\<rparr>))
      else Ret ((), c))"

fun compile_node :: "nat \<Rightarrow> ArcGraph \<Rightarrow> ArcNodeId \<Rightarrow> unit cm" where
  "compile_node 0 g n = ilift Undef"
| "compile_node (Suc depth) g n =
     (if length (nodes g) \<le> n then cerr (''invalid node id '' @ dec_digits n)
      else let nd = nodes g ! n in
        ibind (iget code_len) (\<lambda>ds. ibind (compile_kind (compile_node depth g) g n nd) (\<lambda>_. add_debug nd ds)))"

section \<open>The whole program\<close>

text \<open>Is the function the target of a closure node?\<close>

fun closure_target :: "ArcGraph \<Rightarrow> ArcNodeId \<Rightarrow> ArcNodeId list \<Rightarrow> bool outcome" where
  "closure_target g fid [] = Ret False"
| "closure_target g fid (i # js) =
     (if kind (nodes g ! i) \<noteq> ARC_NODE_CLOSURE then closure_target g fid js
      else andthen (find_port_by_role g i ''func'' ARC_PORT_INPUT) (\<lambda>fp.
        andthen (if fp \<noteq> ARC_INVALID_ID then andthen (find_source_node g fp) (\<lambda>s. Ret (s = fid)) else Ret False) (\<lambda>hit.
          if hit then Ret True else closure_target g fid js)))"

definition is_closure_target :: "ArcGraph \<Rightarrow> ArcNodeId \<Rightarrow> bool outcome" where
  "is_closure_target g fid = closure_target g fid [0..<length (nodes g)]"

fun compile_root_members :: "(ArcNodeId \<Rightarrow> unit cm) \<Rightarrow> ArcGraph \<Rightarrow> ArcNodeId list \<Rightarrow> unit cm" where
  "compile_root_members cn g [] = iret ()"
| "compile_root_members cn g (m # ms) =
     ibind (ilift (node_at g m)) (\<lambda>nd.
       if kind nd = ARC_NODE_FUNC_DEF \<or> kind nd = ARC_NODE_ROOT_OUTPUT \<or> is_expr_node (kind nd) then compile_root_members cn g ms
       else ibind (cn m) (\<lambda>_. compile_root_members cn g ms))"

definition compile_root_stmts :: "(ArcNodeId \<Rightarrow> unit cm) \<Rightarrow> ArcGraph \<Rightarrow> unit cm" where
  "compile_root_stmts cn g =
     ibind (ilift (region_at g (root_region g))) (\<lambda>root.
     ibind (compile_root_members cn g (members root)) (\<lambda>_.
     ibind (if output_node g = ARC_INVALID_ID then iret ()
            else ibind (ilift (node_at g (output_node g))) (\<lambda>nd.
              if kind nd = ARC_NODE_ROOT_OUTPUT
              then ibind (cn (output_node g)) (\<lambda>_. ibind (emit_op OP_DUP) (\<lambda>_. emit_print))
              else iret ())) (\<lambda>_. emit_op OP_HALT)))"

text \<open>The function indices in the code move up by one when the main function is put first. The instructions are found by a
  linear sweep from the start of the code.\<close>

definition names_function :: "ArcOpcode \<Rightarrow> bool" where
  "names_function op \<longleftrightarrow> op \<in> {OP_CALL, OP_CLOSURE, OP_THREAD_SPAWN, OP_CORO_NEW}"

fun patch_calls :: "nat \<Rightarrow> nat \<Rightarrow> u8 list \<Rightarrow> u8 list outcome" where
  "patch_calls 0 pc code = (if pc < length code then Undef else Ret code)"
| "patch_calls (Suc fuel) pc code =
     (if length code \<le> pc then Ret code
      else case opcode_of_byte (code ! pc) of
        None \<Rightarrow> Ret code
      | Some op \<Rightarrow>
          if names_function op then
            (if pc + 2 < length code then
               let fi = (ucast (code ! (pc + 1)) OR push_bit 8 (ucast (code ! (pc + 2)))) + 1 :: u16 in
               patch_calls fuel (pc + 1 + op_operands op) (code[pc + 1 := ucast (fi AND 0xFF), pc + 2 := ucast (drop_bit 8 fi)])
             else Undef)
          else patch_calls fuel (pc + 1 + op_operands op) code)"

definition patch_calls_for_main :: "nat \<Rightarrow> unit cm" where
  "patch_calls_for_main main_start c =
     andthen (patch_calls (code_len c) 0 (buf_data (c_code c))) (\<lambda>bytes.
       Ret ((), c\<lparr>c_code := (c_code c)\<lparr>buf_data := bytes\<rparr>,
         c_image := (c_image c)\<lparr>img_debug := (img_debug (c_image c))\<lparr>items :=
           map (\<lambda>e. if bc_start e < of_nat main_start then e\<lparr>dbg_func_idx := dbg_func_idx e + 1\<rparr> else e) (items (img_debug (c_image c)))\<rparr>\<rparr>\<rparr>))"

text \<open>\<^verbatim>\<open>compile_top\<close> runs a command on every function definition that is not a closure.\<close>

fun each_function :: "(ArcNodeId \<Rightarrow> unit cm) \<Rightarrow> ArcGraph \<Rightarrow> ArcNodeId list \<Rightarrow> unit cm" where
  "each_function f g [] = iret ()"
| "each_function f g (i # js) =
     (if kind (nodes g ! i) = ARC_NODE_FUNC_DEF then
        ibind (ilift (is_closure_target g i)) (\<lambda>t. ibind (if t then iret () else f i) (\<lambda>_. each_function f g js))
      else each_function f g js)"

definition preregister :: "ArcGraph \<Rightarrow> ArcNodeId \<Rightarrow> unit cm" where
  "preregister g i =
     ibind (ilift (attr_func (attr (nodes g ! i)))) (\<lambda>(fname, _, ar).
     ibind (name_const fname) (\<lambda>nci. ibind (add_function (new_func (of_nat nci) ar)) (\<lambda>_. iret ())))"

definition install_main :: "ArcFuncRecord \<Rightarrow> nat \<Rightarrow> unit cm" where
  "install_main mr ms =
     ibind (iget (\<lambda>c. items (img_functions (c_image c)))) (\<lambda>fs.
       if fs = [] then ibind (add_function mr) (\<lambda>_. iret ())
       else
         ibind (add_function (new_func 0 0)) (\<lambda>_.
         ibind (imod (\<lambda>c. c\<lparr>c_image := (c_image c)\<lparr>img_functions := (img_functions (c_image c))\<lparr>
            items := mr # butlast (items (img_functions (c_image c)))\<rparr>\<rparr>\<rparr>)) (\<lambda>_. patch_calls_for_main ms)))"

definition compiler_init :: Compiler where
  "compiler_init = \<lparr>c_image = arc_image_init, c_code = arc_buf_init, c_errors = [], c_had_error = False, c_locals = [],
     c_stack_depth = 0, c_max_stack = 0, c_debug_func_idx = 0, c_enclosing = [], c_upvals = replicate 64 (None, False, 0), c_upval_count = 0\<rparr>"

record ArcCompileResult =
  cr_image :: ArcBytecodeImage
  cr_errors :: "string list"
  cr_success :: bool

definition compile_program :: "nat \<Rightarrow> ArcGraph \<Rightarrow> unit cm" where
  "compile_program depth g =
     ibind (each_function (preregister g) g [0..<length (nodes g)]) (\<lambda>_.
     ibind (each_function (compile_function (compile_node depth g) g) g [0..<length (nodes g)]) (\<lambda>_.
     ibind (imod (\<lambda>c. c\<lparr>c_locals := [], c_stack_depth := 0, c_max_stack := 0\<rparr>)) (\<lambda>_.
     ibind (pool_const (\<lambda>p. arc_const_pool_add_string p ''main'')) (\<lambda>mn.
     ibind (imod (\<lambda>c. c\<lparr>c_debug_func_idx := 0\<rparr>)) (\<lambda>_.
     ibind (iget code_len) (\<lambda>ms.
     ibind (compile_root_stmts (compile_node depth g) g) (\<lambda>_.
     ibind (iget (\<lambda>c. \<lparr>name_const_idx = of_nat mn, arity = 0, local_count = of_nat (length (c_locals c)), max_stack = of_int (c_max_stack c),
        code_offset = of_nat ms, code_length = of_nat (code_len c - ms), upvalues = []\<rparr>)) (\<lambda>mr. install_main mr ms))))))))"

definition arc_compile :: "nat \<Rightarrow> ArcGraph \<Rightarrow> ArcCompileResult outcome" where
  "arc_compile depth g =
     andthen (compile_program depth g compiler_init) (\<lambda>(_, c).
       Ret \<lparr>cr_image = (c_image c)\<lparr>img_code := buf_data (c_code c)\<rparr>, cr_errors = c_errors c, cr_success = (\<not> c_had_error c)\<rparr>)"

end
