(* ===== verification/Interpreter.thy ===== *)
theory Interpreter
  imports Arc_Cmd "HOL-Library.Signed_Division"
begin

text \<open>
  The reference interpreter, \<^verbatim>\<open>src/interpreter/interpreter.{h,c}\<close>, which evaluates the semantic graph directly. The
  variables and frames are the used prefixes of the fixed arrays of the C structure (what is beyond
  \<^verbatim>\<open>var_count\<close> and \<^verbatim>\<open>fp\<close> is never read). The recursion of \<^verbatim>\<open>eval_node\<close>, \<^verbatim>\<open>exec_stmt\<close> and
  \<^verbatim>\<open>exec_region_stmts\<close> is bounded by \<open>depth\<close>, the nested calls the C stack affords; exceeding it is \<open>Undef\<close>. The
  parameter \<open>fmt\<close> is the conversion of \<^verbatim>\<open>printf\<close> for a double. Values are never objects here, so they
  are compared and printed without a heap.
\<close>

section \<open>State\<close>

definition ARC_INTERP_VARS_MAX :: nat where "ARC_INTERP_VARS_MAX = 256"
definition ARC_INTERP_FRAMES_MAX :: nat where "ARC_INTERP_FRAMES_MAX = 64"

record Interp =
  i_vars :: "(string option \<times> ArcValue) list"
  i_frames :: "nat list"
  i_result :: ArcValue
  i_error :: string
  i_had_error :: bool
  i_returned :: bool
  i_output :: string

type_synonym 'a im = "(Interp, 'a) cmd"

definition ierr :: "string \<Rightarrow> unit im" where
  "ierr msg = imod (\<lambda>s. if i_had_error s then s else s\<lparr>i_error := take 255 msg, i_had_error := True\<rparr>)"

text \<open>\<^verbatim>\<open>{ ierr(ip, ...); return arc_val_null(); }\<close>\<close>

definition ierr_null :: "string \<Rightarrow> ArcValue im" where
  "ierr_null msg = ibind (ierr msg) (\<lambda>_. iret VAL_NULL)"

section \<open>Variables\<close>

definition frame_base :: "nat list \<Rightarrow> nat" where
  "frame_base fs = (if fs = [] then 0 else last fs)"

fun find_from :: "(string option \<times> ArcValue) list \<Rightarrow> string option \<Rightarrow> nat \<Rightarrow> nat \<Rightarrow> nat option outcome" where
  "find_from vs x base 0 = Ret None"
| "find_from vs x base (Suc i) =
     (if Suc i \<le> base then Ret None
      else andthen (c_streq (fst (vs ! i)) x) (\<lambda>eq. if eq then Ret (Some i) else find_from vs x base i))"

definition find_var :: "string option \<Rightarrow> nat option im" where
  "find_var x s = ilift (find_from (i_vars s) x (frame_base (i_frames s)) (length (i_vars s))) s"

definition put_var :: "nat \<Rightarrow> ArcValue \<Rightarrow> unit im" where
  "put_var i v = imod (\<lambda>s. s\<lparr>i_vars := (i_vars s)[i := (fst (i_vars s ! i), v)]\<rparr>)"

definition set_var :: "string option \<Rightarrow> ArcValue \<Rightarrow> unit im" where
  "set_var x v =
     ibind (find_var x) (\<lambda>idx. case idx of
        Some i \<Rightarrow> put_var i v
      | None \<Rightarrow> ibind (iget (length \<circ> i_vars)) (\<lambda>n.
          if ARC_INTERP_VARS_MAX \<le> n then ierr ''too many variables''
          else imod (\<lambda>s. s\<lparr>i_vars := i_vars s @ [(x, v)]\<rparr>)))"

definition get_var :: "string option \<Rightarrow> ArcValue im" where
  "get_var x =
     ibind (find_var x) (\<lambda>idx. case idx of
        Some i \<Rightarrow> iget (\<lambda>s. snd (i_vars s ! i))
      | None \<Rightarrow> (case x of None \<Rightarrow> ilift Undef | Some name \<Rightarrow> ierr_null (''undefined variable '' @ [CHR 0x27] @ name @ [CHR 0x27])))"

section \<open>Inputs\<close>

definition find_source :: "ArcGraph \<Rightarrow> ArcPortId \<Rightarrow> ArcNodeId outcome" where
  "find_source g p = edge_source g p (edges g)"

definition find_port_by_role_dir :: "ArcGraph \<Rightarrow> ArcNodeId \<Rightarrow> string \<Rightarrow> ArcPortDir \<Rightarrow> ArcPortId outcome" where
  "find_port_by_role_dir g n rl d = andthen (node_at g n) (\<lambda>nd. port_with_role g rl d (node_ports nd))"

definition eval_source :: "(ArcNodeId \<Rightarrow> ArcValue im) \<Rightarrow> ArcGraph \<Rightarrow> ArcPortId \<Rightarrow> ArcValue im" where
  "eval_source eval g p =
     ibind (ilift (find_source g p)) (\<lambda>src. if src = ARC_INVALID_ID then iret VAL_NULL else eval src)"

definition eval_input :: "(ArcNodeId \<Rightarrow> ArcValue im) \<Rightarrow> ArcGraph \<Rightarrow> ArcNodeId \<Rightarrow> string \<Rightarrow> ArcValue im" where
  "eval_input eval g n rl =
     ibind (ilift (find_port_by_role_dir g n rl ARC_PORT_INPUT)) (\<lambda>p1.
     ibind (if p1 = ARC_INVALID_ID then ilift (find_port_by_role_dir g n ''in'' ARC_PORT_INPUT) else iret p1) (\<lambda>p.
       if p = ARC_INVALID_ID then iret VAL_NULL else eval_source eval g p))"

text \<open>The values of the first \<open>k\<close> input ports of a list.\<close>

fun eval_ports :: "(ArcNodeId \<Rightarrow> ArcValue im) \<Rightarrow> ArcGraph \<Rightarrow> nat \<Rightarrow> ArcPortId list \<Rightarrow> ArcValue list im" where
  "eval_ports eval g 0 ps = iret []"
| "eval_ports eval g (Suc k) [] = iret []"
| "eval_ports eval g (Suc k) (p # ps) =
     ibind (ilift (port_at g p)) (\<lambda>q.
       if dir q = ARC_PORT_INPUT then
         ibind (eval_source eval g (port_id q)) (\<lambda>v. ibind (eval_ports eval g k ps) (\<lambda>vs. iret (v # vs)))
       else eval_ports eval g (Suc k) ps)"

text \<open>With a cyclic order of at least two ports, its first two inputs are the operands; if it has fewer
  inputs, an operand stays uninitialized and reading it is undefined.\<close>

definition eval_binary_lhs_rhs :: "(ArcNodeId \<Rightarrow> ArcValue im) \<Rightarrow> ArcGraph \<Rightarrow> ArcNodeId \<Rightarrow> (ArcValue \<times> ArcValue) im" where
  "eval_binary_lhs_rhs eval g n =
     ibind (ilift (node_at g n)) (\<lambda>nd.
       if 2 \<le> length (cyclic_order nd) then
         ibind (eval_ports eval g 2 (cyclic_order nd)) (\<lambda>vs. case vs of [lhs, rhs] \<Rightarrow> iret (lhs, rhs) | _ \<Rightarrow> ilift Undef)
       else
         ibind (eval_input eval g n ''lhs'') (\<lambda>lhs. ibind (eval_input eval g n ''rhs'') (\<lambda>rhs. iret (lhs, rhs))))"

section \<open>Operators\<close>

definition ii64 :: "int \<Rightarrow> ArcValue im" where
  "ii64 r = ibind (ilift (c_i64 r)) (\<lambda>i. iret (VAL_I64 i))"

definition arith_value :: "ArcNodeKind \<Rightarrow> ArcValue \<Rightarrow> ArcValue \<Rightarrow> ArcValue im" where
  "arith_value k lhs rhs =
     (case (lhs, rhs) of
        (VAL_I64 x, VAL_I64 y) \<Rightarrow>
          if k = ARC_NODE_ADD then ii64 (sint x + sint y)
          else if k = ARC_NODE_SUB then ii64 (sint x - sint y)
          else if k = ARC_NODE_MUL then ii64 (sint x * sint y)
          else if k = ARC_NODE_DIV then
            (if y = 0 then ierr_null ''division by zero'' else ii64 (sint x sdiv sint y))
          else if k = ARC_NODE_MOD then
            (if y = 0 then ierr_null ''modulo by zero''
             else ibind (ilift (c_i64 (sint x sdiv sint y))) (\<lambda>_. ii64 (sint x smod sint y)))
          else ierr_null ''type mismatch in arithmetic''
      | (VAL_F64 x, VAL_F64 y) \<Rightarrow>
          if k = ARC_NODE_ADD then iret (VAL_F64 (f64_add x y))
          else if k = ARC_NODE_SUB then iret (VAL_F64 (f64_sub x y))
          else if k = ARC_NODE_MUL then iret (VAL_F64 (f64_mul x y))
          else if k = ARC_NODE_DIV then iret (VAL_F64 (f64_div x y))
          else ierr_null ''type mismatch in arithmetic''
      | _ \<Rightarrow> ierr_null ''type mismatch in arithmetic'')"

definition eval_arith :: "(ArcNodeId \<Rightarrow> ArcValue im) \<Rightarrow> ArcGraph \<Rightarrow> ArcNodeId \<Rightarrow> ArcNode \<Rightarrow> ArcValue im" where
  "eval_arith eval g n nd = ibind (eval_binary_lhs_rhs eval g n) (\<lambda>(lhs, rhs). arith_value (kind nd) lhs rhs)"

definition comparison_value :: "ArcNodeKind \<Rightarrow> ArcValue \<Rightarrow> ArcValue \<Rightarrow> ArcValue im" where
  "comparison_value k lhs rhs =
     (if k = ARC_NODE_EQ then iret (VAL_BOOL (arc_val_equal arc_gc_create lhs rhs))
      else if k = ARC_NODE_NEQ then iret (VAL_BOOL (\<not> arc_val_equal arc_gc_create lhs rhs))
      else case (lhs, rhs) of
        (VAL_I64 x, VAL_I64 y) \<Rightarrow>
          if k = ARC_NODE_LT then iret (VAL_BOOL (sint x < sint y))
          else if k = ARC_NODE_LE then iret (VAL_BOOL (sint x \<le> sint y))
          else if k = ARC_NODE_GT then iret (VAL_BOOL (sint x > sint y))
          else if k = ARC_NODE_GE then iret (VAL_BOOL (sint x \<ge> sint y))
          else ierr_null ''type mismatch in comparison''
      | (VAL_F64 x, VAL_F64 y) \<Rightarrow>
          if k = ARC_NODE_LT then iret (VAL_BOOL (f64_lt x y))
          else if k = ARC_NODE_LE then iret (VAL_BOOL (f64_le x y))
          else if k = ARC_NODE_GT then iret (VAL_BOOL (f64_lt y x))
          else if k = ARC_NODE_GE then iret (VAL_BOOL (f64_le y x))
          else ierr_null ''type mismatch in comparison''
      | _ \<Rightarrow> ierr_null ''type mismatch in comparison'')"

definition eval_comparison :: "(ArcNodeId \<Rightarrow> ArcValue im) \<Rightarrow> ArcGraph \<Rightarrow> ArcNodeId \<Rightarrow> ArcNode \<Rightarrow> ArcValue im" where
  "eval_comparison eval g n nd = ibind (eval_binary_lhs_rhs eval g n) (\<lambda>(lhs, rhs). comparison_value (kind nd) lhs rhs)"

definition neg_value :: "ArcValue \<Rightarrow> ArcValue im" where
  "neg_value v =
     (case v of VAL_I64 i \<Rightarrow> ii64 (- sint i) | VAL_F64 d \<Rightarrow> iret (VAL_F64 (f64_neg d)) | _ \<Rightarrow> ierr_null ''neg: type mismatch'')"

section \<open>Calls\<close>

fun find_func_def :: "string option \<Rightarrow> ArcNode list \<Rightarrow> ArcNode option outcome" where
  "find_func_def fname [] = Ret None"
| "find_func_def fname (nd # ns) =
     (if kind nd = ARC_NODE_FUNC_DEF then
        andthen (attr_func (attr nd)) (\<lambda>(name, _). andthen (c_streq name fname) (\<lambda>eq.
          if eq then Ret (Some nd) else find_func_def fname ns))
      else find_func_def fname ns)"

text \<open>Parameters take the arguments in the order of the members, as long as there are arguments.\<close>

fun bind_params :: "ArcGraph \<Rightarrow> ArcNodeId list \<Rightarrow> ArcValue list \<Rightarrow> unit im" where
  "bind_params g [] args = iret ()"
| "bind_params g (m # ms) [] = iret ()"
| "bind_params g (m # ms) (a # args) =
     ibind (ilift (node_at g m)) (\<lambda>nd.
       if kind nd = ARC_NODE_PARAM
       then ibind (ilift (attr_name (attr nd))) (\<lambda>x. ibind (set_var x a) (\<lambda>_. bind_params g ms args))
       else bind_params g ms (a # args))"

definition pop_frame :: "Interp \<Rightarrow> Interp" where
  "pop_frame s = s\<lparr>i_returned := False, i_frames := butlast (i_frames s), i_vars := take (last (i_frames s)) (i_vars s)\<rparr>"

text \<open>Running a body in a frame of its own; the value is the result it leaves.\<close>

definition in_frame :: "unit im \<Rightarrow> ArcValue im" where
  "in_frame body =
     ibind (iget (length \<circ> i_frames)) (\<lambda>fp.
       if ARC_INTERP_FRAMES_MAX \<le> fp then ierr_null ''call stack overflow''
       else
         ibind (imod (\<lambda>s. s\<lparr>i_frames := i_frames s @ [length (i_vars s)]\<rparr>)) (\<lambda>_.
         ibind body (\<lambda>_.
         ibind (iget i_result) (\<lambda>ret.
         ibind (imod pop_frame) (\<lambda>_. iret ret)))))"

definition eval_func_call ::
    "(ArcNodeId \<Rightarrow> ArcValue im) \<Rightarrow> (ArcRegionId \<Rightarrow> unit im) \<Rightarrow> ArcGraph \<Rightarrow> ArcNode \<Rightarrow> ArcValue im" where
  "eval_func_call eval region_stmts g nd =
     ibind (ilift (attr_name (attr nd))) (\<lambda>fname.
     ibind (ilift (find_func_def fname (nodes g))) (\<lambda>fdef.
       case fdef of
         None \<Rightarrow> (case fname of None \<Rightarrow> ilift Undef | Some f \<Rightarrow> ierr_null (''undefined function '' @ [CHR 0x27] @ f @ [CHR 0x27]))
       | Some fd \<Rightarrow>
           ibind (eval_ports eval g 16 (if cyclic_order nd \<noteq> [] then cyclic_order nd else node_ports nd)) (\<lambda>args.
           in_frame
             (ibind (ilift (attr_func (attr fd))) (\<lambda>(_, body_rid, _).
              ibind (ilift (region_at g body_rid)) (\<lambda>body.
              ibind (bind_params g (members body) args) (\<lambda>_.
              ibind (imod (\<lambda>s. s\<lparr>i_returned := False\<rparr>)) (\<lambda>_. region_stmts body_rid))))))))"

section \<open>Expressions\<close>

text \<open>The body of \<^verbatim>\<open>eval_node\<close> after its guards.\<close>

definition eval_kind ::
    "(ArcNodeId \<Rightarrow> ArcValue im) \<Rightarrow> (ArcRegionId \<Rightarrow> unit im) \<Rightarrow> ArcGraph \<Rightarrow> ArcNodeId \<Rightarrow> ArcNode \<Rightarrow> ArcValue im" where
  "eval_kind eval region_stmts g n nd =
     (let k = kind nd in
      if k = ARC_NODE_CONST_INT then ibind (ilift (attr_int (attr nd))) (\<lambda>i. iret (VAL_I64 i))
      else if k = ARC_NODE_CONST_FLOAT then ibind (ilift (attr_float (attr nd))) (\<lambda>d. iret (VAL_F64 d))
      else if k = ARC_NODE_CONST_BOOL then ibind (ilift (attr_bool (attr nd))) (\<lambda>b. iret (VAL_BOOL b))
      else if k = ARC_NODE_CONST_NULL then iret VAL_NULL
      else if k = ARC_NODE_VAR_REF then ibind (ilift (attr_name (attr nd))) get_var
      else if k \<in> {ARC_NODE_ADD, ARC_NODE_SUB, ARC_NODE_MUL, ARC_NODE_DIV, ARC_NODE_MOD} then eval_arith eval g n nd
      else if k \<in> {ARC_NODE_EQ, ARC_NODE_NEQ, ARC_NODE_LT, ARC_NODE_LE, ARC_NODE_GT, ARC_NODE_GE} then eval_comparison eval g n nd
      else if k = ARC_NODE_NEG then ibind (eval_input eval g n ''value'') neg_value
      else if k = ARC_NODE_NOT then ibind (eval_input eval g n ''value'') (\<lambda>v. iret (VAL_BOOL (\<not> arc_val_is_truthy v)))
      else if k = ARC_NODE_FUNC_CALL then eval_func_call eval region_stmts g nd
      else if k = ARC_NODE_ROOT_OUTPUT then eval_input eval g n ''value''
      else ierr_null (''eval: unsupported node kind '' @ dec_digits (kind_number k)))"

definition is_interp_expr :: "ArcNodeKind \<Rightarrow> bool" where
  "is_interp_expr k \<longleftrightarrow> k \<in> {ARC_NODE_CONST_INT, ARC_NODE_CONST_FLOAT, ARC_NODE_CONST_BOOL, ARC_NODE_CONST_NULL,
     ARC_NODE_ADD, ARC_NODE_SUB, ARC_NODE_MUL, ARC_NODE_DIV, ARC_NODE_MOD, ARC_NODE_NEG, ARC_NODE_EQ, ARC_NODE_NEQ,
     ARC_NODE_LT, ARC_NODE_LE, ARC_NODE_GT, ARC_NODE_GE, ARC_NODE_VAR_REF, ARC_NODE_FUNC_CALL, ARC_NODE_NOT}"

section \<open>Statements\<close>

text \<open>\<^verbatim>\<open>while (max_iter-- > 0 && !ip->had_error && !ip->returned) ...\<close> with \<open>step\<close> as its body, which says
  whether to go on; the result is the final value of \<^verbatim>\<open>max_iter\<close>.\<close>

fun limit_loop :: "bool im \<Rightarrow> nat \<Rightarrow> int im" where
  "limit_loop step 0 = iret (-1)"
| "limit_loop step (Suc m) =
     ibind (iget (\<lambda>s. i_had_error s \<or> i_returned s)) (\<lambda>stop.
       if stop then iret (int m)
       else ibind step (\<lambda>go. if go then limit_loop step m else iret (int m)))"

definition limited :: "string \<Rightarrow> bool im \<Rightarrow> unit im" where
  "limited msg step = ibind (limit_loop step 100000) (\<lambda>m. if m \<le> 0 then ierr msg else iret ())"

text \<open>One pass over the members of a cycle; the result is \<^verbatim>\<open>do_break\<close>.\<close>

fun cycle_members :: "(ArcNodeId \<Rightarrow> ArcValue im) \<Rightarrow> (ArcNodeId \<Rightarrow> ArcNode \<Rightarrow> unit im) \<Rightarrow> ArcGraph \<Rightarrow> ArcNodeId list \<Rightarrow> bool im" where
  "cycle_members eval stmt g [] = iret False"
| "cycle_members eval stmt g (c # cs) =
     ibind (ilift (node_at g c)) (\<lambda>cn.
       if kind cn = ARC_NODE_BREAK_IF then
         ibind (eval_input eval g c ''cond'') (\<lambda>bcond. if arc_val_is_truthy bcond then iret True else cycle_members eval stmt g cs)
       else if kind cn = ARC_NODE_PARAM \<or> is_interp_expr (kind cn) then cycle_members eval stmt g cs
       else ibind (stmt c cn) (\<lambda>_. cycle_members eval stmt g cs))"

definition exec_cycle :: "(ArcNodeId \<Rightarrow> ArcValue im) \<Rightarrow> (ArcNodeId \<Rightarrow> ArcNode \<Rightarrow> unit im) \<Rightarrow> ArcGraph \<Rightarrow> ArcNode \<Rightarrow> unit im" where
  "exec_cycle eval stmt g m =
     ibind (ilift (attr_cycle (attr m))) (\<lambda>body_rid.
       limited ''cycle iteration limit exceeded''
         (if body_rid = ARC_INVALID_ID then iret False
          else ibind (ilift (region_at g body_rid)) (\<lambda>body.
            ibind (cycle_members eval stmt g (members body)) (\<lambda>do_break. iret (\<not> do_break)))))"

definition print_line :: "(f64 \<Rightarrow> string) \<Rightarrow> ArcValue \<Rightarrow> unit im" where
  "print_line fmt v =
     ibind (ilift (print_value fmt (\<lambda>_. Undef) v)) (\<lambda>t. imod (\<lambda>s. s\<lparr>i_output := i_output s @ t @ [CHR 0x0A]\<rparr>))"

definition assign_var :: "string option \<Rightarrow> ArcValue im \<Rightarrow> unit im" where
  "assign_var x ev =
     ibind (find_var x) (\<lambda>idx. case idx of
        None \<Rightarrow> (case x of None \<Rightarrow> ilift Undef | Some name \<Rightarrow> ierr (''undefined variable '' @ [CHR 0x27] @ name @ [CHR 0x27]))
      | Some i \<Rightarrow> ibind ev (put_var i))"

text \<open>One round of a \<^verbatim>\<open>WHILE\<close> node.\<close>

definition while_step :: "(ArcNodeId \<Rightarrow> ArcValue im) \<Rightarrow> (ArcRegionId \<Rightarrow> unit im) \<Rightarrow> ArcGraph \<Rightarrow> ArcNodeId \<Rightarrow> ArcNode \<Rightarrow> bool im" where
  "while_step eval region_stmts g mid m =
     ibind (eval_input eval g mid ''cond'') (\<lambda>c.
       if \<not> arc_val_is_truthy c then iret False
       else ibind (ilift (attr_loop (attr m))) (\<lambda>r. ibind (region_stmts r) (\<lambda>_. iret True)))"

definition stmt_kind ::
    "(f64 \<Rightarrow> string) \<Rightarrow> (ArcNodeId \<Rightarrow> ArcValue im) \<Rightarrow> (ArcRegionId \<Rightarrow> unit im) \<Rightarrow> (ArcNodeId \<Rightarrow> ArcNode \<Rightarrow> unit im) \<Rightarrow> ArcGraph \<Rightarrow>
     ArcNodeId \<Rightarrow> ArcNode \<Rightarrow> unit im" where
  "stmt_kind fmt eval region_stmts stmt g mid m =
     (let k = kind m in
      if k = ARC_NODE_LET then
        ibind (ilift (attr_name (attr m))) (\<lambda>x. ibind (eval_input eval g mid ''value'') (set_var x))
      else if k = ARC_NODE_ASSIGN then
        ibind (ilift (attr_name (attr m))) (\<lambda>x. assign_var x (eval_input eval g mid ''value''))
      else if k = ARC_NODE_PRINT then ibind (eval_input eval g mid ''value'') (print_line fmt)
      else if k = ARC_NODE_RETURN then
        ibind (eval_input eval g mid ''value'') (\<lambda>v. imod (\<lambda>s. s\<lparr>i_result := v, i_returned := True\<rparr>))
      else if k = ARC_NODE_IF then
        ibind (eval_input eval g mid ''cond'') (\<lambda>c. ibind (ilift (attr_branch (attr m))) (\<lambda>(then_region, else_region).
          if arc_val_is_truthy c then region_stmts then_region else region_stmts else_region))
      else if k = ARC_NODE_WHILE then
        limited ''loop iteration limit exceeded'' (while_step eval region_stmts g mid m)
      else if k = ARC_NODE_CYCLE then exec_cycle eval stmt g m
      else if k = ARC_NODE_ROOT_OUTPUT then
        ibind (eval_input eval g mid ''value'') (\<lambda>v. imod (\<lambda>s. s\<lparr>i_result := v\<rparr>))
      else iret ())"

fun stmts :: "(ArcNodeId \<Rightarrow> ArcNode \<Rightarrow> unit im) \<Rightarrow> ArcGraph \<Rightarrow> ArcNodeId list \<Rightarrow> unit im" where
  "stmts stmt g [] = iret ()"
| "stmts stmt g (m # ms) =
     ibind (iget (\<lambda>s. i_had_error s \<or> i_returned s)) (\<lambda>stop.
       if stop then iret ()
       else ibind (ilift (node_at g m)) (\<lambda>nd.
         if kind nd = ARC_NODE_PARAM \<or> is_interp_expr (kind nd) then stmts stmt g ms
         else ibind (stmt m nd) (\<lambda>_. stmts stmt g ms)))"

section \<open>The recursive functions\<close>

fun eval_node :: "nat \<Rightarrow> (f64 \<Rightarrow> string) \<Rightarrow> ArcGraph \<Rightarrow> ArcNodeId \<Rightarrow> ArcValue im"
  and exec_stmt :: "nat \<Rightarrow> (f64 \<Rightarrow> string) \<Rightarrow> ArcGraph \<Rightarrow> ArcNodeId \<Rightarrow> ArcNode \<Rightarrow> unit im"
  and exec_region_stmts :: "nat \<Rightarrow> (f64 \<Rightarrow> string) \<Rightarrow> ArcGraph \<Rightarrow> ArcRegionId \<Rightarrow> unit im" where
  "eval_node 0 fmt g n = ilift Undef"
| "eval_node (Suc depth) fmt g n =
     ibind (iget (\<lambda>s. i_had_error s \<or> i_returned s)) (\<lambda>stop.
       if stop then iret VAL_NULL
       else if length (nodes g) \<le> n then ierr_null (''invalid node '' @ dec_digits n)
       else eval_kind (eval_node depth fmt g) (exec_region_stmts depth fmt g) g n (nodes g ! n))"
| "exec_stmt 0 fmt g mid m = ilift Undef"
| "exec_stmt (Suc depth) fmt g mid m =
     stmt_kind fmt (eval_node depth fmt g) (exec_region_stmts depth fmt g) (exec_stmt depth fmt g) g mid m"
| "exec_region_stmts 0 fmt g r = ilift Undef"
| "exec_region_stmts (Suc depth) fmt g r =
     ibind (iget i_had_error) (\<lambda>err.
       if r = ARC_INVALID_ID \<or> err then iret ()
       else ibind (ilift (region_at g r)) (\<lambda>rg. stmts (exec_stmt depth fmt g) g (members rg)))"

section \<open>Running a program\<close>

record ArcInterpResult =
  ir_result :: ArcValue
  ir_error :: string
  ir_success :: bool
  ir_output :: string

definition root_stmt :: "nat \<Rightarrow> (f64 \<Rightarrow> string) \<Rightarrow> ArcGraph \<Rightarrow> ArcNodeId \<Rightarrow> ArcNode \<Rightarrow> unit im" where
  "root_stmt depth fmt g mid m =
     (if kind m = ARC_NODE_LET then
        ibind (eval_input (eval_node depth fmt g) g mid ''value'') (\<lambda>v. ibind (ilift (attr_name (attr m))) (\<lambda>x. set_var x v))
      else if kind m = ARC_NODE_ASSIGN then
        ibind (eval_input (eval_node depth fmt g) g mid ''value'') (\<lambda>v.
        ibind (ilift (attr_name (attr m))) (\<lambda>x. assign_var x (iret v)))
      else if kind m = ARC_NODE_PRINT then ibind (eval_input (eval_node depth fmt g) g mid ''value'') (print_line fmt)
      else exec_stmt depth fmt g mid m)"

fun root_stmts :: "nat \<Rightarrow> (f64 \<Rightarrow> string) \<Rightarrow> ArcGraph \<Rightarrow> ArcNodeId list \<Rightarrow> unit im" where
  "root_stmts depth fmt g [] = iret ()"
| "root_stmts depth fmt g (m # ms) =
     ibind (iget i_had_error) (\<lambda>err.
       if err then iret ()
       else ibind (ilift (node_at g m)) (\<lambda>nd.
         if kind nd = ARC_NODE_FUNC_DEF \<or> kind nd = ARC_NODE_ROOT_OUTPUT \<or> is_interp_expr (kind nd) then root_stmts depth fmt g ms
         else ibind (root_stmt depth fmt g m nd) (\<lambda>_. root_stmts depth fmt g ms)))"

definition interp_start :: Interp where
  "interp_start = \<lparr>i_vars = [], i_frames = [], i_result = VAL_NULL, i_error = [], i_had_error = False, i_returned = False, i_output = []\<rparr>"

definition arc_interpret :: "nat \<Rightarrow> (f64 \<Rightarrow> string) \<Rightarrow> ArcGraph \<Rightarrow> ArcInterpResult outcome" where
  "arc_interpret depth fmt g =
     andthen (region_at g (root_region g)) (\<lambda>root.
     andthen (root_stmts depth fmt g (members root) interp_start) (\<lambda>(_, s).
     andthen (if output_node g \<noteq> ARC_INVALID_ID \<and> \<not> i_had_error s
              then andthen (eval_node depth fmt g (output_node g) s) (\<lambda>(v, s). Ret (s\<lparr>i_result := v\<rparr>)) else Ret s) (\<lambda>s.
     Ret \<lparr>ir_result = i_result s, ir_error = (if i_had_error s then i_error s else []), ir_success = (\<not> i_had_error s),
          ir_output = i_output s\<rparr>)))"

section \<open>What evaluation leaves alone\<close>

text \<open>What composes for the calls of the interpreter.\<close>

locale kept_interp = kept inv R for inv :: "Interp \<Rightarrow> bool" and R :: "Interp \<Rightarrow> Interp \<Rightarrow> bool"
begin

lemma keeps_source:
  assumes "\<And>n. keeps (eval n)"
  shows "keeps (eval_source eval g p)"
  unfolding eval_source_def by (intro keeps_rules assms)

lemma keeps_input:
  assumes "\<And>n. keeps (eval n)"
  shows "keeps (eval_input eval g n rl)"
  unfolding eval_input_def by (intro keeps_rules keeps_source assms)

lemma keeps_ports:
  assumes "\<And>n. keeps (eval n)"
  shows "keeps (eval_ports eval g k ps)"
proof (induction ps arbitrary: k)
  case Nil
  show ?case by (cases k) (simp_all add: keeps_ret)
next
  case (Cons p ps)
  show ?case by (cases k; simp only: eval_ports.simps; intro keeps_rules keeps_source assms Cons.IH)
qed

lemma keeps_limit:
  assumes "keeps step"
  shows "keeps (limit_loop step m)"
  by (induction m) (simp_all only: limit_loop.simps, (intro keeps_rules assms; assumption)+)

lemma keeps_stmts:
  assumes "\<And>m nd. keeps (stmt m nd)"
  shows "keeps (stmts stmt g ms)"
  by (induction ms) (simp_all only: stmts.simps, (intro keeps_rules assms; assumption)+)

lemma keeps_cycle_members:
  assumes "\<And>n. keeps (eval n)" "\<And>m nd. keeps (stmt m nd)"
  shows "keeps (cycle_members eval stmt g ms)"
  by (induction ms) (simp_all only: cycle_members.simps, (intro keeps_rules keeps_input assms; assumption)+)

end

text \<open>The state fits the arrays, and the current frame starts within the variables.\<close>

definition interp_inv :: "Interp \<Rightarrow> bool" where
  "interp_inv s \<longleftrightarrow> length (i_vars s) \<le> ARC_INTERP_VARS_MAX \<and> length (i_frames s) \<le> ARC_INTERP_FRAMES_MAX \<and>
     frame_base (i_frames s) \<le> length (i_vars s)"

text \<open>An expression changes neither variables nor frames; a statement leaves the variables of the callers alone.\<close>

definition same_vars :: "Interp \<Rightarrow> Interp \<Rightarrow> bool" where
  "same_vars s s' \<longleftrightarrow> i_vars s' = i_vars s \<and> i_frames s' = i_frames s \<and> (\<not> i_returned s \<longrightarrow> \<not> i_returned s')"

definition own_frame :: "Interp \<Rightarrow> Interp \<Rightarrow> bool" where
  "own_frame s s' \<longleftrightarrow> i_frames s' = i_frames s \<and> length (i_vars s) \<le> length (i_vars s') \<and>
     take (frame_base (i_frames s)) (i_vars s') = take (frame_base (i_frames s)) (i_vars s)"

interpretation expr: kept_interp interp_inv same_vars
  by unfold_locales (auto simp: same_vars_def)

interpretation stmt: kept_interp interp_inv own_frame
  by unfold_locales (auto simp: own_frame_def)

lemma same_vars_own_frame: "same_vars s s' \<Longrightarrow> own_frame s s'"
  by (simp add: same_vars_def own_frame_def)

lemma expr_stmt: "expr.keeps m \<Longrightarrow> stmt.keeps m"
  unfolding expr.keeps_def stmt.keeps_def using same_vars_own_frame by blast

lemma ierr_keeps: "expr.keeps (ierr msg)" "expr.keeps (ierr_null msg)"
proof -
  show 1: "expr.keeps (ierr msg)" unfolding ierr_def by (rule expr.keeps_mod) (simp add: same_vars_def interp_inv_def)
  show "expr.keeps (ierr_null msg)" unfolding ierr_null_def by (intro expr.keeps_rules 1)
qed

lemma find_from_bounds: "find_from vs x base n = Ret (Some i) \<Longrightarrow> base \<le> i \<and> i < n"
  by (induction n) (auto simp: andthen_Ret split: if_splits)

lemma find_var_keeps: "expr.keeps (find_var x)"
  by (auto simp: expr.keeps_def find_var_def ilift_def andthen_Ret same_vars_def)

lemma put_var_own: "frame_base (i_frames s) \<le> i \<Longrightarrow> interp_inv s \<Longrightarrow> put_var i v s = Ret (x, s') \<Longrightarrow> own_frame s s' \<and> interp_inv s'"
  by (auto simp: put_var_def imod_def own_frame_def interp_inv_def)

lemma set_var_keeps: "stmt.keeps (set_var x v)"
  unfolding stmt.keeps_def
proof (intro allI impI)
  fix s r s' assume inv: "interp_inv s" and run: "set_var x v s = Ret (r, s')"
  from run obtain idx where f: "find_from (i_vars s) x (frame_base (i_frames s)) (length (i_vars s)) = Ret idx"
    and k: "(case idx of Some i \<Rightarrow> put_var i v
      | None \<Rightarrow> ibind (iget (length \<circ> i_vars)) (\<lambda>n. if ARC_INTERP_VARS_MAX \<le> n then ierr ''too many variables''
          else imod (\<lambda>s. s\<lparr>i_vars := i_vars s @ [(x, v)]\<rparr>))) s = Ret (r, s')"
    by (auto simp: set_var_def ibind_def find_var_def ilift_def andthen_Ret)
  show "own_frame s s' \<and> interp_inv s'"
  proof (cases idx)
    case (Some i)
    then show ?thesis using find_from_bounds f k inv put_var_own by fastforce
  next
    case None
    then show ?thesis using k inv
      by (auto simp: ibind_def iget_def ierr_def imod_def own_frame_def interp_inv_def split: if_splits)
  qed
qed

lemma assign_var_keeps:
  assumes "expr.keeps ev"
  shows "stmt.keeps (assign_var x ev)"
  unfolding stmt.keeps_def
proof (intro allI impI)
  fix s r s' assume inv: "interp_inv s" and run: "assign_var x ev s = Ret (r, s')"
  from run obtain idx where f: "find_from (i_vars s) x (frame_base (i_frames s)) (length (i_vars s)) = Ret idx"
    and k: "(case idx of None \<Rightarrow> (case x of None \<Rightarrow> ilift Undef | Some name \<Rightarrow> ierr (''undefined variable '' @ [CHR 0x27] @ name @ [CHR 0x27]))
      | Some i \<Rightarrow> ibind ev (put_var i)) s = Ret (r, s')"
    by (auto simp: assign_var_def ibind_def find_var_def ilift_def andthen_Ret)
  show "own_frame s s' \<and> interp_inv s'"
  proof (cases idx)
    case (Some i)
    from k Some obtain v s1 where 1: "ev s = Ret (v, s1)" "put_var i v s1 = Ret (r, s')" by (auto simp: ibind_def andthen_Ret)
    have s1: "same_vars s s1" "interp_inv s1" using expr.keepsD [OF assms inv 1(1)] by auto
    have "frame_base (i_frames s1) \<le> i" using find_from_bounds f Some s1(1) by (auto simp: same_vars_def)
    then show ?thesis using put_var_own [OF _ s1(2) 1(2)] same_vars_own_frame [OF s1(1)] stmt.trans by blast
  next
    case None
    then show ?thesis using k inv expr.keepsD [OF ierr_keeps(1)] same_vars_own_frame
      by (cases x) (auto simp: ilift_def)
  qed
qed

lemma bind_params_keeps: "stmt.keeps (bind_params g ms args)"
proof (induction ms arbitrary: args)
  case (Cons m ms)
  show ?case
    by (cases args; simp only: bind_params.simps; intro stmt.keeps_rules set_var_keeps Cons.IH)
qed (simp add: stmt.keeps_ret)

lemma values_keep: "expr.keeps (arith_value k a b)" "expr.keeps (comparison_value k a b)" "expr.keeps (neg_value a)"
  unfolding arith_value_def comparison_value_def neg_value_def ii64_def
  by (cases a; cases b; simp; intro expr.keeps_rules ierr_keeps conjI impI)+

lemma get_var_keeps: "expr.keeps (get_var x)"
  unfolding get_var_def by (rule expr.keeps_bind [OF find_var_keeps]) (auto split: option.split intro: expr.keeps_rules ierr_keeps)

lemma binary_keeps:
  assumes "\<And>n. expr.keeps (eval n)"
  shows "expr.keeps (eval_binary_lhs_rhs eval g n)"
  unfolding eval_binary_lhs_rhs_def
  by (intro expr.keeps_rules expr.keeps_ports expr.keeps_input assms)
    (auto split: list.split intro: expr.keeps_rules)

text \<open>A call pushes a frame, lets the body work on it and pops it.\<close>

lemma in_frame_keeps:
  assumes "stmt.keeps body"
  shows "expr.keeps (in_frame body)"
  unfolding expr.keeps_def
proof (intro allI impI)
  fix s x s' assume inv: "interp_inv s" and run: "in_frame body s = Ret (x, s')"
  show "same_vars s s' \<and> interp_inv s'"
  proof (cases "ARC_INTERP_FRAMES_MAX \<le> length (i_frames s)")
    case True
    then show ?thesis using run expr.keepsD [OF ierr_keeps(2) inv] by (auto simp: in_frame_def ibind_def iget_def)
  next
    case False
    let ?s = "s\<lparr>i_frames := i_frames s @ [length (i_vars s)]\<rparr>"
    from run False obtain s1 where 1: "body ?s = Ret ((), s1)" and s': "s' = pop_frame s1"
      by (auto simp: in_frame_def ibind_def iget_def imod_def iret_def andthen_Ret)
    have "interp_inv ?s" using inv False by (simp add: interp_inv_def frame_base_def)
    from stmt.keepsD [OF assms this 1] have "i_frames s1 = i_frames s @ [length (i_vars s)]" "take (length (i_vars s)) (i_vars s1) = i_vars s"
      by (auto simp: own_frame_def frame_base_def)
    then show ?thesis using s' inv by (simp add: same_vars_def pop_frame_def interp_inv_def)
  qed
qed

lemma call_keeps:
  assumes ev: "\<And>n. expr.keeps (eval n)" and rg: "\<And>r. stmt.keeps (region_stmts r)"
  shows "expr.keeps (eval_func_call eval region_stmts g nd)"
proof -
  have ret: "stmt.keeps (imod (\<lambda>s. s\<lparr>i_returned := False\<rparr>))"
    by (rule stmt.keeps_mod) (simp add: own_frame_def interp_inv_def)
  show ?thesis unfolding eval_func_call_def
    by (intro expr.keeps_rules) (auto split: option.split prod.split
        intro!: expr.keeps_rules ierr_keeps expr.keeps_ports ev in_frame_keeps stmt.keeps_rules bind_params_keeps ret rg)
qed

lemma eval_kind_keeps:
  assumes "\<And>n. expr.keeps (eval n)" "\<And>r. stmt.keeps (region_stmts r)"
  shows "expr.keeps (eval_kind eval region_stmts g n nd)"
  unfolding eval_kind_def Let_def eval_arith_def eval_comparison_def
  by (intro expr.keeps_rules expr.keeps_input call_keeps get_var_keeps values_keep ierr_keeps assms binary_keeps)
    (auto intro: values_keep)

lemma limited_keeps: "stmt.keeps step \<Longrightarrow> stmt.keeps (limited msg step)"
  unfolding limited_def by (intro stmt.keeps_rules stmt.keeps_limit expr_stmt [OF ierr_keeps(1)])

lemma own_mod: "(\<And>s. i_frames (f s) = i_frames s \<and> i_vars (f s) = i_vars s) \<Longrightarrow> stmt.keeps (imod f)"
  by (rule stmt.keeps_mod) (simp add: own_frame_def interp_inv_def)

lemma stmt_kind_keeps:
  assumes ev: "\<And>n. expr.keeps (eval n)" and rg: "\<And>r. stmt.keeps (region_stmts r)" and st: "\<And>m nd. stmt.keeps (stmt m nd)"
  shows "stmt.keeps (stmt_kind fmt eval region_stmts stmt g mid m)"
proof -
  have ev': "stmt.keeps (eval n)" for n by (rule expr_stmt [OF ev])
  show ?thesis
    unfolding stmt_kind_def Let_def exec_cycle_def while_step_def print_line_def
    by (intro stmt.keeps_rules stmt.keeps_input limited_keeps stmt.keeps_cycle_members assign_var_keeps expr.keeps_input
        set_var_keeps rg st ev ev' own_mod; simp split: prod.split; intro allI impI conjI stmt.keeps_rules rg)
qed

text \<open>All three functions, at every depth.\<close>

lemma interp_keeps:
  "expr.keeps (eval_node depth fmt g n)" "stmt.keeps (exec_stmt depth fmt g mid m)" "stmt.keeps (exec_region_stmts depth fmt g r)"
proof -
  have "(\<forall>n. expr.keeps (eval_node depth fmt g n)) \<and> (\<forall>mid m. stmt.keeps (exec_stmt depth fmt g mid m)) \<and>
      (\<forall>r. stmt.keeps (exec_region_stmts depth fmt g r))"
  proof (induction depth)
    case 0
    show ?case by (simp add: expr.keeps_lift stmt.keeps_lift)
  next
    case (Suc depth)
    then have IH: "\<And>n. expr.keeps (eval_node depth fmt g n)" "\<And>mid m. stmt.keeps (exec_stmt depth fmt g mid m)"
      "\<And>r. stmt.keeps (exec_region_stmts depth fmt g r)" by auto
    have "expr.keeps (eval_node (Suc depth) fmt g n)" for n
      unfolding eval_node.simps by (intro expr.keeps_rules ierr_keeps eval_kind_keeps IH)
    moreover have "stmt.keeps (exec_stmt (Suc depth) fmt g mid m)" for mid m
      unfolding exec_stmt.simps by (intro stmt_kind_keeps IH)
    moreover have "stmt.keeps (exec_region_stmts (Suc depth) fmt g r)" for r
      unfolding exec_region_stmts.simps by (intro stmt.keeps_rules stmt.keeps_stmts IH)
    ultimately show ?case by blast
  qed
  then show "expr.keeps (eval_node depth fmt g n)" "stmt.keeps (exec_stmt depth fmt g mid m)" "stmt.keeps (exec_region_stmts depth fmt g r)"
    by blast+
qed


text \<open>A function with a local variable \<^verbatim>\<open>x\<close>, called where \<^verbatim>\<open>x\<close> is something else.\<close>

definition shadow_graph :: ArcGraph where
  "shadow_graph = \<lparr>
     nodes = map (\<lambda>(i, k, r, ps, a). \<lparr>node_id = i, kind = k, region = r, source_id = 0, node_ports = ps, cyclic_order = [], attr = a\<rparr>)
       [(0, ARC_NODE_FUNC_DEF, 0, [], AttrFunc ''f'' 1 0), (1, ARC_NODE_FUNC_CALL, 0, [], AttrName ''f''),
        (2, ARC_NODE_LET, 1, [0], AttrName ''x''), (3, ARC_NODE_CONST_INT, 1, [1], AttrInt 2),
        (4, ARC_NODE_RETURN, 1, [2], AttrZero), (5, ARC_NODE_VAR_REF, 1, [3], AttrName ''x'')],
     ports = map (\<lambda>(i, ow, d, rl). \<lparr>port_id = i, owner = ow, dir = d, role = Some rl\<rparr>)
       [(0, 2, ARC_PORT_INPUT, ''value''), (1, 3, ARC_PORT_OUTPUT, ''out''), (2, 4, ARC_PORT_INPUT, ''value''), (3, 5, ARC_PORT_OUTPUT, ''out'')],
     edges = [\<lparr>edge_id = 0, from_port = 1, to_port = 0\<rparr>, \<lparr>edge_id = 1, from_port = 3, to_port = 2\<rparr>],
     regions = [\<lparr>region_id = 0, parent = ARC_INVALID_ID, region_kind = ARC_REGION_MODULE, members = [0, 1]\<rparr>,
                \<lparr>region_id = 1, parent = 0, region_kind = ARC_REGION_FUNCTION, members = [2, 3, 4, 5]\<rparr>],
     root_region = 0, output_node = 1, owns_strings = False\<rparr>"

lemmas interp_eval = ibind_def ilift_def iget_def imod_def iret_def eval_kind_def eval_func_call_def in_frame_def eval_input_def
  eval_source_def find_source_def find_port_by_role_dir_def get_var_def set_var_def find_var_def stmt_kind_def pop_frame_def frame_base_def
  c_streq_def node_at_def port_at_def region_at_def attr_simps is_interp_expr_def ARC_INVALID_ID_def ARC_INTERP_VARS_MAX_def
  ARC_INTERP_FRAMES_MAX_def

lemma eval_ports_Nil [simp]: "eval_ports eval g k [] = iret []"
  by (cases k) simp_all


section \<open>The iteration limit\<close>

text \<open>\<open>k\<close> rounds of a loop that all go on.\<close>

inductive goes :: "bool im \<Rightarrow> nat \<Rightarrow> Interp \<Rightarrow> Interp \<Rightarrow> bool" where
  goes_none: "goes step 0 s s"
| goes_round: "\<not> i_had_error s \<Longrightarrow> \<not> i_returned s \<Longrightarrow> step s = Ret (True, s1) \<Longrightarrow> goes step k s1 s' \<Longrightarrow> goes step (Suc k) s s'"

lemma limit_loop_goes: "goes step k s s' \<Longrightarrow> k \<le> m \<Longrightarrow> limit_loop step m s = limit_loop step (m - k) s'"
proof (induction arbitrary: m rule: goes.induct)
  case (goes_round s step s1 k s')
  then obtain m' where "m = Suc m'" by (cases m) auto
  then show ?case using goes_round by (simp add: ibind_def iget_def)
qed simp

text \<open>C31. The iteration limit of \<^verbatim>\<open>WHILE\<close> in the interpreter. A loop whose condition becomes false after fewer than
  99999 rounds just ends; a loop that still goes on after 100000 rounds is stopped with an error. A loop that
  ends by itself after exactly 99999 rounds is reported as an error, too, because the counter is tested after the
  decrement of its last, unsuccessful test.\<close>

theorem interp_while_limit:
  assumes "kind m = ARC_NODE_WHILE" "step = while_step (eval_node depth fmt g) (exec_region_stmts depth fmt g) g mid m"
  shows "(\<forall>k s' s''. goes step k s s' \<and> \<not> i_had_error s' \<and> \<not> i_returned s' \<and> step s' = Ret (False, s'') \<longrightarrow>
      (k < 99999 \<longrightarrow> exec_stmt (Suc depth) fmt g mid m s = Ret ((), s'')) \<and>
      (k = 99999 \<longrightarrow> exec_stmt (Suc depth) fmt g mid m s = ierr ''loop iteration limit exceeded'' s'')) \<and>
    (\<forall>s'. goes step 100000 s s' \<longrightarrow> exec_stmt (Suc depth) fmt g mid m s = ierr ''loop iteration limit exceeded'' s')"
proof -
  let ?limit = "ierr ''loop iteration limit exceeded''"
  have w: "exec_stmt (Suc depth) fmt g mid m s = limited ''loop iteration limit exceeded'' step s"
    using assms by (simp add: stmt_kind_def)
  have e: "exec_stmt (Suc depth) fmt g mid m s = (if k < 99999 then Ret ((), s'') else ?limit s'')"
    if h: "goes step k s s'" "k \<le> 99999" "\<not> i_had_error s'" "\<not> i_returned s'" "step s' = Ret (False, s'')" for k s' s''
  proof -
    obtain j where j: "100000 - k = Suc j" "j = 99999 - k" using h(2) by (cases "100000 - k") auto
    have "limit_loop step 100000 s = Ret (int j, s'')"
      using limit_loop_goes [OF h(1), of 100000] h(2-5) j(1) by (simp add: ibind_def iget_def iret_def)
    then show ?thesis using w j(2) h(2) by (auto simp: limited_def ibind_def iret_def)
  qed
  have "exec_stmt (Suc depth) fmt g mid m s = ?limit s'" if "goes step 100000 s s'" for s'
    using w limit_loop_goes [OF that, of 100000] by (simp add: limited_def ibind_def iret_def)
  then show ?thesis using e by auto
qed

theorem interp_while_limit_witness:
  "let m = \<lparr>node_id = 0, kind = ARC_NODE_WHILE, region = 0, source_id = 0, node_ports = [], cyclic_order = [], attr = AttrLoop 0\<rparr>;
       g = arc_graph_init\<lparr>nodes := [m]\<rparr>
   in exec_stmt (Suc 1) (\<lambda>_. []) g 0 m interp_start = Ret ((), interp_start)"
proof -
  let ?m = "\<lparr>node_id = 0, kind = ARC_NODE_WHILE, region = 0, source_id = 0, node_ports = [], cyclic_order = [], attr = AttrLoop 0\<rparr>"
  let ?g = "arc_graph_init\<lparr>nodes := [?m]\<rparr>"
  let ?step = "while_step (eval_node 1 (\<lambda>_. []) ?g) (exec_region_stmts 1 (\<lambda>_. []) ?g) ?g 0 ?m"
  have "?step interp_start = Ret (False, interp_start)" by (simp add: while_step_def interp_eval arc_graph_init_def)
  moreover have "\<not> i_had_error interp_start" "\<not> i_returned interp_start" by (simp_all add: interp_start_def)
  moreover have "goes ?step 0 interp_start interp_start" by (rule goes_none)
  ultimately show ?thesis using interp_while_limit [of ?m ?step 1 "\<lambda>_. []" ?g 0 interp_start] by (force simp: Let_def)
qed

end
