(* ===== verification/Interp_VM.thy ===== *)
theory Interp_VM
  imports VM_Run Interpreter
begin

text \<open>
  The reference interpreter against the virtual machine: for every binary operator the two compute the same, which is
  what the differential tests of the repository sample.
\<close>

section \<open>Results side by side\<close>

text \<open>What the machine does on the operand stack \<open>xs @ [a, b]\<close> matches what the interpreter makes of \<open>a\<close> and
  \<open>b\<close>: the same value on the stack of a well-formed machine and nothing else changed, a runtime error for an error, or both undefined.\<close>

definition matches :: "world \<Rightarrow> ArcVm \<Rightarrow> ArcValue list \<Rightarrow> (ArcValue \<times> Interp) outcome \<Rightarrow> unit vres \<Rightarrow> bool" where
  "matches w vm xs r run \<longleftrightarrow>
     (case r of
        Ret (v, s) \<Rightarrow>
          if i_had_error s then \<exists>w'. run = VErr ARC_ERR_RUNTIME w'
          else \<exists>vm'. run = VRet () (upd w vm') \<and> operands vm' = xs @ [v] \<and> same_but_stack vm vm' \<and> vm_wf vm'
      | Fail e \<Rightarrow> False
      | Undef \<Rightarrow> run = VUndef)"

definition binary_ops :: "(ArcNodeKind \<times> ArcOpcode) set" where
  "binary_ops = {(ARC_NODE_ADD, OP_ADD), (ARC_NODE_SUB, OP_SUB), (ARC_NODE_MUL, OP_MUL), (ARC_NODE_DIV, OP_DIV), (ARC_NODE_MOD, OP_MOD)}"

definition compare_ops :: "(ArcNodeKind \<times> ArcOpcode) set" where
  "compare_ops = {(ARC_NODE_EQ, OP_EQ), (ARC_NODE_NEQ, OP_NEQ), (ARC_NODE_LT, OP_LT), (ARC_NODE_LE, OP_LE), (ARC_NODE_GT, OP_GT),
     (ARC_NODE_GE, OP_GE)}"

definition scalar :: "ArcValue \<Rightarrow> bool" where
  "scalar v \<longleftrightarrow> (\<forall>a. v \<noteq> VAL_OBJ a)"

lemma push_after_pop2:
  assumes w: "now w = Some vm" "vm_wf vm" "operands vm = xs @ [a, b]"
  shows "\<exists>vm'. vm_push v (upd w (vm\<lparr>sp := sp vm - 2\<rparr>)) = VRet () (upd w vm') \<and> operands vm' = xs @ [v] \<and>
    same_but_stack vm vm' \<and> vm_wf vm'"
proof -
  let ?v = "vm\<lparr>sp := sp vm - 2\<rparr>" and ?u = "vm\<lparr>sp := sp vm - 1\<rparr>"
  have e: "operands vm = (xs @ [a]) @ [b]" using w(3) by simp
  note o1 = operands_snoc [OF w(2) e]
  have u: "vm_wf ?u" using o1 w(2) by (auto intro!: vm_wf_sp simp: vm_wf_def)
  note o2 = operands_snoc [OF u o1(5)]
  have v: "vm_wf ?v" using o1 o2 w(2) by (auto intro!: vm_wf_sp simp: vm_wf_def algebra_simps)
  have xs: "operands ?v = xs" "unat (sp ?v) < ARC_STACK_MAX" using o2 o1 by (simp_all add: algebra_simps)
  have "length (operands ?v) < ARC_STACK_MAX" using o1 xs(1) by simp
  from run_push_operands [OF v this] xs(1) show ?thesis
    using run_push [OF _ xs(2), of "upd w ?v"] w(1) vm_wf_push [OF v xs(2)]
    by (intro exI [of _ "?v\<lparr>stack := (stack ?v)[unat (sp ?v) := v], sp := sp ?v + 1\<rparr>"]) (simp add: same_but_stack_def)
qed

lemma matches_ret:
  assumes "now w = Some vm" "vm_wf vm" "operands vm = xs @ [a, b]" "\<not> i_had_error s"
  shows "matches w vm xs (iret v s) (vm_push v (upd w (vm\<lparr>sp := sp vm - 2\<rparr>)))"
  using push_after_pop2 [OF assms(1-3), of v] assms(4) by (simp add: matches_def iret_def)

lemma matches_err:
  assumes "now w = Some vm" "vm_wf vm" "operands vm = xs @ [a, b]"
  shows "matches w vm xs (ierr_null msg s) (vm_error msg' (upd w (vm\<lparr>sp := sp vm - 2\<rparr>)))"
  using run_error [of "upd w (vm\<lparr>sp := sp vm - 2\<rparr>)" "vm\<lparr>sp := sp vm - 2\<rparr>" msg'] assms
  by (auto simp: matches_def ierr_null_def ierr_def ibind_def imod_def iret_def vm_wf_def)

lemma matches_i64:
  assumes "now w = Some vm" "vm_wf vm" "operands vm = xs @ [a, b]" "\<not> i_had_error s"
  shows "matches w vm xs (ii64 r s) (push_i64 r (upd w (vm\<lparr>sp := sp vm - 2\<rparr>)))"
  using matches_ret [OF assms, of "VAL_I64 (of_int r)"]
  by (auto simp: ii64_def push_i64_def c_i64_def i64_result_def ibind_def ilift_def matches_def vbind_def vret_def vundef_def iret_def)

lemma matches_mod:
  assumes "now w = Some vm" "vm_wf vm" "operands vm = xs @ [a, b]" "\<not> i_had_error s"
  shows "matches w vm xs (ibind (ilift (c_i64 q)) (\<lambda>_. ii64 r) s)
    (vbind (i64_result q) (\<lambda>_. push_i64 r) (upd w (vm\<lparr>sp := sp vm - 2\<rparr>)))"
proof (cases "- (2 ^ 63) \<le> q \<and> q < 2 ^ 63")
  case True
  then show ?thesis using matches_i64 [OF assms, of r] by (simp add: c_i64_def i64_result_def ibind_def ilift_def vbind_def vret_def)
next
  case False
  then show ?thesis by (auto simp: c_i64_def i64_result_def ibind_def ilift_def vbind_def vundef_def matches_def)
qed

lemma run_heap: "vbind heap k w = k (gc w) w"
  by (simp add: vbind_def heap_def)

lemma as_string_scalar: "scalar v \<Longrightarrow> as_string g v = None"
  by (cases v) (simp_all add: scalar_def as_string_def as_obj_def)

lemma arith_matches:
  assumes "now w = Some vm" "vm_wf vm" "operands vm = xs @ [a, b]" "scalar a" "scalar b" "\<not> i_had_error s" "(k, op) \<in> binary_ops"
  shows "matches w vm xs (arith_value k a b s) (vm_exec_arithmetic op w)"
proof -
  note p = run_pop2 [OF assms(1-3)]
  note m = matches_ret [OF assms(1-3,6)] matches_err [OF assms(1-3)] matches_i64 [OF assms(1-3,6)]
  show ?thesis
    using assms(4,5,7) unfolding binary_ops_def
    by (elim insertE emptyE; cases a; cases b;
        simp add: vm_exec_arithmetic_def p arith_value_def vm_add_def arith2_def vm_div_def vm_mod_def run_heap as_string_scalar m scalar_def matches_mod [OF assms(1-3,6)])
qed

lemma comparison_matches:
  assumes "now w = Some vm" "vm_wf vm" "operands vm = xs @ [a, b]" "scalar a" "scalar b" "\<not> i_had_error s" "(k, op) \<in> compare_ops"
  shows "matches w vm xs (comparison_value k a b s) (vm_exec_comparison op w)"
proof -
  note p = run_pop2 [OF assms(1-3)]
  note m = matches_ret [OF assms(1-3,6)] matches_err [OF assms(1-3)] matches_i64 [OF assms(1-3,6)]
  show ?thesis
    using assms(4,5,7) unfolding compare_ops_def
    by (elim insertE emptyE; cases a; cases b;
        simp add: vm_exec_comparison_def p comparison_value_def order2_def run_heap m scalar_def)
qed

text \<open>C3. The interpreter agrees with the machine. For two values that are not objects, on a
  well-formed machine whose top operands they are, the operators \<^verbatim>\<open>+ - * / %\<close> and the six comparisons give the value the
  reference interpreter computes for the node of that kind; the machine reports a runtime error exactly if the
  interpreter does, and is undefined exactly if the interpreter is.\<close>

theorem interp_agrees_with_vm:
  assumes "now w = Some vm" "vm_wf vm" "operands vm = xs @ [a, b]" "scalar a" "scalar b" "\<not> i_had_error s"
  shows "(\<forall>(k, op) \<in> binary_ops. matches w vm xs (arith_value k a b s) (vm_exec_arithmetic op w)) \<and>
    (\<forall>(k, op) \<in> compare_ops. matches w vm xs (comparison_value k a b s) (vm_exec_comparison op w))"
  using arith_matches [OF assms] comparison_matches [OF assms] by blast

theorem interp_agrees_with_vm_witness:
  "let w = demo_world [VAL_NULL, VAL_I64 7, VAL_I64 2]; r = arith_value ARC_NODE_DIV (VAL_I64 7) (VAL_I64 2) interp_start in
   r = Ret (VAL_I64 3, interp_start) \<and> matches w (main_vm w) [VAL_NULL] r (vm_exec_arithmetic OP_DIV w)"
proof -
  let ?vs = "[VAL_NULL, VAL_I64 7, VAL_I64 2]"
  have l: "length ?vs \<le> ARC_STACK_MAX" by (simp add: arc_max_defs)
  have "arith_value ARC_NODE_DIV (VAL_I64 7) (VAL_I64 2) interp_start = Ret (VAL_I64 3, interp_start)"
    by (simp add: arith_value_def ii64_def c_i64_def ibind_def ilift_def iret_def signed_divide_int_def)
  then show ?thesis
    using interp_agrees_with_vm [of "demo_world ?vs" _ "[VAL_NULL]" "VAL_I64 7" "VAL_I64 2" interp_start, OF now_demo demo_wf [OF l]]
      demo_operands [OF l]
    by (simp add: Let_def scalar_def interp_start_def binary_ops_def)
qed

end
