(* ===== verification/Compile_Run.thy ===== *)
theory Compile_Run
  imports Compiler Interp_VM "HOL-Library.Sublist"
begin

text \<open>
  Running emitted code. First the machine: sequences of rounds, and what the instructions the compiler emits do
  to the operand stack. Then the compiler: what it has emitted so far only grows, and the image holds what is
  emitted between two states of the compiler.
\<close>

section \<open>Sequences of rounds\<close>

text \<open>From \<open>w\<close> the machine gets to \<open>w'\<close> in some number of rounds.\<close>

definition reaches :: "libc \<Rightarrow> ArcBytecodeImage \<Rightarrow> world \<Rightarrow> world \<Rightarrow> bool" where
  "reaches lc img w w' \<longleftrightarrow> (\<exists>k. \<forall>m. vm_loop lc img (k + m) w = vm_loop lc img m w')"

lemma reaches_refl: "reaches lc img w w"
  unfolding reaches_def by (rule exI [of _ 0]) simp

lemma reaches_trans:
  assumes "reaches lc img a b" "reaches lc img b c"
  shows "reaches lc img a c"
proof -
  obtain j k where j: "\<And>m. vm_loop lc img (j + m) a = vm_loop lc img m b" and k: "\<And>m. vm_loop lc img (k + m) b = vm_loop lc img m c"
    using assms by (auto simp: reaches_def)
  have "vm_loop lc img ((j + k) + m) a = vm_loop lc img m c" for m
    using j [of "k + m"] k [of m] by (simp add: add.assoc)
  then show ?thesis unfolding reaches_def by blast
qed

lemma reaches_step: "vm_step lc img w = Running w' \<Longrightarrow> reaches lc img w w'"
  unfolding reaches_def by (rule exI [of _ 1]) simp

text \<open>A machine that executes without tracing.\<close>

definition runs :: "ArcVm \<Rightarrow> bool" where
  "runs vm \<longleftrightarrow> vm_wf vm \<and> \<not> halted vm \<and> \<not> trace vm"

lemma reaches_instr:
  assumes "now w = Some vm" "runs vm" "unat (ip vm) < length (img_code img)" "img_code img ! unat (ip vm) = op_byte op"
    "vm_dispatch lc img (op_byte op) (ip vm) (upd w (vm\<lparr>ip := ip vm + 1\<rparr>)) = VRet () w'"
  shows "reaches lc img w w'"
  using assms run_round [OF assms(1), of img lc] by (intro reaches_step run_step [OF assms(1)]) (auto simp: runs_def)

section \<open>Code in the image\<close>

text \<open>The image holds the bytes at a position.\<close>

definition code_at :: "ArcBytecodeImage \<Rightarrow> nat \<Rightarrow> u8 list \<Rightarrow> bool" where
  "code_at img n bs \<longleftrightarrow> length (img_code img) < 2 ^ 31 \<and> n + length bs \<le> length (img_code img) \<and> take (length bs) (drop n (img_code img)) = bs"

lemma code_at_append: "code_at img n (as @ bs) \<longleftrightarrow> code_at img n as \<and> code_at img (n + length as) bs"
proof -
  have "take (length (as @ bs)) (drop n (img_code img)) = as @ bs \<longleftrightarrow>
      take (length as) (drop n (img_code img)) = as \<and> take (length bs) (drop (n + length as) (img_code img)) = bs"
    if "n + length as \<le> length (img_code img)"
    using that by (simp add: take_add drop_drop add.commute)
  then show ?thesis by (auto simp: code_at_def)
qed

lemma code_at_Cons: "code_at img n (b # bs) \<longleftrightarrow> code_at img n [b] \<and> code_at img (Suc n) bs"
  using code_at_append [of img n "[b]" bs] by simp

lemma code_at_nth:
  assumes "code_at img n bs" "i < length bs"
  shows "img_code img ! (n + i) = bs ! i"
proof -
  have "take (length bs) (drop n (img_code img)) ! i = bs ! i" using assms(1) by (simp add: code_at_def)
  then show ?thesis using assms by (simp add: code_at_def)
qed

lemma code_at_hd:
  assumes "code_at img n [b]"
  shows "img_code img ! n = b" "n < length (img_code img)" "unat (of_nat n :: u32) = n"
  using assms code_at_nth [OF assms, of 0] by (auto simp: code_at_def unsigned_of_nat take_bit_nat_eq_self)

lemma code_at_u16:
  assumes "code_at img n (le_u16 v)"
  shows "arc_read_u16 (img_code img) n = v" "n + 2 \<le> length (img_code img)" "unat (of_nat n :: u32) = n"
proof -
  show "n + 2 \<le> length (img_code img)" "unat (of_nat n :: u32) = n"
    using assms by (auto simp: code_at_def unsigned_of_nat take_bit_nat_eq_self)
  have "img_code img ! n = le_u16 v ! 0" "img_code img ! Suc n = le_u16 v ! 1"
    using code_at_nth [OF assms, of 0] code_at_nth [OF assms, of 1] by simp_all
  then show "arc_read_u16 (img_code img) n = v" using read_u16_le [of v "[]"] by (simp add: arc_read_u16_def)
qed

lemma code_at_u32:
  assumes "code_at img n (le_u32 v)"
  shows "arc_read_i32 (img_code img) n = v" "n + 4 \<le> length (img_code img)" "unat (of_nat n :: u32) = n"
proof -
  have l: "length (le_u32 v) = 4" by (simp add: le_u32_def)
  show "n + 4 \<le> length (img_code img)" "unat (of_nat n :: u32) = n"
    using assms l by (auto simp: code_at_def unsigned_of_nat take_bit_nat_eq_self)
  have "img_code img ! n = le_u32 v ! 0" "img_code img ! (n + 1) = le_u32 v ! 1"
    "img_code img ! (n + 2) = le_u32 v ! Suc (Suc 0)" "img_code img ! (n + 3) = le_u32 v ! 3"
    using code_at_nth [OF assms, of 0] code_at_nth [OF assms, of 1] code_at_nth [OF assms, of 2] code_at_nth [OF assms, of 3] l
    by (simp_all add: numeral_2_eq_2)
  then show "arc_read_i32 (img_code img) n = v" using read_i32_le [of v "[]"] by (simp add: arc_read_i32_def)
qed

section \<open>Instructions\<close>

text \<open>The machine has moved to position \<open>n\<close> and changed its operand stack at most.\<close>

definition moved :: "ArcVm \<Rightarrow> nat \<Rightarrow> ArcVm \<Rightarrow> bool" where
  "moved vm n vm' \<longleftrightarrow> same_but_stack (vm\<lparr>ip := of_nat n\<rparr>) vm' \<and> runs vm'"

lemma same_but_stack_flags: "same_but_stack vm vm' \<Longrightarrow> trace vm' = trace vm \<and> out_stream vm' = out_stream vm"
  unfolding same_but_stack_def by (cases vm, cases vm') simp

lemma same_but_stack_ip: "same_but_stack vm vm' \<Longrightarrow> same_but_stack (vm\<lparr>ip := i\<rparr>) (vm'\<lparr>ip := i\<rparr>)"
  unfolding same_but_stack_def by (cases vm, cases vm') simp

lemma moved_trans:
  assumes "moved a m b" "moved b n c"
  shows "moved a n c"
proof -
  have "same_but_stack (a\<lparr>ip := of_nat n\<rparr>) (b\<lparr>ip := of_nat n\<rparr>)"
    using same_but_stack_ip [of "a\<lparr>ip := of_nat m\<rparr>" b "of_nat n"] assms(1) by (simp add: moved_def)
  then show ?thesis using assms(2) same_but_stack_trans by (auto simp: moved_def)
qed

lemma movedD: "moved vm n vm' \<Longrightarrow> runs vm' \<and> ip vm' = of_nat n \<and> fp vm' = fp vm \<and> frames vm' = frames vm"
  using same_but_stackD [of "vm\<lparr>ip := of_nat n\<rparr>" vm'] by (simp add: moved_def)

lemma runs_ip [simp]: "runs (vm\<lparr>ip := i\<rparr>) = runs vm"
  by (simp add: runs_def vm_wf_def)

lemma operands_ip [simp]: "operands (vm\<lparr>ip := i\<rparr>) = operands vm"
  by (simp add: operands_def)

lemma movedI: "runs vm \<Longrightarrow> same_but_stack (vm\<lparr>ip := of_nat n\<rparr>) vm' \<Longrightarrow> vm_wf vm' \<Longrightarrow> moved vm n vm'"
  using same_but_stackD [of "vm\<lparr>ip := of_nat n\<rparr>" vm'] same_but_stack_flags [of "vm\<lparr>ip := of_nat n\<rparr>" vm'] by (simp add: moved_def runs_def)

text \<open>The instruction at the machine's position, and the operand that follows its opcode.\<close>

lemma reaches_at:
  assumes "now w = Some vm" "runs vm" "ip vm = of_nat n" "code_at img n (op_byte op # bs)"
    "vm_dispatch lc img (op_byte op) (of_nat n) (upd w (vm\<lparr>ip := of_nat (Suc n)\<rparr>)) = VRet () w'"
  shows "reaches lc img w w'"
proof -
  have c: "code_at img n [op_byte op]" using assms(4) by (simp add: code_at_Cons [of img n _ bs])
  show ?thesis using code_at_hd [OF c] assms by (intro reaches_instr [OF assms(1,2)]) (simp_all add: add.commute)
qed

lemma run_read_u16:
  assumes "now w = Some vm" "ip vm = of_nat n" "code_at img n (le_u16 v)"
  shows "vbind (vm_read_u16 img) k w = k v (upd w (vm\<lparr>ip := of_nat (n + 2)\<rparr>))"
  using code_at_u16 [OF assms(3)] assms(1,2)
  by (simp add: vm_read_u16_def vbind_def run_cur run_setcur vguard_def vret_def add.commute)

lemma run_read_i32:
  assumes "now w = Some vm" "ip vm = of_nat n" "code_at img n (le_u32 v)"
  shows "vbind (vm_read_i32 img) k w = k v (upd w (vm\<lparr>ip := of_nat (n + 4)\<rparr>))"
  using code_at_u32 [OF assms(3)] assms(1,2)
  by (simp add: vm_read_i32_def vbind_def run_cur run_setcur vguard_def vret_def add.commute)

text \<open>The value of a constant that is not a string.\<close>

fun const_value :: "ArcConstant \<Rightarrow> ArcValue option" where
  "const_value ARC_CONST_NULL = Some VAL_NULL"
| "const_value (ARC_CONST_BOOL b) = Some (VAL_BOOL b)"
| "const_value (ARC_CONST_I64 i) = Some (VAL_I64 i)"
| "const_value (ARC_CONST_F64 d) = Some (VAL_F64 d)"
| "const_value (ARC_CONST_STRING _) = None"

lemma run_const_value: "const_value k = Some v \<Longrightarrow> vbind (vm_const_to_val k) f w = f v w"
  by (cases k) (simp_all add: vm_const_to_val_def vbind_def vret_def)

text \<open>After the operand of an instruction is read, its handler pushes one value.\<close>

lemma push_moves:
  assumes "now w = Some vm" "runs vm" "length (operands vm) < ARC_STACK_MAX"
  shows "\<exists>vm'. vm_push v (upd w (vm\<lparr>ip := of_nat n\<rparr>)) = VRet () (upd w vm') \<and> moved vm n vm' \<and> operands vm' = operands vm @ [v]"
proof -
  let ?w = "upd w (vm\<lparr>ip := of_nat n\<rparr>)"
  have "now ?w = Some (vm\<lparr>ip := of_nat n\<rparr>)" "vm_wf (vm\<lparr>ip := of_nat n\<rparr>)" using assms(1,2) by (auto simp: runs_def vm_wf_def)
  from run_push_wf [OF this, of v] obtain vm' where "vm_push v ?w = VRet () (upd ?w vm')" "vm_wf vm'"
    "operands vm' = operands vm @ [v]" "same_but_stack (vm\<lparr>ip := of_nat n\<rparr>) vm'" using assms(3) by auto
  then show ?thesis using assms movedI [OF assms(2)] by (intro exI [of _ vm']) simp
qed

lemma run_const:
  assumes "now w = Some vm" "runs vm" "ip vm = of_nat n" "code_at img n (op_byte OP_CONST # le_u16 (of_nat i))"
    "i < length (items (img_constants img))" "i < 2 ^ 16" "const_value (items (img_constants img) ! i) = Some v"
    "length (operands vm) < ARC_STACK_MAX"
  shows "\<exists>vm'. reaches lc img w (upd w vm') \<and> moved vm (n + 3) vm' \<and> operands vm' = operands vm @ [v]"
proof -
  obtain vm' where vm': "vm_push v (upd w (vm\<lparr>ip := of_nat (n + 3)\<rparr>)) = VRet () (upd w vm')" "moved vm (n + 3) vm'"
    "operands vm' = operands vm @ [v]" using push_moves [OF assms(1,2,8)] by blast
  have c: "code_at img (Suc n) (le_u16 (of_nat i))" using assms(4) code_at_Cons by blast
  have i: "unat (of_nat i :: u16) = i" using assms(6) by (simp add: unsigned_of_nat take_bit_nat_eq_self)
  note r = run_read_u16 [of "upd w (vm\<lparr>ip := of_nat (Suc n)\<rparr>)" "vm\<lparr>ip := of_nat (Suc n)\<rparr>", OF _ _ c]
  have "vm_dispatch lc img (op_byte OP_CONST) (of_nat n) (upd w (vm\<lparr>ip := of_nat (Suc n)\<rparr>)) = VRet () (upd w vm')"
    using vm'(1) assms(1,5,7)
    by (simp add: vm_dispatch_def vm_exec_stack_local_global_def r i run_const_value eval_nat_numeral del: op_byte.simps of_nat_Suc)
  from reaches_at [OF assms(1-4) this] vm'(2,3) show ?thesis by blast
qed

text \<open>The operand that holds a local variable of the innermost frame.\<close>

definition local_at :: "ArcVm \<Rightarrow> u16 \<Rightarrow> nat" where
  "local_at vm sl = unat (base_slot (frames vm ! unat (fp vm - 1)) + ucast sl)"

lemma run_top_frame:
  assumes "now w = Some vm" "vm_wf vm" "fp vm \<noteq> 0"
  shows "vbind top_frame k w = k (frames vm ! unat (fp vm - 1)) w"
proof -
  have "unat (fp vm - 1) < ARC_FRAMES_MAX" using assms(2,3) unat_gt_0 [of "fp vm"] unfolding vm_wf_def
    by (simp add: unat_minus_one) linarith
  then show ?thesis using assms(1) by (simp add: top_frame_def vbind_def run_cur vguard_def vret_def)
qed

lemma run_load:
  assumes "now w = Some vm" "runs vm" "ip vm = of_nat n" "code_at img n (op_byte OP_LOAD_LOCAL # le_u16 sl)"
    "fp vm \<noteq> 0" "local_at vm sl < length (operands vm)" "length (operands vm) < ARC_STACK_MAX"
  shows "\<exists>vm'. reaches lc img w (upd w vm') \<and> moved vm (n + 3) vm' \<and> operands vm' = operands vm @ [operands vm ! local_at vm sl]"
proof -
  let ?v = "operands vm ! local_at vm sl" and ?u = "vm\<lparr>ip := of_nat (n + 3)\<rparr>"
  obtain vm' where vm': "vm_push ?v (upd w ?u) = VRet () (upd w vm')" "moved vm (n + 3) vm'"
    "operands vm' = operands vm @ [?v]" using push_moves [OF assms(1,2,7)] by blast
  have c: "code_at img (Suc n) (le_u16 sl)" using assms(4) code_at_Cons by blast
  note r = run_read_u16 [of "upd w (vm\<lparr>ip := of_nat (Suc n)\<rparr>)" "vm\<lparr>ip := of_nat (Suc n)\<rparr>", OF _ _ c]
  have wf: "vm_wf ?u" using assms(2) by (simp add: runs_def vm_wf_def)
  have n3: "n + 3 = Suc (Suc (Suc n))" by simp
  have t: "vbind top_frame k (upd w ?u) = k (frames vm ! unat (fp vm - 1)) (upd w ?u)" for k
    using run_top_frame [of "upd w ?u" ?u k] assms(1,5) wf by simp
  have "stack vm ! local_at vm sl = ?v" using assms(6) by (simp add: operands_def)
  then have s: "vbind (stack_at (base_slot (frames vm ! unat (fp vm - 1)) + ucast sl)) vm_push (upd w ?u) = VRet () (upd w vm')"
    using assms(1,6,7) vm'(1) by (simp add: stack_at_def vbind_def run_cur vguard_def vret_def local_at_def)
  have "vm_dispatch lc img (op_byte OP_LOAD_LOCAL) (of_nat n) (upd w (vm\<lparr>ip := of_nat (Suc n)\<rparr>)) = VRet () (upd w vm')"
    using assms(1) s
    by (simp add: vm_dispatch_def vm_exec_stack_local_global_def r t [unfolded n3] n3 del: op_byte.simps of_nat_Suc)
  from reaches_at [OF assms(1-4) this] vm'(2,3) show ?thesis by blast
qed

text \<open>The operators take the value the interpreter computes.\<close>

lemma matches_moves:
  assumes w: "now w = Some vm" "runs vm"
    and m: "matches (upd w (vm\<lparr>ip := of_nat n\<rparr>)) (vm\<lparr>ip := of_nat n\<rparr>) xs (Ret (v, s)) run" "\<not> i_had_error s"
  shows "\<exists>vm'. run = VRet () (upd w vm') \<and> moved vm n vm' \<and> operands vm' = xs @ [v]"
  using m w(1) movedI [OF w(2)] by (auto simp: matches_def)

lemma run_binary:
  assumes w: "now w = Some vm" "runs vm" "ip vm = of_nat n" "code_at img n [op_byte op]" "operands vm = xs @ [a, b]" "scalar a" "scalar b"
    and r: "(k, op) \<in> binary_ops \<and> arith_value k a b s = Ret (v, s') \<or> (k, op) \<in> compare_ops \<and> comparison_value k a b s = Ret (v, s')"
      "\<not> i_had_error s" "\<not> i_had_error s'"
  shows "\<exists>vm'. reaches lc img w (upd w vm') \<and> moved vm (Suc n) vm' \<and> operands vm' = xs @ [v]"
proof -
  let ?u = "vm\<lparr>ip := of_nat (Suc n)\<rparr>"
  define run where "run = vm_dispatch lc img (op_byte op) (of_nat n) (upd w ?u)"
  have u: "now (upd w ?u) = Some ?u" "vm_wf ?u" "operands ?u = xs @ [a, b]"
    using w by (auto simp: runs_def vm_wf_def)
  have "matches (upd w ?u) ?u xs (Ret (v, s')) run"
    using r(1)
  proof
    assume k: "(k, op) \<in> binary_ops \<and> arith_value k a b s = Ret (v, s')"
    then have "run = vm_exec_arithmetic op (upd w ?u)"
      unfolding run_def by (auto simp: vm_dispatch_def binary_ops_def simp del: op_byte.simps of_nat_Suc)
    then show ?thesis using arith_matches [OF u w(6,7) r(2)] k by metis
  next
    assume k: "(k, op) \<in> compare_ops \<and> comparison_value k a b s = Ret (v, s')"
    then have "run = vm_exec_comparison op (upd w ?u)"
      unfolding run_def by (auto simp: vm_dispatch_def compare_ops_def simp del: op_byte.simps of_nat_Suc)
    then show ?thesis using comparison_matches [OF u w(6,7) r(2)] k by metis
  qed
  from matches_moves [OF w(1,2) this r(3)] obtain vm' where "run = VRet () (upd w vm')" "moved vm (Suc n) vm'" "operands vm' = xs @ [v]" by blast
  then show ?thesis using reaches_at [OF w(1-4)] by (auto simp: run_def)
qed

lemma run_unary:
  assumes w: "now w = Some vm" "runs vm" "ip vm = of_nat n" "code_at img n [op_byte op]" "operands vm = xs @ [a]"
    and r: "op = OP_NEG \<and> neg_value a s = Ret (v, s') \<or> op = OP_NOT \<and> v = VAL_BOOL (\<not> arc_val_is_truthy a)"
      "\<not> i_had_error s'"
  shows "\<exists>vm'. reaches lc img w (upd w vm') \<and> moved vm (Suc n) vm' \<and> operands vm' = xs @ [v]"
proof -
  let ?u = "vm\<lparr>ip := of_nat (Suc n)\<rparr>" and ?t = "vm\<lparr>ip := of_nat (Suc n), sp := sp vm - 1\<rparr>"
  have u: "now (upd w ?u) = Some ?u" "vm_wf ?u" "operands ?u = xs @ [a]" using w by (auto simp: runs_def vm_wf_def)
  have p: "vm_pop (upd w ?u) = VRet a (upd w ?t)"
    using run_pop_snoc [OF u] w(1) by simp
  have t: "vm_wf ?t" "operands ?t = xs" "now (upd w ?t) = Some ?t" "length xs < ARC_STACK_MAX"
    using operands_snoc [OF u(2,3)] u w(1) by (auto simp: vm_wf_def)
  from run_push_wf [OF t(3,1), of v] t obtain vm' where vm': "vm_push v (upd w ?t) = VRet () (upd w vm')" "vm_wf vm'"
    "operands vm' = xs @ [v]" "same_but_stack ?t vm'" using w(1) by auto
  have "same_but_stack ?u ?t" by (simp add: same_but_stack_def)
  then have mv: "moved vm (Suc n) vm'" using movedI [OF w(2)] vm' same_but_stack_trans by blast
  have "vm_dispatch lc img (op_byte op) (of_nat n) (upd w ?u) = VRet () (upd w vm')"
    using r(1)
  proof
    assume k: "op = OP_NEG \<and> neg_value a s = Ret (v, s')"
    then have "vm_neg a (upd w ?t) = vm_push v (upd w ?t)"
      using r(2) by (cases a) (auto simp: neg_value_def vm_neg_def ii64_def c_i64_def push_i64_def i64_result_def vbind_def vret_def
          ibind_def ilift_def iret_def ierr_null_def ierr_def imod_def split: if_splits)
    then show ?thesis using k vm'(1) by (simp add: vm_dispatch_def vm_exec_arithmetic_def vbind_def p del: op_byte.simps of_nat_Suc)
  next
    assume "op = OP_NOT \<and> v = VAL_BOOL (\<not> arc_val_is_truthy a)"
    then show ?thesis using vm'(1) by (simp add: vm_dispatch_def vm_exec_comparison_def vbind_def p del: op_byte.simps of_nat_Suc)
  qed
  from reaches_at [OF w(1-4) this] mv vm'(3) show ?thesis by blast
qed

end
