(* ===== verification/Compile_Inv.thy ===== *)
theory Compile_Inv
  imports Compiler "HOL-Library.Sublist"
begin

text \<open>
  What every function of the compiler keeps: the fixed arrays of the compiler stay within their bounds, errors
  are only added, and \<^verbatim>\<open>had_error\<close> says whether there are any.
\<close>

definition arrays_ok :: "Compiler \<Rightarrow> bool" where
  "arrays_ok c \<longleftrightarrow> (c_had_error c \<longleftrightarrow> c_errors c \<noteq> []) \<and> length (c_locals c) \<le> 256 \<and> length (c_enclosing c) \<le> 256 \<and>
     length (c_upvals c) = 64 \<and> c_upval_count c \<le> 64"

definition more_errors :: "Compiler \<Rightarrow> Compiler \<Rightarrow> bool" where
  "more_errors c c' \<longleftrightarrow> prefix (c_errors c) (c_errors c')"

interpretation ck: kept arrays_ok more_errors
  by unfold_locales (auto simp: more_errors_def intro: prefix_order.trans)

section \<open>Primitives\<close>

lemma ck_mod: "(\<And>c. arrays_ok (f c) = arrays_ok c) \<Longrightarrow> (\<And>c. c_errors (f c) = c_errors c) \<Longrightarrow> ck.keeps (imod f)"
  by (rule ck.keeps_mod) (simp add: more_errors_def)

lemma ck_emit:
  "ck.keeps (emit_byte b)" "ck.keeps (emit_u16 v)" "ck.keeps (emit_i32 i)"
  unfolding emit_byte_def emit_u16_def emit_i32_def by (rule ck_mod; simp add: arrays_ok_def)+

lemma ck_cerr: "ck.keeps (cerr msg)"
  unfolding cerr_def by (rule ck.keeps_mod) (simp add: more_errors_def arrays_ok_def)

lemma ck_depth: "ck.keeps (imod (\<lambda>c. set_depth (f c) c))" "ck.keeps (track_stack a b)"
  unfolding track_stack_def by (rule ck_mod; simp add: arrays_ok_def set_depth_def)+

lemma ck_patch: "ck.keeps (patch_jump pp)"
  unfolding patch_jump_def Let_def
  by (intro ck.keeps_rules ck_mod) (simp_all add: arrays_ok_def)

lemma ck_pool: "ck.keeps (pool_const add)"
  by (auto simp: ck.keeps_def pool_const_def andthen_Ret arrays_ok_def more_errors_def)

lemma ck_func: "ck.keeps (add_function r)" "ck.keeps (add_debug nd ds)"
  by (auto simp: ck.keeps_def add_function_def add_debug_def andthen_Ret arrays_ok_def more_errors_def split: if_splits)

lemma ck_find: "ck.keeps (find_local x)"
  by (auto simp: ck.keeps_def find_local_def ilift_def andthen_Ret more_errors_def)

lemma ck_add_local: "ck.keeps (add_local x)"
  by (auto simp: ck.keeps_def add_local_def ibind_Ret iget_def imod_def iret_def ilift_def arrays_ok_def more_errors_def split: if_splits)

lemma ck_upvalue: "ck.keeps (find_upvalue x)"
  unfolding find_upvalue_def
  by (auto simp: ck.keeps_def ibind_Ret iget_def imod_def iret_def ilift_def andthen_Ret arrays_ok_def more_errors_def split: if_splits option.splits)

lemmas ck_prims = ck_emit ck_cerr ck_depth ck_patch ck_pool ck_func ck_find ck_add_local ck_upvalue
lemmas ck_rules = ck.keeps_bind ck.keeps_lift ck.keeps_if ck.keeps_ret ck.keeps_get ck.keeps_option ck.keeps_prod ck_prims

lemma ck_emit_op: "ck.keeps (emit_op op)"
  unfolding emit_op_def by (intro ck_rules)

lemma ck_emit_ops:
  "ck.keeps (emit_const i)" "ck.keeps (emit_jump op)" "ck.keeps (emit_u16_op op v a b)" "ck.keeps (emit_call op fi n)"
  "ck.keeps (emit_local op sl)" "ck.keeps (jump_back t)" "ck.keeps (name_const y)" "ck.keeps (find_function y)"
  unfolding emit_const_def emit_jump_def emit_u16_op_def emit_call_def emit_local_def jump_back_def name_const_def find_function_def
  by (intro ck_rules ck_emit_op)+

lemma ck_print: "ck.keeps emit_print"
  unfolding emit_print_def by (intro ck_rules ck_emit_ops ck_mod) (simp_all add: arrays_ok_def)

lemma ck_call: "ck.keeps (compile_call_to x msg op n)" "ck.keeps (compile_captured x wher op a b)"
  unfolding compile_call_to_def compile_captured_def by (intro ck_rules ck_emit_ops)+

lemmas ck_emits = ck_rules ck_emit_op ck_emit_ops ck_print ck_call

lemma ck_folds: "ck.keeps (try_fold_binary g l r k)" "ck.keeps (try_fold_unary g l k)"
  unfolding try_fold_binary_def try_fold_unary_def by (intro ck_emits)+

lemma ck_const: "ck.keeps (compile_const nd)" "ck.keeps (compile_var_ref nd)"
  unfolding compile_const_def compile_var_ref_def Let_def by (intro ck_emits)+

lemma ck_params: "ck.keeps (add_params g ms)"
  by (induction ms) (auto intro!: ck_emits)

section \<open>Functions that compile other nodes\<close>

locale compiles =
  fixes cn :: "ArcNodeId \<Rightarrow> unit cm" and g :: ArcGraph
  assumes cn: "ck.keeps (cn m)"
begin

lemma members: "ck.keeps (compile_members cn g ms)"
  by (induction ms) (auto intro!: ck_emits cn)

lemma region: "ck.keeps (compile_region_from cn g r k)"
  unfolding compile_region_from_def by (intro ck_emits members)

lemma if_source: "ck.keeps (compile_if_source cn m)"
  unfolding compile_if_source_def by (intro ck_emits cn)

lemma value_port: "ck.keeps (compile_value_port cn g n)" "ck.keeps (compile_cond cn g n)"
  unfolding compile_value_port_def compile_cond_def by (intro ck_emits if_source)+

lemma roles: "ck.keeps (compile_roles cn g n rls)"
  by (induction rls) (auto intro!: ck_emits if_source)

lemma ports: "ck.keeps (compile_ports cn g ps k)"
  by (induction ps arbitrary: k) (auto intro!: ck_emits cn split: option.splits)

lemma input_ports: "ck.keeps (compile_input_ports cn g nd)"
  unfolding compile_input_ports_def by (rule ports)

lemma operators: "ck.keeps (compile_binary cn g n op)" "ck.keeps (compile_unary cn g n op)" "ck.keeps (compile_shortcircuit cn g n b)"
  unfolding compile_binary_def compile_unary_def compile_shortcircuit_def by (intro ck_emits ck_folds cn)+

lemma collections: "ck.keeps (compile_collections cn g n nd)" "ck.keeps (compile_record_op cn g n nd)" "ck.keeps (compile_intrinsic_call cn g nd)"
  unfolding compile_collections_def compile_record_op_def compile_intrinsic_call_def compile_3input_def
  by (intro ck_emits input_ports roles value_port)+

lemma control: "ck.keeps (compile_try cn g nd)" "ck.keeps (compile_control cn g n nd)"
  unfolding compile_try_def compile_control_def compile_if_def compile_while_def compile_cycle_def
  by (intro ck_emits region value_port)+

lemma calls: "ck.keeps (compile_func_call cn g nd)" "ck.keeps (compile_concurrency cn g n nd)" "ck.keeps (compile_stmts cn g n nd)"
  unfolding compile_func_call_def compile_concurrency_def compile_stmts_def Let_def
  by (intro ck_emits ports input_ports value_port operators)+

lemma func: "ck.keeps (compile_function cn g fid)"
  unfolding compile_function_def
  by (intro ck_emits ck_params region ck_mod ck.keeps_mod) (simp_all add: arrays_ok_def more_errors_def set_function_def)

text \<open>A closure is compiled in a state made from the current one, which is restored afterwards.\<close>

lemma saved:
  assumes "\<And>c. arrays_ok c \<Longrightarrow> \<not> G c \<Longrightarrow> arrays_ok (f c) \<and> c_errors (f c) = c_errors c" "\<And>c. arrays_ok c \<Longrightarrow> ck.keeps (k c)"
  shows "ck.keeps (ibind (iget id) (\<lambda>c0. if G c0 then ilift Undef else ibind (imod f) (\<lambda>_. k c0)))"
proof -
  have "more_errors c c' \<and> arrays_ok c'" if "arrays_ok c" "\<not> G c" "k c (f c) = Ret (x, c')" for c x c'
    using ck.keepsD [OF assms(2) [OF that(1)] conjunct1 [OF assms(1) [OF that(1,2)]] that(3)] assms(1) [OF that(1,2)]
    by (simp add: more_errors_def)
  then show ?thesis by (auto simp: ck.keeps_def ibind_Ret iget_def imod_def ilift_def split: if_splits)
qed

lemma closure: "ck.keeps (compile_closure cn g n)"
  unfolding compile_closure_def
  by (intro ck.keeps_bind ck.keeps_lift ck.keeps_if ck_cerr saved func ck.keeps_get ck_emit_ops ck.keeps_mod)
    (auto simp: arrays_ok_def more_errors_def set_function_def)

lemma kinds: "ck.keeps (compile_kind cn g n nd)"
  unfolding compile_kind_def Let_def
  by (intro ck.keeps_option ck.keeps_if operators ck_const collections control closure calls ck.keeps_ret ck_cerr)

lemma root_members: "ck.keeps (compile_root_members cn g ms)"
  by (induction ms) (auto intro!: ck_emits cn)

lemma root_stmts: "ck.keeps (compile_root_stmts cn g)"
  unfolding compile_root_stmts_def by (intro ck_emits root_members cn)

end

lemma ck_node: "ck.keeps (compile_node d g n)"
proof (induction d arbitrary: n)
  case 0
  show ?case by (simp add: ck.keeps_lift)
next
  case (Suc d)
  then have "compiles (compile_node d g)" by unfold_locales
  from compiles.kinds [OF this] show ?case by (auto simp: Let_def intro!: ck_emits)
qed

interpretation node: compiles "compile_node d g" for d g
  by unfold_locales (rule ck_node)

section \<open>The whole program\<close>

lemma ck_each: "(\<And>i. ck.keeps (f i)) \<Longrightarrow> ck.keeps (each_function f g js)"
  by (induction js) (auto intro!: ck_emits)

lemma ck_patch_calls: "ck.keeps (patch_calls_for_main ms)"
  by (auto simp: ck.keeps_def patch_calls_for_main_def andthen_Ret arrays_ok_def more_errors_def)

lemma ck_main: "ck.keeps (install_main mr ms)" "ck.keeps (preregister g i)"
  unfolding install_main_def preregister_def
  by (intro ck_emits ck_patch_calls ck_mod; simp add: arrays_ok_def)+

lemma ck_program: "ck.keeps (compile_program d g)"
  unfolding compile_program_def
  by (intro ck_emits ck_each ck_main node.func node.root_stmts ck.keeps_mod) (simp_all add: arrays_ok_def more_errors_def)

lemma compiler_init_ok: "arrays_ok compiler_init"
  by (simp add: arrays_ok_def compiler_init_def)

section \<open>Any node\<close>


text \<open>An undefined variable is reported.\<close>

definition stray_var :: ArcGraph where
  "stray_var = arc_graph_init\<lparr>nodes :=
     [\<lparr>node_id = 0, kind = ARC_NODE_VAR_REF, region = 0, source_id = 0, node_ports = [], cyclic_order = [], attr = AttrName ''y''\<rparr>]\<rparr>"


end
