(* ===== verification/Compile_Expr.thy ===== *)
theory Compile_Expr
  imports Compile_Run Compile_Inv
begin

text \<open>
  Compiled expressions. The fragment: constants other than doubles and strings, variables, the operators
  \<^verbatim>\<open>+ - * / %\<close>, the six comparisons, negation and logical not; this is what the reference interpreter evaluates,
  less calls and doubles (the constant pool merges the two zeros). For it the code that the compiler emits,
  folded or not, leaves on the operand stack of the machine the value the interpreter computes.
\<close>

section \<open>What the compiler has emitted\<close>

definition cbytes :: "Compiler \<Rightarrow> u8 list" where
  "cbytes c = buf_data (c_code c)"

definition pool_of :: "Compiler \<Rightarrow> ArcConstant list" where
  "pool_of c = items (img_constants (c_image c))"

definition grows :: "Compiler \<Rightarrow> Compiler \<Rightarrow> bool" where
  "grows c c' \<longleftrightarrow> prefix (cbytes c) (cbytes c') \<and> prefix (pool_of c) (pool_of c') \<and> prefix (c_locals c) (c_locals c') \<and>
     c_enclosing c' = c_enclosing c \<and> c_max_stack c \<le> c_max_stack c' \<and> (c_had_error c \<longrightarrow> c_had_error c') \<and>
     img_functions (c_image c') = img_functions (c_image c)"

lemma grows_refl [simp]: "grows c c"
  by (simp add: grows_def)

lemma grows_trans: "grows a b \<Longrightarrow> grows b c \<Longrightarrow> grows a c"
  by (auto simp: grows_def intro: prefix_order.trans)

text \<open>The code between two states of the compiler, and an image that holds it with its constants.\<close>

definition emitted :: "Compiler \<Rightarrow> Compiler \<Rightarrow> u8 list" where
  "emitted c c' = drop (code_len c) (cbytes c')"

definition placed :: "ArcBytecodeImage \<Rightarrow> Compiler \<Rightarrow> Compiler \<Rightarrow> bool" where
  "placed img c c' \<longleftrightarrow> code_at img (code_len c) (emitted c c') \<and> prefix (pool_of c') (items (img_constants img)) \<and>
     length (items (img_constants img)) \<le> 2 ^ 16"

lemma code_len_bytes: "code_len c = length (cbytes c)"
  by (simp add: code_len_def cbytes_def)

lemma emitted_append: "grows a b \<Longrightarrow> grows b c \<Longrightarrow> emitted a c = emitted a b @ emitted b c"
  by (auto simp: emitted_def grows_def prefix_def code_len_bytes)

lemma code_len_emitted: "grows a b \<Longrightarrow> code_len b = code_len a + length (emitted a b)"
  by (auto simp: emitted_def grows_def prefix_def code_len_bytes)

lemma placed_split:
  assumes "grows a b" "grows b c" "placed img a c"
  shows "placed img a b" "placed img b c"
  using assms emitted_append [OF assms(1,2)] code_len_emitted [OF assms(1)]
  by (auto simp: placed_def code_at_append grows_def intro: prefix_order.trans)

section \<open>Emitting\<close>

text \<open>The effect of a command on everything but the code is read off the definitions.\<close>

lemmas emit_defs = emit_byte_def emit_u16_def emit_i32_def emit_op_def set_depth_def cmd_defs buf_simps

definition stays :: "Compiler \<Rightarrow> Compiler \<Rightarrow> bool" where
  "stays c c' \<longleftrightarrow> grows c c' \<and> c_locals c' = c_locals c \<and> c_had_error c' = c_had_error c"

lemma stays_refl [simp]: "stays c c"
  by (simp add: stays_def)

lemma stays_trans: "stays a b \<Longrightarrow> stays b c \<Longrightarrow> stays a c"
  by (auto simp: stays_def intro: grows_trans)

lemma staysD: "stays c c' \<Longrightarrow> grows c c' \<and> c_locals c' = c_locals c \<and> c_had_error c' = c_had_error c \<and> c_enclosing c' = c_enclosing c"
  by (simp add: stays_def grows_def)

lemma emit_op_Ret:
  assumes "emit_op op c = Ret ((), c')"
  shows "stays c c'" "emitted c c' = [op_byte op]" "c_stack_depth c' = c_stack_depth c - max 0 (op_pops op) + max 0 (op_pushes op)"
    "c_stack_depth c' \<le> c_max_stack c'" "pool_of c' = pool_of c"
  using assms by (auto simp: emit_defs stays_def grows_def emitted_def cbytes_def pool_of_def code_len_def)

lemma emit_u16_Ret:
  assumes "emit_u16 v c = Ret ((), c')"
  shows "stays c c'" "emitted c c' = le_u16 v" "c_stack_depth c' = c_stack_depth c" "c_max_stack c' = c_max_stack c" "pool_of c' = pool_of c"
  using assms by (auto simp: emit_defs stays_def grows_def emitted_def cbytes_def pool_of_def code_len_def)

lemma emit_op_u16:
  assumes "ibind (emit_op op) (\<lambda>_. emit_u16 v) c = Ret ((), c')" "op_pops op = 0" "op_pushes op = 1"
  shows "stays c c'" "emitted c c' = op_byte op # le_u16 v" "c_stack_depth c' = c_stack_depth c + 1" "c_stack_depth c' \<le> c_max_stack c'"
    "pool_of c' = pool_of c"
proof -
  obtain c1 where 1: "emit_op op c = Ret ((), c1)" "emit_u16 v c1 = Ret ((), c')" using assms(1) by (auto simp: ibind_Ret)
  note a = emit_op_Ret [OF 1(1)] and b = emit_u16_Ret [OF 1(2)]
  show "stays c c'" using a(1) b(1) stays_trans by blast
  show "emitted c c' = op_byte op # le_u16 v" using emitted_append [of c c1 c'] a(1,2) b(1,2) by (simp add: stays_def)
  show "c_stack_depth c' = c_stack_depth c + 1" "c_stack_depth c' \<le> c_max_stack c'" "pool_of c' = pool_of c" using a b assms(2,3) by simp_all
qed

lemma add_debug_Ret:
  assumes "add_debug nd ds c = Ret ((), c')"
  shows "stays c c'" "cbytes c' = cbytes c" "c_stack_depth c' = c_stack_depth c" "c_max_stack c' = c_max_stack c" "pool_of c' = pool_of c"
  using assms by (auto simp: add_debug_def stays_def grows_def cbytes_def pool_of_def andthen_Ret split: if_splits)

section \<open>Constants\<close>

text \<open>The constant is in the pool at the index returned, and nothing of the pool has moved.\<close>

definition adds :: "(ArcConstPool \<Rightarrow> (nat \<times> ArcConstPool) outcome) \<Rightarrow> ArcConstant \<Rightarrow> bool" where
  "adds add k \<longleftrightarrow> (\<forall>p i p'. add p = Ret (i, p') \<longrightarrow> prefix (items p) (items p') \<and> i < length (items p') \<and> items p' ! i = k)"

lemma pool_intern_adds:
  assumes "\<And>e. same e \<Longrightarrow> e = k"
  shows "adds (\<lambda>p. pool_intern same p k) k"
  unfolding adds_def
proof (intro allI impI)
  fix p i p' assume r: "pool_intern same p k = Ret (i, p')"
  show "prefix (items p) (items p') \<and> i < length (items p') \<and> items p' ! i = k"
  proof (cases "find_index same (items p)")
    case None
    then show ?thesis using r by (auto simp: pool_intern_def pool_grow_def dyn_push_def Let_def split: if_splits)
  next
    case (Some j)
    then show ?thesis using r find_index_Some [OF Some] assms by (auto simp: pool_intern_def)
  qed
qed

lemma adds_const:
  "adds arc_const_pool_add_null ARC_CONST_NULL"
  "adds (\<lambda>p. arc_const_pool_add_bool p b) (ARC_CONST_BOOL b)"
  "adds (\<lambda>p. arc_const_pool_add_i64 p i) (ARC_CONST_I64 i)"
  "adds (fold_num False fv i) (ARC_CONST_I64 i)"
  using pool_intern_adds [of "\<lambda>e. e = ARC_CONST_NULL" ARC_CONST_NULL]
    pool_intern_adds [of "\<lambda>e. case e of ARC_CONST_BOOL x \<Rightarrow> x = b | _ \<Rightarrow> False" "ARC_CONST_BOOL b"]
    pool_intern_adds [of "\<lambda>e. case e of ARC_CONST_I64 x \<Rightarrow> x = i | _ \<Rightarrow> False" "ARC_CONST_I64 i"]
  by (simp_all add: arc_const_pool_add_null_def [abs_def] arc_const_pool_add_bool_def arc_const_pool_add_i64_def fold_num_def [abs_def]
      split: ArcConstant.splits)

text \<open>Emitting a constant of the pool.\<close>

definition pushes_const :: "Compiler \<Rightarrow> ArcConstant \<Rightarrow> Compiler \<Rightarrow> bool" where
  "pushes_const c k c' \<longleftrightarrow>
     stays c c' \<and> (\<exists>i. emitted c c' = op_byte OP_CONST # le_u16 (of_nat i) \<and> i < length (pool_of c') \<and> pool_of c' ! i = k) \<and>
     c_stack_depth c' = c_stack_depth c + 1 \<and> c_stack_depth c' \<le> c_max_stack c'"

lemma put_const:
  assumes "ibind (pool_const add) emit_const c = Ret ((), c')" "adds add k"
  shows "pushes_const c k c'"
proof -
  obtain i c1 where 1: "pool_const add c = Ret (i, c1)" "emit_const i c1 = Ret ((), c')" using assms(1) by (auto simp: ibind_Ret)
  obtain p where p: "add (img_constants (c_image c)) = Ret (i, p)" "c1 = c\<lparr>c_image := (c_image c)\<lparr>img_constants := p\<rparr>\<rparr>"
    using 1(1) by (auto simp: pool_const_def andthen_Ret)
  have a: "prefix (pool_of c) (pool_of c1)" "i < length (pool_of c1)" "pool_of c1 ! i = k"
    using assms(2) p by (auto simp: adds_def pool_of_def)
  have s: "stays c c1" "emitted c c1 = []" "c_stack_depth c1 = c_stack_depth c"
    using a(1) by (simp_all add: p(2) stays_def grows_def cbytes_def emitted_def code_len_def)
  note e = emit_op_u16 [OF 1(2) [unfolded emit_const_def], simplified]
  have "emitted c c' = op_byte OP_CONST # le_u16 (of_nat i)"
    using emitted_append [of c c1 c'] s e(1,2) by (simp add: stays_def)
  then show ?thesis using stays_trans [OF s(1) e(1)] a(2,3) e s(3) unfolding pushes_const_def by auto
qed

section \<open>The fragment\<close>

definition leaf_kind :: "ArcNodeKind \<Rightarrow> bool" where
  "leaf_kind k \<longleftrightarrow> k \<in> {ARC_NODE_CONST_INT, ARC_NODE_CONST_BOOL, ARC_NODE_CONST_NULL, ARC_NODE_VAR_REF}"

definition operator_kind :: "ArcNodeKind \<Rightarrow> bool" where
  "operator_kind k \<longleftrightarrow> k \<in> {ARC_NODE_ADD, ARC_NODE_SUB, ARC_NODE_MUL, ARC_NODE_DIV, ARC_NODE_MOD, ARC_NODE_EQ, ARC_NODE_NEQ,
     ARC_NODE_LT, ARC_NODE_LE, ARC_NODE_GT, ARC_NODE_GE, ARC_NODE_NEG, ARC_NODE_NOT}"

text \<open>The identifiers the ports of a node carry, and the nodes connected to them.\<close>

definition node_inputs :: "ArcGraph \<Rightarrow> ArcNode \<Rightarrow> ArcPortId set" where
  "node_inputs g nd = {port_id (ports g ! q) | q. q \<in> set (node_ports nd) \<union> set (cyclic_order nd) \<and> q < length (ports g)}"

text \<open>A set of nodes of the fragment that holds the operands of its operators, in a graph without edges to the invalid
  port.\<close>

definition pure_nodes :: "ArcGraph \<Rightarrow> ArcNodeId set \<Rightarrow> bool" where
  "pure_nodes g N \<longleftrightarrow>
     find_source_node g ARC_INVALID_ID = Ret ARC_INVALID_ID \<and>
     (\<forall>n \<in> N. n < length (nodes g) \<and> (leaf_kind (kind (nodes g ! n)) \<or>
        operator_kind (kind (nodes g ! n)) \<and>
        (\<forall>p \<in> node_inputs g (nodes g ! n). \<forall>m. find_source_node g p = Ret m \<longrightarrow> m = ARC_INVALID_ID \<or> m \<in> N)))"

lemma leaf_not_operator: "leaf_kind k \<Longrightarrow> \<not> operator_kind k"
  by (auto simp: leaf_kind_def operator_kind_def)

lemma pure_nodesD:
  assumes "pure_nodes g N" "n \<in> N"
  shows "n < length (nodes g)" "leaf_kind (kind (nodes g ! n)) \<or> operator_kind (kind (nodes g ! n))"
    "\<lbrakk>operator_kind (kind (nodes g ! n)); p \<in> node_inputs g (nodes g ! n); find_source_node g p = Ret m; m \<noteq> ARC_INVALID_ID\<rbrakk> \<Longrightarrow> m \<in> N"
    "kind (nodes g ! n) \<noteq> ARC_NODE_CONST_FLOAT"
proof -
  have n: "n < length (nodes g) \<and> (leaf_kind (kind (nodes g ! n)) \<or> operator_kind (kind (nodes g ! n)) \<and>
      (\<forall>p \<in> node_inputs g (nodes g ! n). \<forall>m. find_source_node g p = Ret m \<longrightarrow> m = ARC_INVALID_ID \<or> m \<in> N))"
    using assms unfolding pure_nodes_def by blast
  then show "n < length (nodes g)" "leaf_kind (kind (nodes g ! n)) \<or> operator_kind (kind (nodes g ! n))" by blast+
  then show "kind (nodes g ! n) \<noteq> ARC_NODE_CONST_FLOAT" by (auto simp: leaf_kind_def operator_kind_def)
  show "\<lbrakk>operator_kind (kind (nodes g ! n)); p \<in> node_inputs g (nodes g ! n); find_source_node g p = Ret m; m \<noteq> ARC_INVALID_ID\<rbrakk> \<Longrightarrow> m \<in> N"
    using n leaf_not_operator by blast
qed

lemma port_with_role_input: "port_with_role g rl d ps = Ret p \<Longrightarrow> p \<noteq> ARC_INVALID_ID \<Longrightarrow> \<exists>q \<in> set ps. q < length (ports g) \<and> p = port_id (ports g ! q)"
  by (induction ps) (auto split: if_splits)

lemma find_port_input:
  "find_port_by_role g n rl d = Ret p \<Longrightarrow> p \<noteq> ARC_INVALID_ID \<Longrightarrow> n < length (nodes g) \<and> p \<in> node_inputs g (nodes g ! n)"
  by (auto simp: find_port_by_role_def andthen_Ret node_at_def node_inputs_def dest!: port_with_role_input split: if_splits)

lemma order_inputs_input: "p \<in> set (order_inputs g ps) \<Longrightarrow> \<exists>q \<in> set ps. q < length (ports g) \<and> p = port_id (ports g ! q)"
  by (auto simp: order_inputs_def arc_graph_port_def split: if_splits)

lemma binary_ports_input:
  assumes "binary_ports g n nd = Ret (lp, rp)" "nd = nodes g ! n" "lp \<noteq> ARC_INVALID_ID" "rp \<noteq> ARC_INVALID_ID"
  shows "lp \<in> node_inputs g nd" "rp \<in> node_inputs g nd"
proof -
  have "lp \<in> node_inputs g nd \<and> rp \<in> node_inputs g nd"
  proof (cases "2 \<le> length (cyclic_order nd)")
    case True
    then obtain r where r: "order_inputs g (cyclic_order nd) = lp # rp # r"
      using assms(1,3,4) by (auto simp: binary_ports_def split: list.splits)
    then show ?thesis using order_inputs_input [of lp g "cyclic_order nd"] order_inputs_input [of rp g "cyclic_order nd"]
      by (auto simp: node_inputs_def)
  next
    case False
    then show ?thesis using assms find_port_input by (auto simp: binary_ports_def andthen_Ret)
  qed
  then show "lp \<in> node_inputs g nd" "rp \<in> node_inputs g nd" by auto
qed

section \<open>The compiler on operators\<close>

lemma cerr_Ret: "cerr msg c = Ret ((), c') \<Longrightarrow> c_had_error c'"
  by (auto simp: cerr_def imod_def)

lemma try_fold_binary_False: "try_fold_binary g ls rs k c = Ret (False, c') \<Longrightarrow> c' = c"
  by (auto simp: try_fold_binary_def ibind_Ret ilift_def iret_def andthen_Ret split: if_splits option.splits)

lemma try_fold_unary_False: "try_fold_unary g src k c = Ret (False, c') \<Longrightarrow> c' = c"
  by (auto simp: try_fold_unary_def ibind_Ret ilift_def iret_def andthen_Ret split: if_splits option.splits)

lemma compile_binary_Ret:
  assumes "compile_binary cn g n op c = Ret ((), c')" "\<not> c_had_error c'"
  obtains lp rp ls rs where "n < length (nodes g)" "binary_ports g n (nodes g ! n) = Ret (lp, rp)" "lp \<noteq> ARC_INVALID_ID" "rp \<noteq> ARC_INVALID_ID"
    "find_source_node g lp = Ret ls" "find_source_node g rp = Ret rs" "ls \<noteq> ARC_INVALID_ID" "rs \<noteq> ARC_INVALID_ID"
    "try_fold_binary g ls rs (kind (nodes g ! n)) c = Ret (True, c') \<or>
     (\<exists>c1 c2. cn ls c = Ret ((), c1) \<and> cn rs c1 = Ret ((), c2) \<and> emit_op op c2 = Ret ((), c'))"
proof -
  have no: "cerr msg c0 \<noteq> Ret ((), c')" for msg c0 using cerr_Ret assms(2) by blast
  from assms(1) obtain lp rp where 1: "n < length (nodes g)" "binary_ports g n (nodes g ! n) = Ret (lp, rp)" "lp \<noteq> ARC_INVALID_ID" "rp \<noteq> ARC_INVALID_ID"
    by (auto simp: compile_binary_def ibind_Ret ilift_def andthen_Ret node_at_def no split: if_splits prod.splits)
  then obtain ls rs where 2: "find_source_node g lp = Ret ls" "find_source_node g rp = Ret rs" "ls \<noteq> ARC_INVALID_ID" "rs \<noteq> ARC_INVALID_ID"
    using assms(1) by (auto simp: compile_binary_def ibind_Ret ilift_def andthen_Ret node_at_def no split: if_splits)
  obtain folded c0 where 3: "try_fold_binary g ls rs (kind (nodes g ! n)) c = Ret (folded, c0)"
    "(if folded then iret () else ibind (cn ls) (\<lambda>_. ibind (cn rs) (\<lambda>_. emit_op op))) c0 = Ret ((), c')"
    using assms(1) 1 2 by (auto simp: compile_binary_def ibind_Ret ilift_def andthen_Ret node_at_def)
  show thesis
    using that [OF 1 2] 3 try_fold_binary_False [of g ls rs "kind (nodes g ! n)" c c0]
    by (cases folded) (auto simp: iret_def ibind_Ret)
qed

lemma compile_unary_Ret:
  assumes "compile_unary cn g n op c = Ret ((), c')" "\<not> c_had_error c'"
  obtains p1 p src where "n < length (nodes g)" "find_port_by_role g n ''value'' ARC_PORT_INPUT = Ret p1"
    "p1 \<noteq> ARC_INVALID_ID \<and> p = p1 \<or> p1 = ARC_INVALID_ID \<and> find_port_by_role g n ''in'' ARC_PORT_INPUT = Ret p"
    "find_source_node g p = Ret src" "src \<noteq> ARC_INVALID_ID"
    "try_fold_unary g src (kind (nodes g ! n)) c = Ret (True, c') \<or> (\<exists>c1. cn src c = Ret ((), c1) \<and> emit_op op c1 = Ret ((), c'))"
proof -
  have no: "cerr msg c0 \<noteq> Ret ((), c')" for msg c0 using cerr_Ret assms(2) by blast
  from assms(1) obtain p1 where 1: "n < length (nodes g)" "find_port_by_role g n ''value'' ARC_PORT_INPUT = Ret p1"
    by (auto simp: compile_unary_def ibind_Ret ilift_def andthen_Ret node_at_def no split: if_splits)
  obtain p where 2: "p1 \<noteq> ARC_INVALID_ID \<and> p = p1 \<or> p1 = ARC_INVALID_ID \<and> find_port_by_role g n ''in'' ARC_PORT_INPUT = Ret p"
    using assms(1) 1 by (cases "p1 = ARC_INVALID_ID") (auto simp: compile_unary_def ibind_Ret ilift_def andthen_Ret node_at_def)
  then obtain src where 3: "find_source_node g p = Ret src" "src \<noteq> ARC_INVALID_ID"
    using assms(1) 1 by (cases "p1 = ARC_INVALID_ID") (auto simp: compile_unary_def ibind_Ret ilift_def iret_def andthen_Ret node_at_def no split: if_splits)
  then obtain folded c0 where 4: "try_fold_unary g src (kind (nodes g ! n)) c = Ret (folded, c0)"
    "(if folded then iret () else ibind (cn src) (\<lambda>_. emit_op op)) c0 = Ret ((), c')"
    using assms(1) 1 2 by (cases "p1 = ARC_INVALID_ID") (auto simp: compile_unary_def ibind_Ret ilift_def iret_def andthen_Ret node_at_def)
  show thesis
    using that [OF 1 2 3] 4 try_fold_unary_False [of g src "kind (nodes g ! n)" c c0]
    by (cases folded) (auto simp: iret_def ibind_Ret)
qed

section \<open>The interpreter on operators\<close>

definition binary_value :: "ArcNodeKind \<Rightarrow> ArcValue \<Rightarrow> ArcValue \<Rightarrow> ArcValue im" where
  "binary_value k a b = (if k \<in> {ARC_NODE_ADD, ARC_NODE_SUB, ARC_NODE_MUL, ARC_NODE_DIV, ARC_NODE_MOD} then arith_value k a b else comparison_value k a b)"

lemma eval_node_Ret:
  assumes "eval_node e fmt g n s = Ret (v, s')" "\<not> i_had_error s'" "\<not> i_returned s"
  obtains d where "e = Suc d" "\<not> i_had_error s" "n < length (nodes g)"
    "eval_kind (eval_node d fmt g) (exec_region_stmts d fmt g) g n (nodes g ! n) s = Ret (v, s')"
proof (cases e)
  case 0
  then show thesis using assms(1) by (simp add: ilift_def)
next
  case (Suc d)
  then show thesis using assms that
    by (cases "i_had_error s"; cases "n < length (nodes g)")
      (auto simp: ibind_def iget_def iret_def ierr_null_def ierr_def imod_def)
qed

lemma eval_source_Ret:
  assumes "eval_source ev g p s = Ret (v, s')" "find_source_node g p = Ret m" "m \<noteq> ARC_INVALID_ID"
  shows "ev m s = Ret (v, s')"
  using assms by (simp add: eval_source_def find_source_def find_source_node_def ibind_def ilift_def)

lemma eval_ports_Ret:
  assumes "eval_ports ev g (Suc k) ps s = Ret (v # vs, s')" "order_inputs g ps = l # ls"
  obtains ps' s1 where "eval_source ev g l s = Ret (v, s1)" "eval_ports ev g k ps' s1 = Ret (vs, s')" "order_inputs g ps' = ls"
  using assms
proof (induction ps)
  case Nil
  then show ?case by (simp add: iret_def)
next
  case (Cons p ps)
  have p: "p < length (ports g)" using Cons.prems(2) by (auto simp: ibind_Ret ilift_def andthen_Ret port_at_def split: if_splits)
  show ?case
  proof (cases "dir (ports g ! p) = ARC_PORT_INPUT")
    case True
    then show ?thesis using Cons.prems p
      by (auto simp: ibind_Ret ilift_def iret_def port_at_def order_inputs_def arc_graph_port_def)
  next
    case False
    then show ?thesis using Cons p
      by (auto simp: ibind_Ret ilift_def port_at_def order_inputs_def arc_graph_port_def)
  qed
qed

lemma same_role_search: "find_port_by_role_dir = find_port_by_role"
  by (intro ext) (simp add: find_port_by_role_dir_def find_port_by_role_def)

lemma eval_input_Ret:
  assumes "eval_input ev g n rl s = Ret (v, s')" "find_port_by_role g n rl ARC_PORT_INPUT = Ret p1"
    "p1 \<noteq> ARC_INVALID_ID \<and> p = p1 \<or> p1 = ARC_INVALID_ID \<and> find_port_by_role g n ''in'' ARC_PORT_INPUT = Ret p"
    "find_source_node g p = Ret m" "m \<noteq> ARC_INVALID_ID" "p \<noteq> ARC_INVALID_ID"
  shows "ev m s = Ret (v, s')"
  using assms eval_source_Ret [of ev g p s v s' m] by (auto simp: eval_input_def same_role_search ibind_def ilift_def iret_def)

text \<open>Both take the same two operands, in the same order.\<close>

lemma eval_binary_Ret:
  assumes ev: "eval_binary_lhs_rhs ev g n s = Ret ((a, b), s')"
    and p: "n < length (nodes g)" "binary_ports g n (nodes g ! n) = Ret (lp, rp)" "lp \<noteq> ARC_INVALID_ID" "rp \<noteq> ARC_INVALID_ID"
      "find_source_node g lp = Ret ls" "find_source_node g rp = Ret rs" "ls \<noteq> ARC_INVALID_ID" "rs \<noteq> ARC_INVALID_ID"
  obtains s1 where "ev ls s = Ret (a, s1)" "ev rs s1 = Ret (b, s')"
proof (cases "2 \<le> length (cyclic_order (nodes g ! n))")
  case True
  then obtain r where o: "order_inputs g (cyclic_order (nodes g ! n)) = lp # rp # r"
    using p(2-4) by (auto simp: binary_ports_def split: list.splits)
  obtain vs s0 where vs: "eval_ports ev g 2 (cyclic_order (nodes g ! n)) s = Ret (vs, s0)"
    "(case vs of [lhs, rhs] \<Rightarrow> iret (lhs, rhs) | _ \<Rightarrow> ilift Undef) s0 = Ret ((a, b), s')"
    using ev p(1) True by (auto simp: eval_binary_lhs_rhs_def ibind_Ret ilift_def node_at_def)
  then have "vs = [a, b]" "s0 = s'" by (auto simp: iret_def ilift_def split: list.splits)
  with vs(1) have e2: "eval_ports ev g (Suc 1) (cyclic_order (nodes g ! n)) s = Ret ([a, b], s')" by (simp add: numeral_2_eq_2)
  obtain ps s1 where 1: "eval_source ev g lp s = Ret (a, s1)" "eval_ports ev g 1 ps s1 = Ret ([b], s')" "order_inputs g ps = rp # r"
    by (rule eval_ports_Ret [OF e2 o])
  then obtain s2 ps' where 2: "eval_source ev g rp s1 = Ret (b, s2)" "eval_ports ev g 0 ps' s2 = Ret ([], s')"
    using eval_ports_Ret [of ev g 0 ps s1 b "[]" s' rp r] by auto
  then show thesis using that [of s1] eval_source_Ret [OF 1(1) p(5,7)] eval_source_Ret [OF 2(1) p(6,8)] by (simp add: iret_def)
next
  case False
  then have "find_port_by_role g n ''lhs'' ARC_PORT_INPUT = Ret lp" "find_port_by_role g n ''rhs'' ARC_PORT_INPUT = Ret rp"
    using p(2) by (auto simp: binary_ports_def andthen_Ret)
  moreover obtain s1 where "eval_input ev g n ''lhs'' s = Ret (a, s1)" "eval_input ev g n ''rhs'' s1 = Ret (b, s')"
    using ev p(1) False by (auto simp: eval_binary_lhs_rhs_def ibind_Ret ilift_def iret_def node_at_def)
  ultimately show thesis using that [of s1] p eval_input_Ret by blast
qed

section \<open>Folding\<close>

text \<open>Folding two integer constants gives the constant for the value the interpreter computes.\<close>

lemma sint_eq_iff: "sint (x :: i64) = sint y \<longleftrightarrow> x = y"
  by (auto intro: signed_word_eqI)

lemma fold_value_adds:
  assumes "fold_value k False lf rf li ri = Ret (Some add)" "operator_kind k" "k \<noteq> ARC_NODE_NEG" "k \<noteq> ARC_NODE_NOT"
  shows "\<exists>kc v. adds add kc \<and> const_value kc = Some v \<and> (\<forall>s. binary_value k (VAL_I64 li) (VAL_I64 ri) s = Ret (v, s))"
proof -
  have num: "c_i64 r = Ret i \<Longrightarrow> \<exists>kc. adds (fold_num False fv i) kc \<and> (\<exists>v. const_value kc = Some v \<and> (\<forall>s. ii64 r s = Ret (v, s)))" for r i fv
    using adds_const(4) [of fv i] by (auto simp: ii64_def cmd_defs intro!: exI [of _ "ARC_CONST_I64 i"])
  have truth: "\<exists>kc. adds (\<lambda>p. arc_const_pool_add_bool p b) kc \<and> (\<exists>v. const_value kc = Some v \<and> (\<forall>s. iret (VAL_BOOL b) s = Ret (v, s)))" for b
    using adds_const(2) [of b] by (auto simp: iret_def intro!: exI [of _ "ARC_CONST_BOOL b"])
  show ?thesis
    using assms unfolding operator_kind_def
    by (elim insertE emptyE)
      (auto simp: fold_value_def Let_def binary_value_def arith_value_def comparison_value_def ibind_def ilift_def sint_eq_iff
        andthen_Ret num truth split: if_splits)
qed

text \<open>The interpreter, if it gets a value of the node at all, gets \<open>v0\<close>.\<close>

definition means :: "ArcGraph \<Rightarrow> ArcNodeId \<Rightarrow> ArcValue \<Rightarrow> bool" where
  "means g n v0 \<longleftrightarrow> (\<forall>e fmt s v s'. eval_node e fmt g n s = Ret (v, s') \<longrightarrow> \<not> i_had_error s' \<longrightarrow> \<not> i_returned s \<longrightarrow> v = v0 \<and> s' = s)"

lemma meansI:
  assumes "\<And>d fmt s v s'. \<lbrakk>eval_kind (eval_node d fmt g) (exec_region_stmts d fmt g) g n (nodes g ! n) s = Ret (v, s');
    \<not> i_had_error s'; \<not> i_had_error s; \<not> i_returned s\<rbrakk> \<Longrightarrow> v = v0 \<and> s' = s"
  shows "means g n v0"
  unfolding means_def
proof (intro allI impI)
  fix e fmt s v s' assume *: "eval_node e fmt g n s = Ret (v, s')" "\<not> i_had_error s'" "\<not> i_returned s"
  then obtain d where "\<not> i_had_error s" "eval_kind (eval_node d fmt g) (exec_region_stmts d fmt g) g n (nodes g ! n) s = Ret (v, s')"
    by (elim eval_node_Ret)
  with * show "v = v0 \<and> s' = s" using assms by blast
qed

lemma meansD: "means g n v0 \<Longrightarrow> eval_node e fmt g n s = Ret (v, s') \<Longrightarrow> \<not> i_had_error s' \<Longrightarrow> \<not> i_returned s \<Longrightarrow> v = v0 \<and> s' = s"
  by (simp add: means_def)

lemma means_const:
  "kind (nodes g ! n) = ARC_NODE_CONST_INT \<Longrightarrow> attr_int (attr (nodes g ! n)) = Ret i \<Longrightarrow> means g n (VAL_I64 i)"
  "kind (nodes g ! n) = ARC_NODE_CONST_BOOL \<Longrightarrow> attr_bool (attr (nodes g ! n)) = Ret b \<Longrightarrow> means g n (VAL_BOOL b)"
  "kind (nodes g ! n) = ARC_NODE_CONST_NULL \<Longrightarrow> means g n VAL_NULL"
  by (rule meansI; simp add: eval_kind_def ibind_def ilift_def iret_def)+

lemma fold_binary_means:
  assumes "try_fold_binary g ls rs k c = Ret (True, c')" "operator_kind k" "k \<noteq> ARC_NODE_NEG" "k \<noteq> ARC_NODE_NOT"
    "kind (nodes g ! ls) \<noteq> ARC_NODE_CONST_FLOAT" "kind (nodes g ! rs) \<noteq> ARC_NODE_CONST_FLOAT"
  obtains kc v a b where "pushes_const c kc c'" "const_value kc = Some v" "means g ls a" "means g rs b" "\<And>s. binary_value k a b s = Ret (v, s)"
proof -
  let ?l = "nodes g ! ls" and ?r = "nodes g ! rs"
  from assms(1,5,6) obtain lf rf li ri add where 1: "kind ?l = ARC_NODE_CONST_INT" "kind ?r = ARC_NODE_CONST_INT"
    "attr_int (attr ?l) = Ret li" "attr_int (attr ?r) = Ret ri" "fold_value k False lf rf li ri = Ret (Some add)"
    "ibind (pool_const add) emit_const c = Ret ((), c')"
    by (auto simp: try_fold_binary_def ibind_Ret ilift_def iret_def andthen_Ret node_at_def is_const_numeric_def const_i64_def
        split: if_splits option.splits)
  then obtain kc v where "adds add kc" "const_value kc = Some v" "\<And>s. binary_value k (VAL_I64 li) (VAL_I64 ri) s = Ret (v, s)"
    using fold_value_adds [OF 1(5) assms(2-4)] by auto
  with put_const [OF 1(6)] means_const(1) 1 that show thesis by metis
qed

definition unary_value :: "ArcNodeKind \<Rightarrow> ArcValue \<Rightarrow> ArcValue im" where
  "unary_value k a = (if k = ARC_NODE_NEG then neg_value a else iret (VAL_BOOL (\<not> arc_val_is_truthy a)))"

lemma fold_unary_means:
  assumes "try_fold_unary g src k c = Ret (True, c')" "k = ARC_NODE_NEG \<or> k = ARC_NODE_NOT"
    "kind (nodes g ! src) \<noteq> ARC_NODE_CONST_FLOAT"
  obtains kc v a where "pushes_const c kc c'" "const_value kc = Some v" "means g src a" "\<And>s. unary_value k a s = Ret (v, s)"
proof -
  let ?s = "nodes g ! src"
  from assms(1) obtain add where 1: "fold_unary k ?s = Ret (Some add)" "ibind (pool_const add) emit_const c = Ret ((), c')"
    by (auto simp: try_fold_unary_def ibind_Ret ilift_def iret_def andthen_Ret node_at_def split: if_splits option.splits)
  consider (neg) i r where "k = ARC_NODE_NEG" "kind ?s = ARC_NODE_CONST_INT" "attr_int (attr ?s) = Ret i" "c_i64 (- sint i) = Ret r"
      "add = (\<lambda>p. arc_const_pool_add_i64 p r)"
    | (noti) i where "k = ARC_NODE_NOT" "kind ?s = ARC_NODE_CONST_INT" "attr_int (attr ?s) = Ret i" "add = (\<lambda>p. arc_const_pool_add_bool p (i = 0))"
    | (notb) b where "k = ARC_NODE_NOT" "kind ?s = ARC_NODE_CONST_BOOL" "attr_bool (attr ?s) = Ret b" "add = (\<lambda>p. arc_const_pool_add_bool p (\<not> b))"
    using 1(1) assms(2,3) by (auto simp: fold_unary_def Let_def andthen_Ret split: if_splits)
  then show thesis
  proof cases
    case neg
    have "unary_value k (VAL_I64 i) s = Ret (VAL_I64 r, s)" for s using neg(1,4) by (simp add: unary_value_def neg_value_def ii64_def cmd_defs)
    then show thesis using that put_const [OF 1(2)] adds_const(3) [of r] means_const(1) [OF neg(2,3)] neg(5) const_value.simps(3) by metis
  next
    case noti
    have "unary_value k (VAL_I64 i) s = Ret (VAL_BOOL (i = 0), s)" for s using noti(1) by (simp add: unary_value_def iret_def)
    then show thesis using that put_const [OF 1(2)] adds_const(2) [of "i = 0"] means_const(1) [OF noti(2,3)] noti(4) const_value.simps(2) by metis
  next
    case notb
    have "unary_value k (VAL_BOOL b) s = Ret (VAL_BOOL (\<not> b), s)" for s using notb(1) by (simp add: unary_value_def iret_def)
    then show thesis using that put_const [OF 1(2)] adds_const(2) [of "\<not> b"] means_const(2) [OF notb(2,3)] notb(4) const_value.simps(2) by metis
  qed
qed

section \<open>The shapes of a compiled expression\<close>

text \<open>The debug table is all that changes.\<close>

definition settles :: "Compiler \<Rightarrow> Compiler \<Rightarrow> bool" where
  "settles c c' \<longleftrightarrow> stays c c' \<and> cbytes c' = cbytes c \<and> c_stack_depth c' = c_stack_depth c \<and> c_max_stack c' = c_max_stack c \<and> pool_of c' = pool_of c"

lemma settles_debug: "add_debug nd ds c = Ret ((), c') \<Longrightarrow> settles c c'"
  using add_debug_Ret by (simp add: settles_def)

lemma compile_node_Ret:
  assumes "compile_node d g n c = Ret ((), c')" "n < length (nodes g)"
  obtains d' c1 where "d = Suc d'" "compile_kind (compile_node d' g) g n (nodes g ! n) c = Ret ((), c1)" "settles c1 c'"
  using assms settles_debug by (cases d) (auto simp: ilift_def Let_def ibind_Ret iget_def)

definition operators :: "(ArcNodeKind \<times> ArcOpcode) set" where
  "operators = binary_ops \<union> compare_ops"

lemma operator_kinds:
  "operator_kind k \<Longrightarrow> k = ARC_NODE_NEG \<or> k = ARC_NODE_NOT \<or> (\<exists>op. (k, op) \<in> operators)"
  "(k, op) \<in> operators \<Longrightarrow> binary_op_for_kind k = Some op \<and> k \<noteq> ARC_NODE_NEG \<and> k \<noteq> ARC_NODE_NOT \<and> operator_kind k"
  by (auto simp: operators_def operator_kind_def binary_ops_def compare_ops_def)

lemma binary_value_ops: "(k, op) \<in> binary_ops \<Longrightarrow> binary_value k = arith_value k" "(k, op) \<in> compare_ops \<Longrightarrow> binary_value k = comparison_value k"
  unfolding binary_ops_def compare_ops_def by (elim insertE emptyE; simp add: binary_value_def [abs_def])+

lemma eval_kind_operators:
  assumes "(kind nd, op) \<in> operators"
  shows "eval_kind ev rs g n nd = ibind (eval_binary_lhs_rhs ev g n) (\<lambda>(a, b). binary_value (kind nd) a b)"
  using assms unfolding operators_def binary_ops_def compare_ops_def
  by (auto simp: eval_kind_def Let_def binary_value_def eval_arith_def eval_comparison_def)

lemma eval_kind_unary:
  "kind nd = ARC_NODE_NEG \<or> kind nd = ARC_NODE_NOT \<Longrightarrow> eval_kind ev rs g n nd = ibind (eval_input ev g n ''value'') (unary_value (kind nd))"
  by (auto simp: eval_kind_def Let_def unary_value_def [abs_def])

text \<open>How the interpreter evaluates an operator whose operands are \<open>ls\<close> and \<open>rs\<close>.\<close>

definition computes2 :: "ArcGraph \<Rightarrow> ArcNodeId \<Rightarrow> ArcNodeId \<Rightarrow> ArcNodeId \<Rightarrow> bool" where
  "computes2 g n ls rs \<longleftrightarrow> (\<forall>e fmt s v s'. eval_node e fmt g n s = Ret (v, s') \<longrightarrow> \<not> i_had_error s' \<longrightarrow> \<not> i_returned s \<longrightarrow>
     (\<exists>d a s1 b s2. eval_node d fmt g ls s = Ret (a, s1) \<and> eval_node d fmt g rs s1 = Ret (b, s2) \<and>
        binary_value (kind (nodes g ! n)) a b s2 = Ret (v, s')))"

definition computes1 :: "ArcGraph \<Rightarrow> ArcNodeId \<Rightarrow> ArcNodeId \<Rightarrow> bool" where
  "computes1 g n src \<longleftrightarrow> (\<forall>e fmt s v s'. eval_node e fmt g n s = Ret (v, s') \<longrightarrow> \<not> i_had_error s' \<longrightarrow> \<not> i_returned s \<longrightarrow>
     (\<exists>d a s1. eval_node d fmt g src s = Ret (a, s1) \<and> unary_value (kind (nodes g ! n)) a s1 = Ret (v, s')))"

lemma binary_computes:
  assumes p: "n < length (nodes g)" "binary_ports g n (nodes g ! n) = Ret (lp, rp)" "lp \<noteq> ARC_INVALID_ID" "rp \<noteq> ARC_INVALID_ID"
      "find_source_node g lp = Ret ls" "find_source_node g rp = Ret rs" "ls \<noteq> ARC_INVALID_ID" "rs \<noteq> ARC_INVALID_ID"
    and k: "(kind (nodes g ! n), op) \<in> operators"
  shows "computes2 g n ls rs"
  unfolding computes2_def
proof (intro allI impI)
  fix e fmt s v s' assume *: "eval_node e fmt g n s = Ret (v, s')" "\<not> i_had_error s'" "\<not> i_returned s"
  obtain d where "eval_kind (eval_node d fmt g) (exec_region_stmts d fmt g) g n (nodes g ! n) s = Ret (v, s')"
    by (rule eval_node_Ret [OF *])
  then obtain a b s2 where 1: "eval_binary_lhs_rhs (eval_node d fmt g) g n s = Ret ((a, b), s2)" "binary_value (kind (nodes g ! n)) a b s2 = Ret (v, s')"
    by (auto simp: eval_kind_operators [OF k] ibind_Ret)
  obtain s1 where "eval_node d fmt g ls s = Ret (a, s1)" "eval_node d fmt g rs s1 = Ret (b, s2)" by (rule eval_binary_Ret [OF 1(1) p])
  with 1(2) show "\<exists>d a s1 b s2. eval_node d fmt g ls s = Ret (a, s1) \<and> eval_node d fmt g rs s1 = Ret (b, s2) \<and>
      binary_value (kind (nodes g ! n)) a b s2 = Ret (v, s')" by blast
qed

lemma unary_computes:
  assumes p: "find_port_by_role g n ''value'' ARC_PORT_INPUT = Ret p1"
    "p1 \<noteq> ARC_INVALID_ID \<and> p = p1 \<or> p1 = ARC_INVALID_ID \<and> find_port_by_role g n ''in'' ARC_PORT_INPUT = Ret p"
    "find_source_node g p = Ret src" "src \<noteq> ARC_INVALID_ID" "p \<noteq> ARC_INVALID_ID"
    and k: "kind (nodes g ! n) = ARC_NODE_NEG \<or> kind (nodes g ! n) = ARC_NODE_NOT"
  shows "computes1 g n src"
  unfolding computes1_def
proof (intro allI impI)
  fix e fmt s v s' assume *: "eval_node e fmt g n s = Ret (v, s')" "\<not> i_had_error s'" "\<not> i_returned s"
  obtain d where "eval_kind (eval_node d fmt g) (exec_region_stmts d fmt g) g n (nodes g ! n) s = Ret (v, s')"
    by (rule eval_node_Ret [OF *])
  then obtain a s1 where "eval_input (eval_node d fmt g) g n ''value'' s = Ret (a, s1)" "unary_value (kind (nodes g ! n)) a s1 = Ret (v, s')"
    by (auto simp: eval_kind_unary [OF k] ibind_Ret)
  with eval_input_Ret [OF _ p] show "\<exists>d a s1. eval_node d fmt g src s = Ret (a, s1) \<and> unary_value (kind (nodes g ! n)) a s1 = Ret (v, s')" by blast
qed

text \<open>The operators change the state of the interpreter by reporting an error only.\<close>

lemma ierr_null_fails: "ierr_null msg s = Ret (v, s') \<Longrightarrow> i_had_error s'"
  by (auto simp: ierr_null_def ierr_def cmd_defs split: if_splits)

lemma ii64_Ret: "ii64 r s = Ret (v, s') \<Longrightarrow> s' = s \<and> scalar v"
  by (auto simp: ii64_def cmd_defs andthen_Ret scalar_def)

lemma arith_state: "arith_value k a b s = Ret (v, s') \<Longrightarrow> \<not> i_had_error s' \<Longrightarrow> s' = s \<and> scalar v"
  by (cases a; cases b; simp add: arith_value_def split: if_splits)
    (auto simp: ibind_Ret ilift_def andthen_Ret iret_def scalar_def dest: ii64_Ret ierr_null_fails)

lemma comparison_state: "comparison_value k a b s = Ret (v, s') \<Longrightarrow> \<not> i_had_error s' \<Longrightarrow> s' = s \<and> scalar v"
  by (cases a; cases b; simp add: comparison_value_def split: if_splits)
    (auto simp: iret_def scalar_def dest: ierr_null_fails)

lemma operators_state:
  "binary_value k a b s = Ret (v, s') \<Longrightarrow> \<not> i_had_error s' \<Longrightarrow> s' = s \<and> scalar v"
  "unary_value k a s = Ret (v, s') \<Longrightarrow> \<not> i_had_error s' \<Longrightarrow> s' = s \<and> scalar v"
  using arith_state comparison_state
  by (auto simp: binary_value_def unary_value_def neg_value_def iret_def scalar_def dest: ii64_Ret ierr_null_fails split: if_splits ArcValue.splits)

lemma eval_no_error: "eval_node e fmt g n s = Ret (v, s') \<Longrightarrow> \<not> i_had_error s' \<Longrightarrow> \<not> i_had_error s"
  by (cases e; cases "i_had_error s") (auto simp: ilift_def ibind_def iget_def iret_def)

lemma compile_leaf_cases:
  assumes k: "leaf_kind (kind (nodes g ! n))" "compile_kind cn g n (nodes g ! n) c = Ret ((), c1)" and c: "\<not> c_had_error c1" "c_enclosing c = []"
  obtains (const) kc v where "pushes_const c kc c1" "const_value kc = Some v" "means g n v"
  | (var) x sl where "kind (nodes g ! n) = ARC_NODE_VAR_REF" "attr_name (attr (nodes g ! n)) = Ret x"
      "find_rev (c_locals c) x (length (c_locals c)) = Ret (Some sl)" "emit_local OP_LOAD_LOCAL sl c = Ret ((), c1)"
proof (cases "kind (nodes g ! n) = ARC_NODE_VAR_REF")
  case True
  let ?nd = "nodes g ! n"
  obtain x slot where x: "attr_name (attr ?nd) = Ret x" "find_rev (c_locals c) x (length (c_locals c)) = Ret slot"
    using k(2) True by (auto simp: compile_kind_def Let_def compile_var_ref_def ibind_Ret ilift_def andthen_Ret find_local_def)
  show thesis
  proof (cases slot)
    case None
    then have "(case x of None \<Rightarrow> ilift Undef | Some name \<Rightarrow> cerr (''undefined '' @ [CHR 0x27] @ name @ [CHR 0x27] @ [])) c = Ret ((), c1)"
      using k(2) True x c(2) by (simp add: compile_kind_def Let_def compile_var_ref_def ibind_def ilift_def find_local_def compile_captured_def iget_def iret_def)
    then show thesis using c(1) cerr_Ret by (auto simp: ilift_def split: option.splits)
  next
    case (Some sl)
    then have "emit_local OP_LOAD_LOCAL sl c = Ret ((), c1)"
      using k(2) True x by (simp add: compile_kind_def Let_def compile_var_ref_def ibind_def ilift_def find_local_def)
    then show thesis using var True x Some by blast
  qed
next
  case False
  let ?nd = "nodes g ! n"
  consider i where "kind ?nd = ARC_NODE_CONST_INT" "attr_int (attr ?nd) = Ret i" "ibind (pool_const (\<lambda>p. arc_const_pool_add_i64 p i)) emit_const c = Ret ((), c1)"
    | b where "kind ?nd = ARC_NODE_CONST_BOOL" "attr_bool (attr ?nd) = Ret b" "ibind (pool_const (\<lambda>p. arc_const_pool_add_bool p b)) emit_const c = Ret ((), c1)"
    | "kind ?nd = ARC_NODE_CONST_NULL" "ibind (pool_const arc_const_pool_add_null) emit_const c = Ret ((), c1)"
    using k False by (auto simp: leaf_kind_def compile_kind_def Let_def compile_const_def ibind_Ret [of "ilift _"] ilift_def andthen_Ret)
  then show thesis
    using const put_const [OF _ adds_const(3)] put_const [OF _ adds_const(2)] put_const [OF _ adds_const(1)] means_const const_value.simps
    by cases metis+
qed

lemma folded_means2:
  assumes cmp: "computes2 g n ls rs" and f: "means g ls a" "means g rs b" "\<And>s. binary_value (kind (nodes g ! n)) a b s = Ret (v, s)"
  shows "means g n v"
  unfolding means_def
proof (intro allI impI)
  fix e fmt s w s' assume *: "eval_node e fmt g n s = Ret (w, s')" "\<not> i_had_error s'" "\<not> i_returned s"
  then obtain d a' s1 b' s2 where 1: "eval_node d fmt g ls s = Ret (a', s1)" "eval_node d fmt g rs s1 = Ret (b', s2)"
    "binary_value (kind (nodes g ! n)) a' b' s2 = Ret (w, s')" using cmp unfolding computes2_def by blast
  have "s2 = s'" "\<not> i_had_error s1" using operators_state(1) [OF 1(3) *(2)] eval_no_error [OF 1(2)] *(2) by auto
  then show "w = v \<and> s' = s" using meansD [OF f(1) 1(1)] meansD [OF f(2) 1(2)] f(3) 1(3) * by auto
qed

lemma folded_means1:
  assumes cmp: "computes1 g n src" and f: "means g src a" "\<And>s. unary_value (kind (nodes g ! n)) a s = Ret (v, s)"
  shows "means g n v"
  unfolding means_def
proof (intro allI impI)
  fix e fmt s w s' assume *: "eval_node e fmt g n s = Ret (w, s')" "\<not> i_had_error s'" "\<not> i_returned s"
  then obtain d a' s1 where 1: "eval_node d fmt g src s = Ret (a', s1)" "unary_value (kind (nodes g ! n)) a' s1 = Ret (w, s')"
    using cmp unfolding computes1_def by blast
  then show "w = v \<and> s' = s" using operators_state(2) [OF 1(2) *(2)] meansD [OF f(1) 1(1)] f(2) * by auto
qed

lemma compile_operator_cases:
  assumes N: "pure_nodes g N" "n \<in> N" and k: "(kind (nodes g ! n), op) \<in> operators" "compile_kind cn g n (nodes g ! n) c = Ret ((), c1)"
    "\<not> c_had_error c1"
  obtains (const) kc v where "pushes_const c kc c1" "const_value kc = Some v" "means g n v"
  | (binary) ls rs c2 c3 where "ls \<in> N" "rs \<in> N" "computes2 g n ls rs" "cn ls c = Ret ((), c2)" "cn rs c2 = Ret ((), c3)" "emit_op op c3 = Ret ((), c1)"
proof -
  let ?nd = "nodes g ! n"
  note ok = operator_kinds(2) [OF k(1)]
  have "compile_binary cn g n op c = Ret ((), c1)" using k(2) ok by (simp add: compile_kind_def Let_def)
  then obtain lp rp ls rs where p: "n < length (nodes g)" "binary_ports g n ?nd = Ret (lp, rp)" "lp \<noteq> ARC_INVALID_ID" "rp \<noteq> ARC_INVALID_ID"
    "find_source_node g lp = Ret ls" "find_source_node g rp = Ret rs" "ls \<noteq> ARC_INVALID_ID" "rs \<noteq> ARC_INVALID_ID"
    and r: "try_fold_binary g ls rs (kind ?nd) c = Ret (True, c1) \<or> (\<exists>c2 c3. cn ls c = Ret ((), c2) \<and> cn rs c2 = Ret ((), c3) \<and> emit_op op c3 = Ret ((), c1))"
    using compile_binary_Ret k(3) by metis
  have m: "ls \<in> N" "rs \<in> N" using pure_nodesD(3) [OF N] binary_ports_input [OF p(2) refl p(3,4)] p ok by blast+
  have cmp: "computes2 g n ls rs" by (rule binary_computes [OF p k(1)])
  from r show thesis
  proof
    assume "try_fold_binary g ls rs (kind ?nd) c = Ret (True, c1)"
    then obtain kc v a b where "pushes_const c kc c1" "const_value kc = Some v" "means g ls a" "means g rs b"
      "\<And>s. binary_value (kind ?nd) a b s = Ret (v, s)" using fold_binary_means ok pure_nodesD(4) [OF N(1)] m by metis
    then show thesis using const folded_means2 [OF cmp] by blast
  next
    assume "\<exists>c2 c3. cn ls c = Ret ((), c2) \<and> cn rs c2 = Ret ((), c3) \<and> emit_op op c3 = Ret ((), c1)"
    then show thesis using binary m cmp by blast
  qed
qed

lemma compile_unary_cases:
  assumes N: "pure_nodes g N" "n \<in> N" and k: "kind (nodes g ! n) = ARC_NODE_NEG \<and> op = OP_NEG \<or> kind (nodes g ! n) = ARC_NODE_NOT \<and> op = OP_NOT"
    "compile_kind cn g n (nodes g ! n) c = Ret ((), c1)" "\<not> c_had_error c1"
  obtains (const) kc v where "pushes_const c kc c1" "const_value kc = Some v" "means g n v"
  | (unary) src c2 where "src \<in> N" "computes1 g n src" "cn src c = Ret ((), c2)" "emit_op op c2 = Ret ((), c1)"
proof -
  let ?nd = "nodes g ! n"
  have "compile_unary cn g n op c = Ret ((), c1)" using k(1,2) by (auto simp: compile_kind_def Let_def)
  from compile_unary_Ret [OF this k(3)]
  obtain p1 p m where p: "n < length (nodes g)" "find_port_by_role g n ''value'' ARC_PORT_INPUT = Ret p1"
    "p1 \<noteq> ARC_INVALID_ID \<and> p = p1 \<or> p1 = ARC_INVALID_ID \<and> find_port_by_role g n ''in'' ARC_PORT_INPUT = Ret p"
    "find_source_node g p = Ret m" "m \<noteq> ARC_INVALID_ID"
    and r: "try_fold_unary g m (kind ?nd) c = Ret (True, c1) \<or> (\<exists>c2. cn m c = Ret ((), c2) \<and> emit_op op c2 = Ret ((), c1))"
    by blast
  have pi: "p \<noteq> ARC_INVALID_ID" using p(4,5) N(1) by (auto simp: pure_nodes_def)
  have ok: "operator_kind (kind ?nd)" "kind ?nd = ARC_NODE_NEG \<or> kind ?nd = ARC_NODE_NOT" using k(1) by (auto simp: operator_kind_def)
  have "p \<in> node_inputs g ?nd" using p(2,3) pi find_port_input by blast
  then have m: "m \<in> N" using pure_nodesD(3) [OF N] ok p by blast
  have cmp: "computes1 g n m" by (rule unary_computes [OF p(2-5) pi ok(2)])
  from r show thesis
  proof
    assume "try_fold_unary g m (kind ?nd) c = Ret (True, c1)"
    then obtain kc v a where "pushes_const c kc c1" "const_value kc = Some v" "means g m a" "\<And>s. unary_value (kind ?nd) a s = Ret (v, s)"
      using fold_unary_means ok(2) pure_nodesD(4) [OF N(1) m] by metis
    then show thesis using const folded_means1 [OF cmp] by blast
  next
    assume "\<exists>c2. cn m c = Ret ((), c2) \<and> emit_op op c2 = Ret ((), c1)"
    then show thesis using unary m cmp by blast
  qed
qed

lemma compile_pure_cases:
  assumes N: "pure_nodes g N" "n \<in> N" and c: "compile_node d g n c = Ret ((), c')" "\<not> c_had_error c'" "c_enclosing c = []"
  obtains (const) c1 kc v where "pushes_const c kc c1" "const_value kc = Some v" "means g n v" "settles c1 c'"
  | (var) c1 x sl where "kind (nodes g ! n) = ARC_NODE_VAR_REF" "attr_name (attr (nodes g ! n)) = Ret x"
      "find_rev (c_locals c) x (length (c_locals c)) = Ret (Some sl)" "emit_local OP_LOAD_LOCAL sl c = Ret ((), c1)" "settles c1 c'"
  | (binary) d' ls rs op c1 c2 c3 where "d = Suc d'" "ls \<in> N" "rs \<in> N" "(kind (nodes g ! n), op) \<in> operators" "computes2 g n ls rs"
      "compile_node d' g ls c = Ret ((), c1)" "compile_node d' g rs c1 = Ret ((), c2)" "emit_op op c2 = Ret ((), c3)" "settles c3 c'"
  | (unary) d' src op c1 c2 where "d = Suc d'" "src \<in> N" "kind (nodes g ! n) = ARC_NODE_NEG \<and> op = OP_NEG \<or> kind (nodes g ! n) = ARC_NODE_NOT \<and> op = OP_NOT"
      "computes1 g n src" "compile_node d' g src c = Ret ((), c1)" "emit_op op c1 = Ret ((), c2)" "settles c2 c'"
proof -
  let ?nd = "nodes g ! n"
  obtain d' c1 where d: "d = Suc d'" and k: "compile_kind (compile_node d' g) g n ?nd c = Ret ((), c1)" and st: "settles c1 c'"
    by (rule compile_node_Ret [OF c(1) pure_nodesD(1) [OF N]])
  have e1: "\<not> c_had_error c1" using st c(2) by (simp add: settles_def stays_def)
  consider (leaf) "leaf_kind (kind ?nd)" | (bin) op where "(kind ?nd, op) \<in> operators"
    | (un) op where "kind ?nd = ARC_NODE_NEG \<and> op = OP_NEG \<or> kind ?nd = ARC_NODE_NOT \<and> op = OP_NOT"
    using pure_nodesD(2) [OF N] operator_kinds(1) by blast
  then show thesis
  proof cases
    case leaf
    show thesis by (rule compile_leaf_cases [OF leaf k e1 c(3)]) (use st const var in \<open>blast+\<close>)
  next
    case (bin op)
    show thesis by (rule compile_operator_cases [OF N bin k e1]) (use st d bin const binary in \<open>blast+\<close>)
  next
    case (un op)
    show thesis by (rule compile_unary_cases [OF N un k e1]) (use st d un const unary in \<open>blast+\<close>)
  qed
qed

section \<open>Expressions run\<close>

lemma settlesD: "settles c c' \<Longrightarrow> stays c c' \<and> grows c c' \<and> code_len c' = code_len c \<and> c_stack_depth c' = c_stack_depth c \<and> c_max_stack c' = c_max_stack c"
  by (simp add: settles_def stays_def code_len_bytes)

lemma op_effects:
  "(k, op) \<in> operators \<Longrightarrow> op_pops op = 2 \<and> op_pushes op = 1"
  "op = OP_NEG \<or> op = OP_NOT \<Longrightarrow> op_pops op = 1 \<and> op_pushes op = 1"
  by (auto simp: operators_def binary_ops_def compare_ops_def)

lemma no_error_back:
  assumes "compile_node d g n c = Ret ((), c')" "\<not> c_had_error c'" "arrays_ok c"
  shows "\<not> c_had_error c" "arrays_ok c'"
  using ck.keepsD [OF ck_node assms(3,1)] assms(2,3) by (auto simp: arrays_ok_def more_errors_def)

text \<open>Without running anything: only code, constants and debug entries are added, and the simulated stack is one higher.\<close>

lemma compile_expr_static:
  assumes "pure_nodes g N" "n \<in> N" "compile_node d g n c = Ret ((), c')" "\<not> c_had_error c'" "c_enclosing c = []" "arrays_ok c"
  shows "stays c c' \<and> c_stack_depth c' = c_stack_depth c + 1 \<and> c_stack_depth c' \<le> c_max_stack c'"
  using assms(2-)
proof (induction d arbitrary: n c c')
  case 0
  then show ?case by (simp add: ilift_def)
next
  case (Suc d)
  from assms(1) Suc.prems(1-4) show ?case
  proof (cases rule: compile_pure_cases)
    case (const c1 kc v)
    then show ?thesis using settlesD [OF const(4)] stays_trans by (auto simp: pushes_const_def)
  next
    case (var c1 x sl)
    then show ?thesis
      using settlesD [OF var(5)] emit_op_u16 [of OP_LOAD_LOCAL sl c c1] stays_trans by (auto simp: emit_local_def)
  next
    case (binary d' ls rs op c1 c2 c3)
    note e = emit_op_Ret [OF binary(8)] and st = settlesD [OF binary(9)] and o = op_effects(1) [OF binary(4)]
    have a1: "arrays_ok c1" using ck.keepsD [OF ck_node Suc.prems(5) binary(6)] by blast
    have e2: "\<not> c_had_error c2" using e(1) st Suc.prems(3) by (simp add: stays_def)
    note e1 = no_error_back [OF binary(7) e2 a1]
    have l: "stays c c1 \<and> c_stack_depth c1 = c_stack_depth c + 1 \<and> c_stack_depth c1 \<le> c_max_stack c1"
      using Suc.IH [of ls c c1] binary(1,2,6) e1(1) Suc.prems(4,5) by simp
    then have "c_enclosing c1 = []" using staysD [of c c1] Suc.prems(4) by simp
    then have r: "stays c1 c2 \<and> c_stack_depth c2 = c_stack_depth c1 + 1 \<and> c_stack_depth c2 \<le> c_max_stack c2"
      using Suc.IH [of rs c1 c2] binary(1,3,7) e2 a1 by simp
    have "stays c c'" using l r e(1) st stays_trans by blast
    then show ?thesis using l r e st o by simp
  next
    case (unary d' src op c1 c2)
    note e = emit_op_Ret [OF unary(6)] and st = settlesD [OF unary(7)]
    have "\<not> c_had_error c1" using e(1) st Suc.prems(3) by (simp add: stays_def)
    then have l: "stays c c1 \<and> c_stack_depth c1 = c_stack_depth c + 1 \<and> c_stack_depth c1 \<le> c_max_stack c1"
      using Suc.IH [of src c c1] unary(1,2,5) Suc.prems(4,5) by simp
    have "stays c c'" using l e(1) st stays_trans by blast
    then show ?thesis using l e st op_effects(2) [of op] unary(3) by auto
  qed
qed

text \<open>The operands that hold the variables the interpreter finds: a variable found in both environments has the same value.\<close>

definition vars_held :: "LocalVar list \<Rightarrow> Interp \<Rightarrow> ArcVm \<Rightarrow> bool" where
  "vars_held ls s vm \<longleftrightarrow>
     (\<forall>x sl i. find_rev ls x (length ls) = Ret (Some sl) \<longrightarrow> find_from (i_vars s) x (frame_base (i_frames s)) (length (i_vars s)) = Ret (Some i) \<longrightarrow>
        local_at vm sl < length (operands vm) \<and> operands vm ! local_at vm sl = snd (i_vars s ! i) \<and> scalar (snd (i_vars s ! i)))"

lemma local_at_moved: "moved vm n vm' \<Longrightarrow> local_at vm' sl = local_at vm sl"
  using movedD [of vm n vm'] by (simp add: local_at_def)

lemma vars_held_push:
  "vars_held ls s vm \<Longrightarrow> moved vm n vm' \<Longrightarrow> operands vm' = operands vm @ xs \<Longrightarrow> vars_held ls s vm'"
  unfolding vars_held_def by (simp add: local_at_moved nth_append) (meson trans_less_add1)

text \<open>The machine's stack has room for what the compiler has counted.\<close>

definition fits :: "Compiler \<Rightarrow> Compiler \<Rightarrow> ArcVm \<Rightarrow> bool" where
  "fits c c' vm \<longleftrightarrow> int (length (operands vm)) - c_stack_depth c + c_max_stack c' \<le> int ARC_STACK_MAX"

lemma fits_room: "fits c c' vm \<Longrightarrow> c_stack_depth c + 1 \<le> c_max_stack c' \<Longrightarrow> length (operands vm) < ARC_STACK_MAX"
  by (simp add: fits_def)

text \<open>The machine is about to execute what the compiler emits from \<open>c\<close> on.\<close>

definition ready :: "ArcBytecodeImage \<Rightarrow> Compiler \<Rightarrow> Compiler \<Rightarrow> Interp \<Rightarrow> world \<Rightarrow> ArcVm \<Rightarrow> bool" where
  "ready img c c' s w vm \<longleftrightarrow> placed img c c' \<and> now w = Some vm \<and> runs vm \<and> ip vm = of_nat (code_len c) \<and> fp vm \<noteq> 0 \<and>
     vars_held (c_locals c) s vm \<and> fits c c' vm"

definition pushes :: "libc \<Rightarrow> ArcBytecodeImage \<Rightarrow> world \<Rightarrow> ArcVm \<Rightarrow> Compiler \<Rightarrow> ArcValue \<Rightarrow> bool" where
  "pushes lc img w vm c' v \<longleftrightarrow> (\<exists>vm'. reaches lc img w (upd w vm') \<and> moved vm (code_len c') vm' \<and> operands vm' = operands vm @ [v])"

lemma pushes_const_runs:
  assumes r: "ready img c c' s w vm" and p: "pushes_const c kc c1" "const_value kc = Some v" and st: "settles c1 c'"
  shows "pushes lc img w vm c' v"
proof -
  note r' = r [unfolded ready_def] and st' = settlesD [OF st]
  obtain i where i: "emitted c c1 = op_byte OP_CONST # le_u16 (of_nat i)" "i < length (pool_of c1)" "pool_of c1 ! i = kc"
    and c1: "stays c c1" "c_stack_depth c1 = c_stack_depth c + 1" "c_stack_depth c1 \<le> c_max_stack c1" using p(1) by (auto simp: pushes_const_def)
  have g: "grows c c1" "grows c1 c'" using c1(1) st' by (auto simp: stays_def)
  have pl: "placed img c c1" using placed_split [OF g] r' by blast
  then obtain r where r: "items (img_constants img) = pool_of c1 @ r" "length (items (img_constants img)) \<le> 2 ^ 16"
    by (auto simp: placed_def prefix_def)
  have k: "i < length (items (img_constants img))" "i < 2 ^ 16" "const_value (items (img_constants img) ! i) = Some v"
    using r i p(2) by (auto simp: nth_append)
  have room: "length (operands vm) < ARC_STACK_MAX" using fits_room [of c c' vm] r' c1 st' by simp
  have code: "code_at img (code_len c) (op_byte OP_CONST # le_u16 (of_nat i))" using pl i(1) by (simp add: placed_def)
  have len: "code_len c' = code_len c + 3" using code_len_emitted [OF g(1)] st' i(1) by simp
  show ?thesis
    using run_const [OF _ _ _ code k room, of w lc] r' len by (auto simp: pushes_def)
qed

lemma pushes_load_runs:
  assumes r: "ready img c c' s w vm" and l: "find_rev (c_locals c) x (length (c_locals c)) = Ret (Some sl)" "emit_local OP_LOAD_LOCAL sl c = Ret ((), c1)"
    and st: "settles c1 c'" and v: "find_from (i_vars s) x (frame_base (i_frames s)) (length (i_vars s)) = Ret (Some i)"
  shows "pushes lc img w vm c' (snd (i_vars s ! i)) \<and> scalar (snd (i_vars s ! i))"
proof -
  note r' = r [unfolded ready_def] and st' = settlesD [OF st] and e = emit_op_u16 [OF l(2) [unfolded emit_local_def], simplified]
  have g: "grows c c1" "grows c1 c'" using e(1) st' by (auto simp: stays_def)
  have code: "code_at img (code_len c) (op_byte OP_LOAD_LOCAL # le_u16 sl)" using placed_split(1) [OF g] r' e(2) by (simp add: placed_def)
  have h: "local_at vm sl < length (operands vm)" "operands vm ! local_at vm sl = snd (i_vars s ! i)" "scalar (snd (i_vars s ! i))"
    using r' l(1) v unfolding vars_held_def by blast+
  have room: "length (operands vm) < ARC_STACK_MAX" using fits_room [of c c' vm] r' e(3,4) st' by simp
  have len: "code_len c' = code_len c + 3" using code_len_emitted [OF g(1)] st' e(2) by simp
  show ?thesis using run_load [OF _ _ _ code _ h(1) room, of w lc] r' len h(2,3) by (auto simp: pushes_def)
qed

lemma ready_sub:
  assumes "ready img c c' s w vm" "grows c c1" "grows c1 c'"
  shows "ready img c c1 s w vm"
proof -
  have "c_max_stack c1 \<le> c_max_stack c'" using assms(3) by (simp add: grows_def)
  then show ?thesis using assms(1) placed_split [OF assms(2,3)] unfolding ready_def fits_def by fastforce
qed

text \<open>After a push the machine is ready for what follows.\<close>

lemma ready_next:
  assumes r: "ready img c c' s w vm" and g: "grows c c1" "grows c1 c'" "c_locals c1 = c_locals c" "c_stack_depth c1 = c_stack_depth c + 1"
    and m: "moved vm (code_len c1) vm'" "operands vm' = operands vm @ [v]"
  shows "ready img c1 c' s (upd w vm') vm'"
  using r placed_split(2) [OF g(1,2)] movedD [OF m(1)] vars_held_push [OF _ m] g(3,4) m(2)
  unfolding ready_def fits_def by auto

lemma pushes_binary_runs:
  assumes r: "ready img c c' s w vm" and l: "pushes lc img w vm c1 a" "scalar a"
    and rh: "\<And>w' vm'. ready img c1 c2 s w' vm' \<Longrightarrow> scalar b \<and> pushes lc img w' vm' c2 b"
    and s1: "stays c c1" "c_stack_depth c1 = c_stack_depth c + 1" and s2: "stays c1 c2" and e: "emit_op op c2 = Ret ((), c3)" "settles c3 c'"
    and k: "(k, op) \<in> operators" "binary_value k a b s = Ret (v, s)" "\<not> i_had_error s"
  shows "pushes lc img w vm c' v"
proof -
  note r' = r [unfolded ready_def] and e1 = emit_op_Ret [OF e(1)] and st = settlesD [OF e(2)]
  have g: "grows c c1" "grows c1 c2" "grows c2 c3" "grows c3 c'" using s1(1) s2 e1(1) st by (auto simp: stays_def)
  have g1: "grows c1 c'" and g2: "grows c2 c'" using g grows_trans by blast+
  obtain vm1 where 1: "reaches lc img w (upd w vm1)" "moved vm (code_len c1) vm1" "operands vm1 = operands vm @ [a]"
    using l(1) by (auto simp: pushes_def)
  have rd: "ready img c1 c' s (upd w vm1) vm1"
    using ready_next [OF r g(1) g1 _ s1(2) 1(2,3)] s1(1) by (simp add: stays_def)
  from rh [OF ready_sub [OF rd g(2) g2]] obtain vm2 where sb: "scalar b" and 2: "reaches lc img (upd w vm1) (upd w vm2)"
    "moved vm1 (code_len c2) vm2" "operands vm2 = operands vm @ [a, b]" using r' 1(3) by (auto simp: pushes_def)
  have code: "code_at img (code_len c2) [op_byte op]"
    using placed_split(1) [OF g(3,4)] placed_split(2) [OF grows_trans [OF g(1,2)] g2] r' e1(2) by (auto simp: placed_def)
  have kk: "(k, op) \<in> binary_ops \<and> arith_value k a b s = Ret (v, s) \<or> (k, op) \<in> compare_ops \<and> comparison_value k a b s = Ret (v, s)"
    using k(1,2) binary_value_ops by (auto simp: operators_def)
  have w2: "now (upd w vm2) = Some vm2" "runs vm2" "ip vm2 = of_nat (code_len c2)" using r' movedD [OF 2(2)] by auto
  obtain vm3 where 3: "reaches lc img (upd w vm2) (upd w vm3)" "moved vm2 (Suc (code_len c2)) vm3" "operands vm3 = operands vm @ [v]"
    using run_binary [OF w2 code 2(3) l(2) sb kk k(3) k(3), of lc] r' by auto
  have len: "code_len c' = Suc (code_len c2)" using code_len_emitted [OF g(3)] st e1(2) by simp
  have "reaches lc img w (upd w vm3)" using 1(1) 2(1) 3(1) reaches_trans by blast
  moreover have "moved vm (code_len c') vm3" using moved_trans [OF moved_trans [OF 1(2) 2(2)] 3(2)] len by simp
  ultimately show ?thesis using 3(3) by (auto simp: pushes_def)
qed

lemma pushes_unary_runs:
  assumes r: "ready img c c' s w vm" and l: "pushes lc img w vm c1 a"
    and s1: "stays c c1" "c_stack_depth c1 = c_stack_depth c + 1" and e: "emit_op op c1 = Ret ((), c2)" "settles c2 c'"
    and k: "k = ARC_NODE_NEG \<and> op = OP_NEG \<or> k = ARC_NODE_NOT \<and> op = OP_NOT" "unary_value k a s = Ret (v, s)" "\<not> i_had_error s"
  shows "pushes lc img w vm c' v"
proof -
  note r' = r [unfolded ready_def] and e1 = emit_op_Ret [OF e(1)] and st = settlesD [OF e(2)]
  have g: "grows c c1" "grows c1 c2" "grows c2 c'" using s1(1) e1(1) st by (auto simp: stays_def)
  have g1: "grows c1 c'" using g grows_trans by blast
  obtain vm1 where 1: "reaches lc img w (upd w vm1)" "moved vm (code_len c1) vm1" "operands vm1 = operands vm @ [a]"
    using l(1) by (auto simp: pushes_def)
  have code: "code_at img (code_len c1) [op_byte op]"
    using placed_split(1) [OF g(2,3)] placed_split(2) [OF g(1) g1] r' e1(2) by (auto simp: placed_def)
  have kk: "op = OP_NEG \<and> neg_value a s = Ret (v, s) \<or> op = OP_NOT \<and> v = VAL_BOOL (\<not> arc_val_is_truthy a)"
    using k(1,2) by (auto simp: unary_value_def iret_def)
  have w1: "now (upd w vm1) = Some vm1" "runs vm1" "ip vm1 = of_nat (code_len c1)" using r' movedD [OF 1(2)] by auto
  obtain vm2 where 2: "reaches lc img (upd w vm1) (upd w vm2)" "moved vm1 (Suc (code_len c1)) vm2" "operands vm2 = operands vm @ [v]"
    using run_unary [OF w1 code 1(3) kk k(3), of lc] r' by auto
  have len: "code_len c' = Suc (code_len c1)" using code_len_emitted [OF g(2)] st e1(2) by simp
  have "reaches lc img w (upd w vm2)" using 1(1) 2(1) reaches_trans by blast
  moreover have "moved vm (code_len c') vm2" using moved_trans [OF 1(2) 2(2)] len by simp
  ultimately show ?thesis using 2(3) by (auto simp: pushes_def)
qed

lemma eval_var:
  assumes "eval_node e fmt g n s = Ret (v, s')" "\<not> i_had_error s'" "\<not> i_returned s" "kind (nodes g ! n) = ARC_NODE_VAR_REF"
    "attr_name (attr (nodes g ! n)) = Ret x"
  obtains i where "find_from (i_vars s) x (frame_base (i_frames s)) (length (i_vars s)) = Ret (Some i)" "v = snd (i_vars s ! i)" "s' = s"
proof -
  obtain d where "eval_kind (eval_node d fmt g) (exec_region_stmts d fmt g) g n (nodes g ! n) s = Ret (v, s')"
    by (rule eval_node_Ret [OF assms(1-3)])
  then have "get_var x s = Ret (v, s')" using assms(4,5) by (simp add: eval_kind_def ibind_def ilift_def)
  then obtain idx where idx: "find_from (i_vars s) x (frame_base (i_frames s)) (length (i_vars s)) = Ret idx"
    "(case idx of Some i \<Rightarrow> iget (\<lambda>s. snd (i_vars s ! i))
      | None \<Rightarrow> (case x of None \<Rightarrow> ilift Undef | Some name \<Rightarrow> ierr_null (''undefined variable '' @ [CHR 0x27] @ name @ [CHR 0x27]))) s = Ret (v, s')"
    by (auto simp: get_var_def ibind_Ret find_var_def ilift_def andthen_Ret)
  show thesis
  proof (cases idx)
    case None
    then show thesis using idx(2) assms(2) by (auto simp: ilift_def dest: ierr_null_fails split: option.splits)
  next
    case (Some i)
    have "v = snd (i_vars s ! i)" "s' = s" using idx(2) unfolding Some iget_def by auto
    then show thesis using that idx(1) Some by blast
  qed
qed

lemma compile_expr_runs:
  assumes "pure_nodes g N" "n \<in> N" "compile_node d g n c = Ret ((), c')" "\<not> c_had_error c'" "c_enclosing c = []" "arrays_ok c"
    "eval_node e fmt g n s = Ret (v, s')" "\<not> i_had_error s'" "\<not> i_returned s"
  shows "s' = s \<and> (ready img c c' s w vm \<longrightarrow> scalar v \<and> pushes lc img w vm c' v)"
  using assms(2-)
proof (induction d arbitrary: n c c' e v s' w vm)
  case 0
  then show ?case by (simp add: ilift_def)
next
  case (Suc d)
  from assms(1) Suc.prems(1-4) show ?case
  proof (cases rule: compile_pure_cases)
    case (const c1 kc v0)
    have v: "v = v0 \<and> s' = s" by (rule meansD [OF const(3) Suc.prems(6-8)])
    have "scalar v0" using const(2) by (cases kc) (auto simp: scalar_def)
    then show ?thesis using pushes_const_runs [OF _ const(1,2,4)] v by blast
  next
    case (var c1 x sl)
    obtain i where "find_from (i_vars s) x (frame_base (i_frames s)) (length (i_vars s)) = Ret (Some i)" "v = snd (i_vars s ! i)" "s' = s"
      by (rule eval_var [OF Suc.prems(6-8) var(1,2)])
    then show ?thesis using pushes_load_runs [OF _ var(3,4,5)] by blast
  next
    case (binary d' ls rs op c1 c2 c3)
    have d: "d' = d" using binary(1) by simp
    have a1: "arrays_ok c1" using ck.keepsD [OF ck_node Suc.prems(5) binary(6)] by blast
    have e2: "\<not> c_had_error c2" using emit_op_Ret(1) [OF binary(8)] settlesD [OF binary(9)] Suc.prems(3) by (simp add: stays_def)
    note e = e2 a1 no_error_back(1) [OF binary(7) e2 a1]
    have l: "stays c c1 \<and> c_stack_depth c1 = c_stack_depth c + 1 \<and> c_stack_depth c1 \<le> c_max_stack c1"
      by (rule compile_expr_static [OF assms(1) binary(2,6) e(3) Suc.prems(4,5)])
    then have en: "c_enclosing c1 = []" using staysD [of c c1] Suc.prems(4) by simp
    have r: "stays c1 c2" using compile_expr_static [OF assms(1) binary(3,7) e(1) en e(2)] by simp
    obtain d0 a s1 b s2 where ev: "eval_node d0 fmt g ls s = Ret (a, s1)" "eval_node d0 fmt g rs s1 = Ret (b, s2)"
      "binary_value (kind (nodes g ! n)) a b s2 = Ret (v, s')" using binary(5) Suc.prems(6-8) unfolding computes2_def by blast
    have s2: "s2 = s'" "scalar v" using operators_state(1) [OF ev(3) Suc.prems(7)] by simp_all
    have s1: "s1 = s" using Suc.IH [OF binary(2) binary(6) [unfolded d] e(3) Suc.prems(4,5) ev(1)] eval_no_error [OF ev(2)] s2 Suc.prems(7,8) by blast
    have ih2: "s2 = s1 \<and> (ready img c1 c2 s w' vm' \<longrightarrow> scalar b \<and> pushes lc img w' vm' c2 b)" for w' vm'
      using Suc.IH [OF binary(3) binary(7) [unfolded d] e(1) en e(2) ev(2) [unfolded s1]] s2 s1 Suc.prems(7,8) by blast
    have "grows c1 c2" "grows c2 c3" "grows c3 c'" using r emit_op_Ret(1) [OF binary(8)] settlesD [OF binary(9)] by (simp_all add: stays_def)
    then have g: "grows c c1" "grows c1 c'" using l grows_trans by (simp add: stays_def, blast)
    show ?thesis
    proof (intro conjI impI s2(2))
      show "s' = s" using s1 s2 ih2 by simp
      assume rd: "ready img c c' s w vm"
      have ih1: "scalar a \<and> pushes lc img w vm c1 a"
        using Suc.IH [OF binary(2) binary(6) [unfolded d] e(3) Suc.prems(4,5) ev(1)] ready_sub [OF rd g] s1 s2 ih2 Suc.prems(7,8) by simp
      have bv: "binary_value (kind (nodes g ! n)) a b s = Ret (v, s)" "\<not> i_had_error s" using ev(3) s1 s2 ih2 Suc.prems(7) by simp_all
      show "pushes lc img w vm c' v"
        by (rule pushes_binary_runs [OF rd _ _ _ _ _ r binary(8,9,4) bv]) (use ih1 ih2 l in blast)+
    qed
  next
    case (unary d' src op c1 c2)
    have d: "d' = d" using unary(1) by simp
    have e1: "\<not> c_had_error c1" using emit_op_Ret(1) [OF unary(6)] settlesD [OF unary(7)] Suc.prems(3) by (simp add: stays_def)
    have l: "stays c c1 \<and> c_stack_depth c1 = c_stack_depth c + 1 \<and> c_stack_depth c1 \<le> c_max_stack c1"
      by (rule compile_expr_static [OF assms(1) unary(2,5) e1 Suc.prems(4,5)])
    obtain d0 a s1 where ev: "eval_node d0 fmt g src s = Ret (a, s1)" "unary_value (kind (nodes g ! n)) a s1 = Ret (v, s')"
      using unary(4) Suc.prems(6-8) unfolding computes1_def by blast
    have s1: "s1 = s'" "scalar v" using operators_state(2) [OF ev(2) Suc.prems(7)] by simp_all
    have ih: "s1 = s \<and> (ready img c c1 s w vm \<longrightarrow> scalar a \<and> pushes lc img w vm c1 a)"
      using Suc.IH [OF unary(2) unary(5) [unfolded d] e1 Suc.prems(4,5) ev(1)] s1 Suc.prems(7,8) by blast
    have "grows c1 c2" "grows c2 c'" using emit_op_Ret(1) [OF unary(6)] settlesD [OF unary(7)] by (simp_all add: stays_def)
    then have g: "grows c c1" "grows c1 c'" using l grows_trans by (simp add: stays_def, blast)
    have uv: "unary_value (kind (nodes g ! n)) a s = Ret (v, s)" "\<not> i_had_error s" using ev(2) s1 ih Suc.prems(7) by simp_all
    have "pushes lc img w vm c' v" if rd: "ready img c c' s w vm"
      by (rule pushes_unary_runs [OF rd _ _ _ unary(6,7,3) uv]) (use ih ready_sub [OF rd g] l in blast)+
    then show ?thesis using s1 ih by simp
  qed
qed

end
