(* ===== verification/Compile_Stmt.thy ===== *)
theory Compile_Stmt
  imports Compile_Expr
begin

text \<open>
  Compiled statements: \<^verbatim>\<open>LET\<close>, \<^verbatim>\<open>ASSIGN\<close>, \<^verbatim>\<open>PRINT\<close>, \<^verbatim>\<open>IF\<close> and \<^verbatim>\<open>WHILE\<close> over the
  expressions of \<open>Compile_Expr\<close>, nested in any way. Each name is introduced once: the interpreter lets a second \<^verbatim>\<open>LET\<close> of a
  name overwrite the first, the compiler gives it a slot of its own.
\<close>

section \<open>Jumps\<close>

lemma sint_offset:
  assumes "a < 2 ^ 31" "b < 2 ^ 31"
  shows "sint (of_nat a - of_nat b :: u32) = int a - int b"
proof -
  have "(of_nat a - of_nat b :: u32) = of_int (int a - int b)" by simp
  then have "sint (of_nat a - of_nat b :: u32) = sint (of_int (int a - int b) :: u32)" by (simp only:)
  also have "\<dots> = int a - int b" using assms by (simp del: of_int_diff add: signed_of_int signed_take_bit_int_eq_self)
  finally show ?thesis .
qed

lemma run_goto:
  assumes "now w = Some vm" "ip vm = of_nat m" "m < 2 ^ 31" "t < 2 ^ 31" "off = of_nat t - of_nat m"
  shows "vm_jump off w = VRet () (upd w (vm\<lparr>ip := of_nat t\<rparr>))"
proof -
  have "sint (of_nat m :: u32) = int m" using sint_offset [of m 0] assms(3) by simp
  then have "sint (ip vm) + sint off = int t" using sint_offset [OF assms(4,3)] assms(2,5) by simp
  then have "ip_plus (ip vm) off w' = VRet (of_nat t) w'" for w' using assms(4) by (simp add: ip_plus_def Let_def vret_def)
  then show ?thesis using assms(1) by (simp add: vm_jump_def vbind_def run_cur run_setcur)
qed

lemma code_at_end: "code_at img n bs \<Longrightarrow> n + length bs < 2 ^ 31"
  by (simp add: code_at_def)

lemma moved_ip: "runs vm \<Longrightarrow> moved vm t (vm\<lparr>ip := of_nat t\<rparr>)"
  by (simp add: moved_def same_but_stack_def)

lemma run_jump:
  assumes "now w = Some vm" "runs vm" "ip vm = of_nat n" "code_at img n (op_byte OP_JUMP # le_u32 off)" "off = of_nat t - of_nat (n + 5)" "t < 2 ^ 31"
  shows "reaches lc img w (upd w (vm\<lparr>ip := of_nat t\<rparr>))"
proof -
  have c: "code_at img (Suc n) (le_u32 off)" using assms(4) code_at_Cons by blast
  have m: "n + 5 < 2 ^ 31" using code_at_end [OF assms(4)] by (simp add: le_u32_def)
  note r = run_read_i32 [of "upd w (vm\<lparr>ip := of_nat (Suc n)\<rparr>)" "vm\<lparr>ip := of_nat (Suc n)\<rparr>", OF _ _ c]
  have n5: "Suc n + 4 = n + 5" "5 + n = n + 5" by simp_all
  have "vm_jump off (upd w (vm\<lparr>ip := of_nat (n + 5)\<rparr>)) = VRet () (upd w (vm\<lparr>ip := of_nat t\<rparr>))"
    using run_goto [of "upd w (vm\<lparr>ip := of_nat (n + 5)\<rparr>)" _ "n + 5" t off] assms(1,5,6) m by simp
  then have "vm_dispatch lc img (op_byte OP_JUMP) (of_nat n) (upd w (vm\<lparr>ip := of_nat (Suc n)\<rparr>)) = VRet () (upd w (vm\<lparr>ip := of_nat t\<rparr>))"
    using assms(1) by (simp add: vm_dispatch_def vm_exec_branch_def r n5 del: op_byte.simps of_nat_Suc of_nat_add)
  then show ?thesis by (rule reaches_at [OF assms(1-4)])
qed

text \<open>A conditional jump pops the condition.\<close>

lemma run_jump_if_false:
  assumes "now w = Some vm" "runs vm" "ip vm = of_nat n" "code_at img n (op_byte OP_JUMP_IF_FALSE # le_u32 off)" "off = of_nat t - of_nat (n + 5)" "t < 2 ^ 31"
    and o: "operands vm = xs @ [v]"
  shows "\<exists>vm'. reaches lc img w (upd w vm') \<and> moved vm (if arc_val_is_truthy v then n + 5 else t) vm' \<and> operands vm' = xs"
proof -
  have c: "code_at img (Suc n) (le_u32 off)" using assms(4) code_at_Cons by blast
  have m: "n + 5 < 2 ^ 31" using code_at_end [OF assms(4)] by (simp add: le_u32_def)
  note r = run_read_i32 [of "upd w (vm\<lparr>ip := of_nat (Suc n)\<rparr>)" "vm\<lparr>ip := of_nat (Suc n)\<rparr>", OF _ _ c]
  have n5: "Suc n + 4 = n + 5" "5 + n = n + 5" by simp_all
  let ?u = "vm\<lparr>ip := of_nat (n + 5)\<rparr>" and ?t = "vm\<lparr>ip := of_nat (n + 5), sp := sp vm - 1\<rparr>"
  have u: "now (upd w ?u) = Some ?u" "vm_wf ?u" "operands ?u = xs @ [v]" using assms o by (auto simp: runs_def vm_wf_def)
  have p: "vm_pop (upd w ?u) = VRet v (upd w ?t)" using run_pop_snoc [OF u] assms(1) by simp
  have t: "runs ?t" "operands ?t = xs" using operands_snoc [OF u(2,3)] u(2) assms(2) by (auto simp: runs_def vm_wf_def)
  have j: "vm_jump off (upd w ?t) = VRet () (upd w (?t\<lparr>ip := of_nat t\<rparr>))"
    using run_goto [of "upd w ?t" ?t "n + 5" t off] assms(1,5,6) m by simp
  have e: "vm\<lparr>sp := sp vm - 1, ip := of_nat (n + 5)\<rparr> = ?t" by (rule ArcVm.equality) simp_all
  let ?e = "if arc_val_is_truthy v then n + 5 else t"
  have "vm_dispatch lc img (op_byte OP_JUMP_IF_FALSE) (of_nat n) (upd w (vm\<lparr>ip := of_nat (Suc n)\<rparr>)) = VRet () (upd w (?t\<lparr>ip := of_nat ?e\<rparr>))"
    using assms(1) j by (simp add: vm_dispatch_def vm_exec_branch_def r n5 run_bind [of vm_pop, OF p] vret_def e del: op_byte.simps of_nat_Suc of_nat_add)
  then have "reaches lc img w (upd w (?t\<lparr>ip := of_nat ?e\<rparr>))" by (rule reaches_at [OF assms(1-4)])
  moreover have "moved vm ?e (?t\<lparr>ip := of_nat ?e\<rparr>)" using t(1) by (simp add: moved_def same_but_stack_def runs_def vm_wf_def)
  moreover have "operands (?t\<lparr>ip := of_nat ?e\<rparr>) = xs" using t(2) by (simp only: operands_ip)
  ultimately show ?thesis by blast
qed

section \<open>Storing and printing\<close>

lemma run_store:
  assumes "now w = Some vm" "runs vm" "ip vm = of_nat n" "code_at img n (op_byte OP_STORE_LOCAL # le_u16 sl)"
    "fp vm \<noteq> 0" "operands vm = xs @ [v]" "local_at vm sl < length xs"
  shows "\<exists>vm'. reaches lc img w (upd w vm') \<and> moved vm (n + 3) vm' \<and> operands vm' = xs[local_at vm sl := v]"
proof -
  have n3: "Suc (Suc (Suc n)) = n + 3" by simp
  let ?u = "vm\<lparr>ip := of_nat (n + 3)\<rparr>" and ?t = "vm\<lparr>ip := of_nat (n + 3), sp := sp vm - 1\<rparr>"
  let ?s = "?t\<lparr>stack := (stack vm)[local_at vm sl := v]\<rparr>"
  have c: "code_at img (Suc n) (le_u16 sl)" using assms(4) code_at_Cons by blast
  note r = run_read_u16 [of "upd w (vm\<lparr>ip := of_nat (Suc n)\<rparr>)" "vm\<lparr>ip := of_nat (Suc n)\<rparr>", OF _ _ c]
  have u: "now (upd w ?u) = Some ?u" "vm_wf ?u" "operands ?u = xs @ [v]" using assms by (auto simp: runs_def vm_wf_def)
  have p: "vm_pop (upd w ?u) = VRet v (upd w ?t)" using run_pop_snoc [OF u] assms(1) by simp
  note o = operands_snoc [OF u(2,3)]
  have t: "vm_wf ?t" "operands ?t = xs" "now (upd w ?t) = Some ?t" using o u(2) assms(1) by (auto simp: vm_wf_def)
  have f: "vbind top_frame k (upd w ?t) = k (frames vm ! unat (fp vm - 1)) (upd w ?t)" for k
    using run_top_frame [OF t(3,1), of k] assms(5) by simp
  have lt: "local_at vm sl < ARC_STACK_MAX" using assms(7) o(2,4) by simp
  then have s: "stack_put (base_slot (frames vm ! unat (fp vm - 1)) + ucast sl) v (upd w ?t) = VRet () (upd w ?s)"
    using assms(1) by (simp add: stack_put_def vbind_def vguard_def vret_def run_modcur local_at_def)
  have "vm_dispatch lc img (op_byte OP_STORE_LOCAL) (of_nat n) (upd w (vm\<lparr>ip := of_nat (Suc n)\<rparr>)) = VRet () (upd w ?s)"
    using assms(1) s by (simp add: vm_dispatch_def vm_exec_stack_local_global_def r n3 run_bind [of vm_pop, OF p] f del: op_byte.simps of_nat_Suc of_nat_add)
  then have "reaches lc img w (upd w ?s)" by (rule reaches_at [OF assms(1-4)])
  moreover have "vm_wf ?s" using t(1) by (simp add: vm_wf_def)
  then have "moved vm (n + 3) ?s" by (intro movedI assms(2)) (simp_all add: same_but_stack_def)
  moreover have "operands ?s = xs[local_at vm sl := v]" using t(2) assms(7) by (auto simp: operands_def take_update_swap)
  ultimately show ?thesis by blast
qed

text \<open>Text appended to an output stream.\<close>

definition says :: "world \<Rightarrow> nat \<Rightarrow> string \<Rightarrow> world" where
  "says w out t = w\<lparr>streams := (streams w)(out := streams w out @ t)\<rparr>"

lemma now_says [simp]: "now (says w out t) = now w"
  by (simp add: now_def says_def get_vm_def split: list.splits option.splits)

lemma put_vm_says: "put_vm (says w out t) i vm = says (put_vm w i vm) out t"
  by (simp add: put_vm_def says_def split: option.splits ArcObject.splits)

lemma upd_says [simp]: "upd (says w out t) vm = says (upd w vm) out t"
  by (simp add: upd_def put_vm_says) (simp add: says_def)

lemma streams_upd [simp]: "streams (upd w vm) = streams w"
  by (simp add: upd_def put_vm_def split: option.splits ArcObject.splits)

lemma says_says [simp]: "says (says w out t) out t' = says w out (t @ t')"
  by (simp add: says_def)

lemma run_with_cur: "now w = Some vm \<Longrightarrow> vbind cur k w = k vm w"
  by (simp add: vbind_def run_cur)

lemma run_print_to: "vbind (print_to out t) k w = k () (says w out t)"
  by (simp add: vbind_def print_to_def says_def)

lemma print_scalar: "scalar v \<Longrightarrow> arc_val_print f g d v = print_value f (\<lambda>_. Undef) v"
  by (cases v) (simp_all add: scalar_def arc_val_print_def print_value_def)

lemma run_intr_print:
  assumes w: "now w = Some vm" "vm_wf vm" "operands vm = xs @ [v]" and v: "scalar v" "print_value (fmt_g lc) (\<lambda>_. Undef) v = Ret t"
  shows "vm_intr_print lc 1 w = VRet () (says (upd w (vm\<lparr>sp := sp vm - 1\<rparr>)) (out_stream vm) (t @ [CHR 0x0A]))"
proof -
  note o = operands_snoc [OF w(2,3)]
  have st: "vbind (stack_at (sp vm - 1)) k w = k v w" for k :: "ArcValue \<Rightarrow> unit vmM"
    using o w(1) by (simp add: stack_at_def vbind_def run_cur vguard_def vret_def)
  have "print_args lc 1 0 (Suc 0) w = VRet () (says w (out_stream vm) t)"
    using w(1) v by (simp add: run_with_cur st run_heap print_scalar vlift_def run_print_to vret_def vbind_def [of "\<lambda>w. VRet _ w"])
  note a = run_bind [of "print_args lc 1 0 (Suc 0)", OF this]
  show ?thesis
    using w(1) by (simp add: vm_intr_print_def a run_with_cur [of _ vm] run_print_to run_setcur del: print_args.simps)
qed

lemma intrinsic_print: "intrinsic_of_id (intrinsic_number ARC_INTRINSIC_PRINT) = Some ARC_INTRINSIC_PRINT"
  by (simp add: intrinsic_number_def ARC_INTRINSICS_def intrinsic_of_id_def)

lemma run_print:
  assumes "now w = Some vm" "runs vm" "ip vm = of_nat n" "operands vm = xs @ [v]" "scalar v" "print_value (fmt_g lc) (\<lambda>_. Undef) v = Ret t"
    and c: "code_at img n (op_byte OP_INTRINSIC # le_u16 (intrinsic_number ARC_INTRINSIC_PRINT) @ [1, 0])"
  shows "\<exists>vm'. reaches lc img w (says (upd w vm') (out_stream vm) (t @ [CHR 0x0A])) \<and> moved vm (n + 5) vm' \<and> operands vm' = xs"
proof -
  let ?i = "intrinsic_number ARC_INTRINSIC_PRINT" and ?v = "vm\<lparr>ip := of_nat (Suc n)\<rparr>" and ?u = "vm\<lparr>ip := of_nat (n + 5)\<rparr>"
  let ?t = "vm\<lparr>ip := of_nat (n + 5), sp := sp vm - 1\<rparr>"
  have c1: "code_at img (Suc n) (le_u16 ?i @ [1, 0])" using c code_at_Cons by blast
  then have c2: "code_at img (Suc n) (le_u16 ?i)" "code_at img (Suc n + 2) [1, 0]" by (simp_all add: code_at_append)
  have "img_code img ! (Suc n + 2) = 1" using code_at_nth [OF c2(2), of 0] by simp
  then have at: "call_at img ?v ?i 1"
    using code_at_u16 [OF c2(1)] c1 by (simp add: call_at_def code_at_def del: of_nat_Suc)
  have n5: "ip ?v + 4 = of_nat (n + 5)" by simp
  have r: "vbind (vm_read_u16 img) (\<lambda>f. vbind (vm_read_byte img) (\<lambda>a. vbind (vm_read_byte img) (\<lambda>_. k f a))) (upd w ?v) = k ?i 1 (upd w ?u)"
    for k :: "u16 \<Rightarrow> u8 \<Rightarrow> unit vmM"
    using run_call_operands [of "upd w ?v" ?v, OF _ at, of k] assms(1) n5 by (simp add: add.commute)
  have u: "now (upd w ?u) = Some ?u" "vm_wf ?u" "operands ?u = xs @ [v]" using assms by (auto simp: runs_def vm_wf_def)
  note o = operands_snoc [OF u(2,3)]
  have "vm_dispatch lc img (op_byte OP_INTRINSIC) (of_nat n) (upd w ?v) = VRet () (says (upd w ?t) (out_stream vm) (t @ [CHR 0x0A]))"
    using assms(1) run_intr_print [OF u assms(5,6)] intrinsic_print
    by (simp add: vm_dispatch_def vm_exec_intrinsic_def r del: op_byte.simps of_nat_Suc of_nat_add)
  then have "reaches lc img w (says (upd w ?t) (out_stream vm) (t @ [CHR 0x0A]))" by (rule reaches_at [OF assms(1-3) c])
  moreover have "vm_wf ?t" "operands ?t = xs" using o u(2) by (auto simp: vm_wf_def)
  moreover from this have "moved vm (n + 5) ?t" by (intro movedI assms(2)) (simp_all add: same_but_stack_def)
  ultimately show ?thesis by blast
qed

section \<open>The fragment\<close>

text \<open>The node behind the input of a statement, for a value (the port may be called \<^verbatim>\<open>in\<close>) and for a condition.\<close>

definition value_from :: "ArcGraph \<Rightarrow> ArcNodeId \<Rightarrow> ArcNodeId \<Rightarrow> bool" where
  "value_from g n m \<longleftrightarrow> m \<noteq> ARC_INVALID_ID \<and> (\<exists>p1 p. find_port_by_role g n ''value'' ARC_PORT_INPUT = Ret p1 \<and>
     (p1 \<noteq> ARC_INVALID_ID \<and> p = p1 \<or> p1 = ARC_INVALID_ID \<and> find_port_by_role g n ''in'' ARC_PORT_INPUT = Ret p) \<and>
     p \<noteq> ARC_INVALID_ID \<and> find_source_node g p = Ret m)"

definition cond_from :: "ArcGraph \<Rightarrow> ArcNodeId \<Rightarrow> ArcNodeId \<Rightarrow> bool" where
  "cond_from g n m \<longleftrightarrow> m \<noteq> ARC_INVALID_ID \<and>
     (\<exists>p. find_port_by_role g n ''cond'' ARC_PORT_INPUT = Ret p \<and> p \<noteq> ARC_INVALID_ID \<and> find_source_node g p = Ret m)"

definition stmt_ok :: "ArcGraph \<Rightarrow> ArcNodeId set \<Rightarrow> ArcRegionId set \<Rightarrow> ArcNodeId \<Rightarrow> bool" where
  "stmt_ok g N R n \<longleftrightarrow> n < length (nodes g) \<and>
     (let nd = nodes g ! n; k = kind nd in
      (k = ARC_NODE_LET \<or> k = ARC_NODE_ASSIGN) \<and> (\<exists>x. attr_name (attr nd) = Ret (Some x)) \<and> (\<exists>m \<in> N. value_from g n m) \<or>
      k = ARC_NODE_PRINT \<and> (\<exists>m \<in> N. value_from g n m) \<or>
      k = ARC_NODE_IF \<and> (\<exists>m \<in> N. cond_from g n m) \<and>
        (\<exists>t e. attr_branch (attr nd) = Ret (t, e) \<and> t \<in> insert ARC_INVALID_ID R \<and> e \<in> insert ARC_INVALID_ID R) \<or>
      k = ARC_NODE_WHILE \<and> (\<exists>m \<in> N. cond_from g n m) \<and> (\<exists>b. attr_loop (attr nd) = Ret b \<and> b \<in> insert ARC_INVALID_ID R))"

text \<open>Regions of the fragment: each member is an expression or a statement over expressions and regions of the fragment.\<close>

definition stmt_regions :: "ArcGraph \<Rightarrow> ArcNodeId set \<Rightarrow> ArcRegionId set \<Rightarrow> bool" where
  "stmt_regions g N R \<longleftrightarrow> pure_nodes g N \<and>
     (\<forall>r \<in> R. r < length (regions g) \<and> (\<forall>m \<in> set (members (regions g ! r)). m \<in> N \<or> stmt_ok g N R m))"

section \<open>The code of statements\<close>

lemma value_port_Ret:
  assumes "value_from g n m" "compile_value_port cn g n c = Ret ((), c')"
  shows "cn m c = Ret ((), c')"
proof -
  from assms(1) obtain p1 p where p: "find_port_by_role g n ''value'' ARC_PORT_INPUT = Ret p1" "m \<noteq> ARC_INVALID_ID"
    "p1 \<noteq> ARC_INVALID_ID \<and> p = p1 \<or> p1 = ARC_INVALID_ID \<and> find_port_by_role g n ''in'' ARC_PORT_INPUT = Ret p" "find_source_node g p = Ret m"
    by (auto simp: value_from_def)
  then show ?thesis using assms(2)
    by (cases "p1 = ARC_INVALID_ID") (auto simp: compile_value_port_def compile_if_source_def ibind_def ilift_def iret_def)
qed

lemma cond_Ret: "cond_from g n m \<Longrightarrow> compile_cond cn g n c = Ret ((), c') \<Longrightarrow> cn m c = Ret ((), c')"
  by (auto simp: cond_from_def compile_cond_def role_source_def compile_if_source_def ibind_def ilift_def)

text \<open>Everything but the code and the simulated stack is as before.\<close>

definition recodes :: "Compiler \<Rightarrow> Compiler \<Rightarrow> bool" where
  "recodes c c' \<longleftrightarrow> pool_of c' = pool_of c \<and> c_locals c' = c_locals c \<and> c_enclosing c' = c_enclosing c \<and> c_had_error c' = c_had_error c \<and>
     c_max_stack c \<le> c_max_stack c' \<and> (arrays_ok c \<longrightarrow> arrays_ok c') \<and> img_functions (c_image c') = img_functions (c_image c)"

lemma recodes_trans: "recodes a b \<Longrightarrow> recodes b c \<Longrightarrow> recodes a c"
  by (auto simp: recodes_def)

definition ctx_grows :: "Compiler \<Rightarrow> Compiler \<Rightarrow> bool" where
  "ctx_grows c c' \<longleftrightarrow> prefix (pool_of c) (pool_of c') \<and> prefix (c_locals c) (c_locals c') \<and> c_enclosing c' = c_enclosing c \<and>
     c_max_stack c \<le> c_max_stack c' \<and> (c_had_error c \<longrightarrow> c_had_error c') \<and> img_functions (c_image c') = img_functions (c_image c)"

lemma ctx_grows_trans [trans]: "ctx_grows a b \<Longrightarrow> ctx_grows b c \<Longrightarrow> ctx_grows a c"
  by (auto simp: ctx_grows_def intro: prefix_order.trans)

lemma grows_ctx: "grows c c' \<longleftrightarrow> prefix (cbytes c) (cbytes c') \<and> ctx_grows c c'"
  by (auto simp: grows_def ctx_grows_def)

lemma recodes_ctx: "recodes c c' \<Longrightarrow> ctx_grows c c'"
  by (simp add: recodes_def ctx_grows_def)

lemma patch_jump_Ret:
  assumes "patch_jump pp c = Ret ((), c')" "cbytes c = xs @ z @ ys" "length z = 4" "pp = length xs"
  shows "cbytes c' = xs @ le_u32 (of_nat (length ys)) @ ys" "recodes c c'" "c_stack_depth c' = c_stack_depth c"
proof -
  obtain z0 z1 z2 z3 where z: "z = [z0, z1, z2, z3]" using assms(3) by (auto simp: numeral_eq_Suc length_Suc_conv)
  have off: "(of_nat (length xs + (4 + length ys)) :: u32) - (of_nat (length xs) + 4) = of_nat (length ys)" by simp
  have "cbytes c' = xs @ le_u32 (of_nat (length ys)) @ ys"
    using assms by (auto simp: patch_jump_def ibind_def iget_def imod_def ilift_def code_len_bytes cbytes_def Let_def z off le_u32_def list_update_append
        split: if_splits)
  moreover have "recodes c c'" "c_stack_depth c' = c_stack_depth c"
    using assms(1) by (auto simp: patch_jump_def ibind_def iget_def imod_def ilift_def Let_def recodes_def pool_of_def arrays_ok_def split: if_splits)
  ultimately show "cbytes c' = xs @ le_u32 (of_nat (length ys)) @ ys" "recodes c c'" "c_stack_depth c' = c_stack_depth c" by auto
qed

lemma emit_jump_Ret:
  assumes "emit_jump op c = Ret (pp, c')"
  shows "cbytes c' = cbytes c @ [op_byte op] @ le_u32 0" "pp = code_len c + 1" "recodes c c'"
    "c_stack_depth c' = c_stack_depth c - max 0 (op_pops op) + max 0 (op_pushes op)"
  using assms by (auto simp: emit_jump_def emit_defs cbytes_def code_len_def recodes_def pool_of_def arrays_ok_def)

lemma jump_back_Ret:
  assumes "jump_back t c = Ret ((), c')"
  shows "cbytes c' = cbytes c @ [op_byte OP_JUMP] @ le_u32 (of_nat t - of_nat (code_len c + 5))" "recodes c c'" "c_stack_depth c' = c_stack_depth c"
  using assms by (auto simp: jump_back_def emit_defs cbytes_def code_len_def recodes_def pool_of_def arrays_ok_def add.commute [of "5 :: u32"])

text \<open>A statement adds code and variables, which are numbered in this order, and leaves the simulated stack as high as it was.\<close>

definition numbered :: "LocalVar list \<Rightarrow> bool" where
  "numbered ls \<longleftrightarrow> map snd ls = map of_nat [0..<length ls]"

definition extends :: "Compiler \<Rightarrow> Compiler \<Rightarrow> bool" where
  "extends c c' \<longleftrightarrow> grows c c' \<and> c_stack_depth c' = c_stack_depth c \<and> (numbered (c_locals c) \<longrightarrow> numbered (c_locals c'))"

lemma extends_self [simp]: "extends c c"
  by (simp add: extends_def)

lemma extends_both: "extends a b \<Longrightarrow> extends b c \<Longrightarrow> extends a c"
  using grows_trans [of a b c] by (simp add: extends_def)

lemma emitted_bytes: "grows c c' \<Longrightarrow> cbytes c' = cbytes c @ emitted c c'"
  by (auto simp: grows_def prefix_def emitted_def code_len_bytes)

lemma keeps_forward: "ck.keeps m \<Longrightarrow> arrays_ok c \<Longrightarrow> m c = Ret (x, c') \<Longrightarrow> arrays_ok c'"
  using ck.keepsD [of m c x c'] by simp

lemma keeps_back: "ck.keeps m \<Longrightarrow> arrays_ok c \<Longrightarrow> m c = Ret (x, c') \<Longrightarrow> \<not> c_had_error c' \<Longrightarrow> \<not> c_had_error c"
  using ck.keepsD [of m c x c'] by (auto simp: arrays_ok_def more_errors_def)

text \<open>What is known of the calls that compile conditions, values and nested regions.\<close>

locale parts = compiles cn g for cn :: "ArcNodeId \<Rightarrow> unit cm" and g +
  fixes N :: "ArcNodeId set" and R :: "ArcRegionId set"
  assumes expr: "m \<in> N \<Longrightarrow> cn m c = Ret ((), c') \<Longrightarrow> \<not> c_had_error c' \<Longrightarrow> c_enclosing c = [] \<Longrightarrow> arrays_ok c \<Longrightarrow>
      stays c c' \<and> c_stack_depth c' = c_stack_depth c + 1 \<and> c_stack_depth c' \<le> c_max_stack c'"
    and regn: "r \<in> insert ARC_INVALID_ID R \<Longrightarrow> compile_region_from cn g r 0 c = Ret ((), c') \<Longrightarrow> \<not> c_had_error c' \<Longrightarrow> c_enclosing c = [] \<Longrightarrow>
      arrays_ok c \<Longrightarrow> extends c c'"
begin

lemma if_shape:
  assumes c: "compile_if cn g n nd c = Ret ((), c')" "\<not> c_had_error c'" "c_enclosing c = []" "arrays_ok c"
    and n: "cond_from g n m" "m \<in> N" "attr_branch (attr nd) = Ret (t, e)" "t \<in> insert ARC_INVALID_ID R" "e \<in> insert ARC_INVALID_ID R"
  obtains c1 c2 c3 c4 c5 where "cn m c = Ret ((), c1)" "\<not> c_had_error c1" "stays c c1" "c_stack_depth c1 = c_stack_depth c + 1" "recodes c1 c2"
    "compile_region_from cn g t 0 c2 = Ret ((), c3)" "\<not> c_had_error c3" "extends c2 c3" "recodes c3 c4"
    "compile_region_from cn g e 0 c4 = Ret ((), c5)" "\<not> c_had_error c5" "extends c4 c5" "recodes c5 c'" "arrays_ok c2" "arrays_ok c4"
    "c_stack_depth c2 = c_stack_depth c" "c_stack_depth c4 = c_stack_depth c" "c_stack_depth c' = c_stack_depth c"
    "code_len c2 = code_len c1 + 5" "code_len c4 = code_len c3 + 5"
    "cbytes c' = cbytes c1 @ op_byte OP_JUMP_IF_FALSE # le_u32 (of_nat (length (emitted c2 c3) + 5)) @ emitted c2 c3 @
       op_byte OP_JUMP # le_u32 (of_nat (length (emitted c4 c5))) @ emitted c4 c5"
proof -
  from c(1) obtain c1 c2 c3 c3' c4 c5 ej endj where 1: "compile_cond cn g n c = Ret ((), c1)" "emit_jump OP_JUMP_IF_FALSE c1 = Ret (ej, c2)"
    "compile_region_from cn g t 0 c2 = Ret ((), c3)" "emit_jump OP_JUMP c3 = Ret (endj, c3')" "patch_jump ej c3' = Ret ((), c4)"
    "compile_region_from cn g e 0 c4 = Ret ((), c5)" "patch_jump endj c5 = Ret ((), c')"
    using n(3) by (auto simp: compile_if_def ibind_Ret ilift_def)
  note cn1 = cond_Ret [OF n(1) 1(1)] and j1 = emit_jump_Ret [OF 1(2)] and j2 = emit_jump_Ret [OF 1(4)]
  have a: "arrays_ok c1" "arrays_ok c2" using keeps_forward [OF cn c(4) cn1] j1(3) by (auto simp: recodes_def)
  have a3: "arrays_ok c3" "arrays_ok c3'" using keeps_forward [OF region a(2) 1(3)] j2(3) by (auto simp: recodes_def)
  have a4: "arrays_ok c4" using keeps_forward [OF ck_patch a3(2) 1(5)] .
  have e5: "\<not> c_had_error c5" using keeps_back [OF ck_patch keeps_forward [OF region a4 1(6)] 1(7) c(2)] .
  have e4: "\<not> c_had_error c4" using keeps_back [OF region a4 1(6) e5] .
  have e3: "\<not> c_had_error c3" using keeps_back [OF ck_patch a3(2) 1(5) e4] j2(3) by (simp add: recodes_def)
  have e1: "\<not> c_had_error c1" using keeps_back [OF region a(2) 1(3) e3] j1(3) by (simp add: recodes_def)
  have s1: "stays c c1 \<and> c_stack_depth c1 = c_stack_depth c + 1 \<and> c_stack_depth c1 \<le> c_max_stack c1" by (rule expr [OF n(2) cn1 e1 c(3,4)])
  have en2: "c_enclosing c2 = []" using staysD [of c c1] s1 c(3) j1(3) by (simp add: recodes_def)
  have x3: "extends c2 c3" by (rule regn [OF n(4) 1(3) e3 en2 a(2)])
  have b3: "cbytes c3 = cbytes c2 @ emitted c2 c3" using x3 emitted_bytes by (simp add: extends_def)
  let ?T = "emitted c2 c3" and ?E = "emitted c4 c5"
  let ?F = "cbytes c1 @ [op_byte OP_JUMP_IF_FALSE]" and ?J = "le_u32 (of_nat (length ?T + 5))"
  have b3': "cbytes c3' = ?F @ le_u32 0 @ (?T @ [op_byte OP_JUMP] @ le_u32 0)" using j2(1) b3 j1(1) by simp
  have ej: "ej = length ?F" using j1(2) by (simp add: code_len_bytes)
  note p4 = patch_jump_Ret [OF 1(5) b3' length_le_u32 ej]
  have b4: "cbytes c4 = (?F @ ?J @ ?T @ [op_byte OP_JUMP]) @ le_u32 0 @ []" using p4(1) by (simp add: add.commute)
  have en4: "c_enclosing c4 = []" "c_stack_depth c4 = c_stack_depth c" "recodes c3 c4"
    using p4(2,3) j2(3,4) x3 en2 s1 j1(4) recodes_trans by (auto simp: recodes_def extends_def grows_def)
  have x5: "extends c4 c5" by (rule regn [OF n(5) 1(6) e5 en4(1) a4])
  have b5: "cbytes c5 = (?F @ ?J @ ?T @ [op_byte OP_JUMP]) @ le_u32 0 @ ?E"
    using x5 b4 emitted_bytes [of c4 c5] by (simp add: extends_def)
  have endj: "endj = length (?F @ ?J @ ?T @ [op_byte OP_JUMP])" using j2(2) b3 j1(1) by (simp add: code_len_bytes)
  note p5 = patch_jump_Ret [OF 1(7) b5 length_le_u32 endj]
  show thesis
  proof (rule that [of c1 c2 c3 c4 c5])
    show "cbytes c' = cbytes c1 @ op_byte OP_JUMP_IF_FALSE # ?J @ ?T @ op_byte OP_JUMP # le_u32 (of_nat (length ?E)) @ ?E" using p5(1) by simp
    show "code_len c2 = code_len c1 + 5" using j1(1) by (simp add: code_len_bytes)
    show "code_len c4 = code_len c3 + 5" using b4 b3 j1(1) by (simp add: code_len_bytes)
    show "c_stack_depth c2 = c_stack_depth c" using j1(4) s1 by simp
    show "c_stack_depth c' = c_stack_depth c" using p5(3) x5 en4(2) by (simp add: extends_def)
  qed (use cn1 e1 s1 j1(3) 1(3,6) e3 x3 en4 e5 x5 p5(2) a(2) a4 in auto)
qed

lemma while_shape:
  assumes c: "compile_while cn g n nd c = Ret ((), c')" "\<not> c_had_error c'" "c_enclosing c = []" "arrays_ok c"
    and n: "cond_from g n m" "m \<in> N" "attr_loop (attr nd) = Ret b" "b \<in> insert ARC_INVALID_ID R"
  obtains c1 c2 c3 where "cn m c = Ret ((), c1)" "\<not> c_had_error c1" "stays c c1" "c_stack_depth c1 = c_stack_depth c + 1" "recodes c1 c2"
    "compile_region_from cn g b 0 c2 = Ret ((), c3)" "\<not> c_had_error c3" "extends c2 c3" "recodes c3 c'" "arrays_ok c2"
    "c_stack_depth c2 = c_stack_depth c" "c_stack_depth c' = c_stack_depth c" "code_len c2 = code_len c1 + 5"
    "cbytes c' = cbytes c1 @ op_byte OP_JUMP_IF_FALSE # le_u32 (of_nat (length (emitted c2 c3) + 5)) @ emitted c2 c3 @
       op_byte OP_JUMP # le_u32 (of_nat (code_len c) - of_nat (code_len c3 + 5))"
proof -
  from c(1) obtain c1 c2 c3 c4 ex where 1: "compile_cond cn g n c = Ret ((), c1)" "emit_jump OP_JUMP_IF_FALSE c1 = Ret (ex, c2)"
    "compile_region_from cn g b 0 c2 = Ret ((), c3)" "jump_back (code_len c) c3 = Ret ((), c4)" "patch_jump ex c4 = Ret ((), c')"
    using n(3) by (auto simp: compile_while_def ibind_Ret ilift_def iget_def)
  note cn1 = cond_Ret [OF n(1) 1(1)] and j1 = emit_jump_Ret [OF 1(2)] and j2 = jump_back_Ret [OF 1(4)]
  have a: "arrays_ok c1" "arrays_ok c2" using keeps_forward [OF cn c(4) cn1] j1(3) by (auto simp: recodes_def)
  have a3: "arrays_ok c3" "arrays_ok c4" using keeps_forward [OF region a(2) 1(3)] j2(2) by (auto simp: recodes_def)
  have e3: "\<not> c_had_error c3" using keeps_back [OF ck_patch a3(2) 1(5) c(2)] j2(2) by (simp add: recodes_def)
  have e1: "\<not> c_had_error c1" using keeps_back [OF region a(2) 1(3) e3] j1(3) by (simp add: recodes_def)
  have s1: "stays c c1 \<and> c_stack_depth c1 = c_stack_depth c + 1 \<and> c_stack_depth c1 \<le> c_max_stack c1" by (rule expr [OF n(2) cn1 e1 c(3,4)])
  have en2: "c_enclosing c2 = []" using staysD [of c c1] s1 c(3) j1(3) by (simp add: recodes_def)
  have x3: "extends c2 c3" by (rule regn [OF n(4) 1(3) e3 en2 a(2)])
  have b3: "cbytes c3 = cbytes c2 @ emitted c2 c3" using x3 emitted_bytes by (simp add: extends_def)
  let ?B = "emitted c2 c3" and ?F = "cbytes c1 @ [op_byte OP_JUMP_IF_FALSE]" and ?O = "le_u32 (of_nat (code_len c) - of_nat (code_len c3 + 5))"
  have b4: "cbytes c4 = ?F @ le_u32 0 @ (?B @ [op_byte OP_JUMP] @ ?O)" using j2(1) b3 j1(1) by simp
  have ex: "ex = length ?F" using j1(2) by (simp add: code_len_bytes)
  note p4 = patch_jump_Ret [OF 1(5) b4 length_le_u32 ex]
  show thesis
  proof (rule that [of c1 c2 c3])
    show "cbytes c' = cbytes c1 @ op_byte OP_JUMP_IF_FALSE # le_u32 (of_nat (length ?B + 5)) @ ?B @ op_byte OP_JUMP # ?O"
      using p4(1) by (simp add: add.commute)
    show "code_len c2 = code_len c1 + 5" using j1(1) by (simp add: code_len_bytes)
    show "c_stack_depth c2 = c_stack_depth c" using j1(4) s1 by simp
    show "c_stack_depth c' = c_stack_depth c" using p4(3) j2(3) x3 j1(4) s1 by (simp add: extends_def)
    show "recodes c3 c'" using j2(2) p4(2) recodes_trans by blast
  qed (use cn1 e1 s1 j1(3) 1(3) e3 x3 a(2) in auto)
qed

text \<open>Statements that use one value.\<close>

lemma value_step:
  assumes c: "ibind (compile_value_port cn g n) (\<lambda>_. k) c = Ret ((), c')" "\<not> c_had_error c'" "c_enclosing c = []" "arrays_ok c"
    and n: "value_from g n m" "m \<in> N" and k: "ck.keeps k"
  obtains c1 where "cn m c = Ret ((), c1)" "\<not> c_had_error c1" "stays c c1" "c_stack_depth c1 = c_stack_depth c + 1" "k c1 = Ret ((), c')" "arrays_ok c1"
proof -
  from c(1) obtain c1 where 1: "compile_value_port cn g n c = Ret ((), c1)" "k c1 = Ret ((), c')" by (auto simp: ibind_Ret)
  note cn1 = value_port_Ret [OF n(1) 1(1)]
  have a: "arrays_ok c1" by (rule keeps_forward [OF cn c(4) cn1])
  have e: "\<not> c_had_error c1" by (rule keeps_back [OF k a 1(2) c(2)])
  show thesis using that [OF cn1 e _ _ 1(2) a] expr [OF n(2) cn1 e c(3,4)] by blast
qed

end

text \<open>What follows the value: the variable is stored, or the value is printed.\<close>

definition store_code :: "Compiler \<Rightarrow> u16 \<Rightarrow> Compiler \<Rightarrow> bool" where
  "store_code c sl c' \<longleftrightarrow> cbytes c' = cbytes c @ op_byte OP_STORE_LOCAL # le_u16 sl \<and> pool_of c' = pool_of c \<and> c_enclosing c' = c_enclosing c \<and>
     c_had_error c' = c_had_error c \<and> c_max_stack c \<le> c_max_stack c' \<and> c_stack_depth c' = c_stack_depth c - 1 \<and>
     img_functions (c_image c') = img_functions (c_image c)"

lemma emit_store: "emit_local OP_STORE_LOCAL sl c = Ret ((), c') \<Longrightarrow> store_code c sl c' \<and> c_locals c' = c_locals c"
  by (auto simp: emit_local_def emit_defs store_code_def cbytes_def pool_of_def)

lemma let_tail:
  assumes "ibind (ilift (attr_name a)) (\<lambda>x. ibind (add_local x) (emit_local OP_STORE_LOCAL)) c = Ret ((), c')" "attr_name a = Ret x"
  shows "store_code c (of_nat (length (c_locals c))) c'" "c_locals c' = c_locals c @ [(x, of_nat (length (c_locals c)))]" "length (c_locals c) < 256"
proof -
  let ?sl = "of_nat (length (c_locals c)) :: u16"
  from assms have l: "length (c_locals c) < 256"
    and e: "emit_local OP_STORE_LOCAL ?sl (c\<lparr>c_locals := c_locals c @ [(x, ?sl)]\<rparr>) = Ret ((), c')"
    by (auto simp: add_local_def ibind_def ilift_def iget_def imod_def iret_def split: if_splits)
  from emit_store [OF e] l
  show "store_code c ?sl c'" "c_locals c' = c_locals c @ [(x, ?sl)]" "length (c_locals c) < 256"
    by (simp_all add: store_code_def cbytes_def pool_of_def)
qed

definition assign_code :: "ArcAttr \<Rightarrow> unit cm" where
  "assign_code a = ibind (ilift (attr_name a)) (\<lambda>x. ibind (find_local x) (\<lambda>slot. case slot of
            Some sl \<Rightarrow> emit_local OP_STORE_LOCAL sl
          | None \<Rightarrow> compile_captured x '' in assign'' OP_SET_UPVAL 1 0))"

lemma assign_tail:
  assumes "assign_code a c = Ret ((), c')" "attr_name a = Ret (Some x)" "\<not> c_had_error c'" "c_enclosing c = []"
  obtains sl where "find_rev (c_locals c) (Some x) (length (c_locals c)) = Ret (Some sl)" "store_code c sl c'" "c_locals c' = c_locals c"
proof -
  obtain slot where s: "find_rev (c_locals c) (Some x) (length (c_locals c)) = Ret slot"
    "(case slot of Some sl \<Rightarrow> emit_local OP_STORE_LOCAL sl | None \<Rightarrow> compile_captured (Some x) '' in assign'' OP_SET_UPVAL 1 0) c = Ret ((), c')"
    using assms(1,2) by (auto simp: assign_code_def ibind_Ret ilift_def andthen_Ret find_local_def)
  show thesis
  proof (cases slot)
    case None
    then have "cerr (''undefined '' @ [CHR 0x27] @ x @ [CHR 0x27] @ '' in assign'') c = Ret ((), c')"
      using s(2) assms(4) by (simp add: compile_captured_def ibind_def iget_def iret_def)
    then show thesis using cerr_Ret assms(3) by blast
  next
    case (Some sl)
    then show thesis using that s emit_store by auto
  qed
qed

definition print_bytes :: "u8 list" where
  "print_bytes = op_byte OP_INTRINSIC # le_u16 (intrinsic_number ARC_INTRINSIC_PRINT) @ [1, 0]"

lemma print_tail:
  assumes "emit_print c = Ret ((), c')"
  shows "cbytes c' = cbytes c @ print_bytes" "recodes c c'" "c_stack_depth c' = c_stack_depth c - 1"
  using assms by (auto simp: emit_print_def emit_call_def emit_defs cbytes_def print_bytes_def recodes_def pool_of_def arrays_ok_def)

lemma compile_stmt_kinds:
  "kind nd = ARC_NODE_LET \<Longrightarrow> compile_kind cn g n nd =
     ibind (compile_value_port cn g n) (\<lambda>_. ibind (ilift (attr_name (attr nd))) (\<lambda>x. ibind (add_local x) (emit_local OP_STORE_LOCAL)))"
  "kind nd = ARC_NODE_ASSIGN \<Longrightarrow> compile_kind cn g n nd = ibind (compile_value_port cn g n) (\<lambda>_. assign_code (attr nd))"
  "kind nd = ARC_NODE_PRINT \<Longrightarrow> compile_kind cn g n nd = ibind (compile_value_port cn g n) (\<lambda>_. emit_print)"
  "kind nd = ARC_NODE_IF \<Longrightarrow> compile_kind cn g n nd = compile_if cn g n nd"
  "kind nd = ARC_NODE_WHILE \<Longrightarrow> compile_kind cn g n nd = compile_while cn g n nd"
  by (simp_all add: compile_kind_def compile_stmts_def compile_control_def Let_def assign_code_def)

lemma ck_assign: "ck.keeps (assign_code a)"
  unfolding assign_code_def by (intro ck_emits)

lemma ck_let: "ck.keeps (ibind (ilift (attr_name a)) (\<lambda>x. ibind (add_local x) (emit_local OP_STORE_LOCAL)))"
  by (intro ck_emits)

lemma store_grows: "store_code c sl c' \<Longrightarrow> prefix (c_locals c) (c_locals c') \<Longrightarrow> grows c c' \<and> emitted c c' = op_byte OP_STORE_LOCAL # le_u16 sl"
  by (auto simp: store_code_def grows_def emitted_def code_len_bytes)

section \<open>Statements only add code\<close>

lemma bytes_extend: "cbytes c' = cbytes c1 @ bs \<Longrightarrow> grows c c1 \<Longrightarrow> ctx_grows c1 c' \<Longrightarrow> grows c c'"
  using ctx_grows_trans [of c c1 c'] by (auto simp: grows_ctx prefix_def)

context parts
begin

lemma let_extends:
  assumes c: "compile_kind cn g n nd c = Ret ((), c')" "\<not> c_had_error c'" "c_enclosing c = []" "arrays_ok c"
    and n: "kind nd = ARC_NODE_LET" "attr_name (attr nd) = Ret x" "value_from g n m" "m \<in> N"
  obtains c1 where "cn m c = Ret ((), c1)" "\<not> c_had_error c1" "stays c c1" "c_stack_depth c1 = c_stack_depth c + 1"
    "store_code c1 (of_nat (length (c_locals c))) c'" "c_locals c' = c_locals c @ [(x, of_nat (length (c_locals c)))]" "length (c_locals c) < 256" "extends c c'"
proof -
  obtain c1 where 1: "cn m c = Ret ((), c1)" "\<not> c_had_error c1" "stays c c1" "c_stack_depth c1 = c_stack_depth c + 1"
    "ibind (ilift (attr_name (attr nd))) (\<lambda>x. ibind (add_local x) (emit_local OP_STORE_LOCAL)) c1 = Ret ((), c')"
    by (rule value_step [OF c(1) [unfolded compile_stmt_kinds(1) [OF n(1)]] c(2-4) n(3,4) ck_let])
  note t = let_tail [OF 1(5) n(2)] and l = staysD [OF 1(3)]
  have "extends c c'" using grows_trans [of c c1 c'] l store_grows [OF t(1)] t(1,2) 1(4) by (simp add: extends_def store_code_def numbered_def)
  then show thesis using that 1 t l by simp
qed

lemma assign_extends:
  assumes c: "compile_kind cn g n nd c = Ret ((), c')" "\<not> c_had_error c'" "c_enclosing c = []" "arrays_ok c"
    and n: "kind nd = ARC_NODE_ASSIGN" "attr_name (attr nd) = Ret (Some x)" "value_from g n m" "m \<in> N"
  obtains c1 sl where "cn m c = Ret ((), c1)" "\<not> c_had_error c1" "stays c c1" "c_stack_depth c1 = c_stack_depth c + 1"
    "find_rev (c_locals c) (Some x) (length (c_locals c)) = Ret (Some sl)" "store_code c1 sl c'" "c_locals c' = c_locals c" "extends c c'"
proof -
  obtain c1 where 1: "cn m c = Ret ((), c1)" "\<not> c_had_error c1" "stays c c1" "c_stack_depth c1 = c_stack_depth c + 1" "assign_code (attr nd) c1 = Ret ((), c')"
    by (rule value_step [OF c(1) [unfolded compile_stmt_kinds(2) [OF n(1)]] c(2-4) n(3,4) ck_assign])
  note l = staysD [OF 1(3)]
  obtain sl where t: "find_rev (c_locals c1) (Some x) (length (c_locals c1)) = Ret (Some sl)" "store_code c1 sl c'" "c_locals c' = c_locals c1"
    by (rule assign_tail [OF 1(5) n(2) c(2)]) (use l c(3) in auto)
  have "extends c c'" using grows_trans [of c c1 c'] l store_grows [OF t(2)] t(2,3) 1(4) by (simp add: extends_def store_code_def)
  then show thesis using that 1 t l by simp
qed

lemma print_extends:
  assumes c: "compile_kind cn g n nd c = Ret ((), c')" "\<not> c_had_error c'" "c_enclosing c = []" "arrays_ok c"
    and n: "kind nd = ARC_NODE_PRINT" "value_from g n m" "m \<in> N"
  obtains c1 where "cn m c = Ret ((), c1)" "\<not> c_had_error c1" "stays c c1" "c_stack_depth c1 = c_stack_depth c + 1"
    "cbytes c' = cbytes c1 @ print_bytes" "recodes c1 c'" "extends c c'"
proof -
  obtain c1 where 1: "cn m c = Ret ((), c1)" "\<not> c_had_error c1" "stays c c1" "c_stack_depth c1 = c_stack_depth c + 1" "emit_print c1 = Ret ((), c')"
    by (rule value_step [OF c(1) [unfolded compile_stmt_kinds(3) [OF n(1)]] c(2-4) n(2,3) ck_print])
  note t = print_tail [OF 1(5)] and l = staysD [OF 1(3)]
  have "extends c c'" using bytes_extend [OF t(1) _ recodes_ctx [OF t(2)]] l t(2,3) 1(4) by (simp add: extends_def recodes_def)
  then show thesis using that 1 t by simp
qed

lemma if_extends:
  assumes c: "compile_kind cn g n nd c = Ret ((), c')" "\<not> c_had_error c'" "c_enclosing c = []" "arrays_ok c"
    and n: "kind nd = ARC_NODE_IF" "cond_from g n m" "m \<in> N" "attr_branch (attr nd) = Ret (t, e)" "t \<in> insert ARC_INVALID_ID R" "e \<in> insert ARC_INVALID_ID R"
  shows "extends c c'"
proof (rule if_shape [OF c(1) [unfolded compile_stmt_kinds(4) [OF n(1)]] c(2-4) n(2-6)])
  fix c1 c2 c3 c4 c5 bs
  assume s: "stays c c1" "recodes c1 c2" "extends c2 c3" "recodes c3 c4" "extends c4 c5" "recodes c5 c'" "c_stack_depth c' = c_stack_depth c"
    and b: "cbytes c' = cbytes c1 @ op_byte OP_JUMP_IF_FALSE # le_u32 (of_nat (length (emitted c2 c3) + 5)) @ emitted c2 c3 @
       op_byte OP_JUMP # le_u32 (of_nat (length (emitted c4 c5))) @ emitted c4 c5"
  have "ctx_grows c2 c3" "ctx_grows c4 c5" using s(3,5) by (auto simp: extends_def grows_ctx)
  then have "ctx_grows c1 c'" using s(2,4,6) recodes_ctx ctx_grows_trans by meson
  moreover have "numbered (c_locals c) \<longrightarrow> numbered (c_locals c')" using s(1-6) by (simp add: stays_def recodes_def extends_def)
  ultimately show ?thesis using bytes_extend [OF b] s(1,7) by (simp add: extends_def stays_def)
qed

lemma while_extends:
  assumes c: "compile_kind cn g n nd c = Ret ((), c')" "\<not> c_had_error c'" "c_enclosing c = []" "arrays_ok c"
    and n: "kind nd = ARC_NODE_WHILE" "cond_from g n m" "m \<in> N" "attr_loop (attr nd) = Ret b" "b \<in> insert ARC_INVALID_ID R"
  shows "extends c c'"
proof (rule while_shape [OF c(1) [unfolded compile_stmt_kinds(5) [OF n(1)]] c(2-4) n(2-5)])
  fix c1 c2 c3
  assume s: "stays c c1" "recodes c1 c2" "extends c2 c3" "recodes c3 c'" "c_stack_depth c' = c_stack_depth c"
    and b: "cbytes c' = cbytes c1 @ op_byte OP_JUMP_IF_FALSE # le_u32 (of_nat (length (emitted c2 c3) + 5)) @ emitted c2 c3 @
       op_byte OP_JUMP # le_u32 (of_nat (code_len c) - of_nat (code_len c3 + 5))"
  have "ctx_grows c2 c3" using s(3) by (auto simp: extends_def grows_ctx)
  then have "ctx_grows c1 c'" using s(2,4) recodes_ctx ctx_grows_trans by meson
  moreover have "numbered (c_locals c) \<longrightarrow> numbered (c_locals c')" using s(1-4) by (simp add: stays_def recodes_def extends_def)
  ultimately show ?thesis using bytes_extend [OF b] s(1,5) by (simp add: extends_def stays_def)
qed

end

text \<open>The kinds of statements.\<close>

lemma stmt_ok_cases:
  assumes "stmt_ok g N R n"
  obtains (let_node) x m where "kind (nodes g ! n) = ARC_NODE_LET" "attr_name (attr (nodes g ! n)) = Ret (Some x)" "value_from g n m" "m \<in> N"
  | (assign_node) x m where "kind (nodes g ! n) = ARC_NODE_ASSIGN" "attr_name (attr (nodes g ! n)) = Ret (Some x)" "value_from g n m" "m \<in> N"
  | (print_node) m where "kind (nodes g ! n) = ARC_NODE_PRINT" "value_from g n m" "m \<in> N"
  | (if_node) m t e where "kind (nodes g ! n) = ARC_NODE_IF" "cond_from g n m" "m \<in> N" "attr_branch (attr (nodes g ! n)) = Ret (t, e)"
      "t \<in> insert ARC_INVALID_ID R" "e \<in> insert ARC_INVALID_ID R"
  | (while_node) m b where "kind (nodes g ! n) = ARC_NODE_WHILE" "cond_from g n m" "m \<in> N" "attr_loop (attr (nodes g ! n)) = Ret b" "b \<in> insert ARC_INVALID_ID R"
  using assms unfolding stmt_ok_def Let_def by blast

lemma kind_static:
  assumes p: "parts (compile_node d g) g N R" and n: "stmt_ok g N R n"
    and c: "compile_kind (compile_node d g) g n (nodes g ! n) c = Ret ((), c')" "\<not> c_had_error c'" "c_enclosing c = []" "arrays_ok c"
  shows "extends c c'"
  using n
proof (cases rule: stmt_ok_cases)
  case let_node
  show ?thesis by (rule parts.let_extends [OF p c let_node])
next
  case assign_node
  show ?thesis by (rule parts.assign_extends [OF p c assign_node])
next
  case print_node
  show ?thesis by (rule parts.print_extends [OF p c print_node])
next
  case if_node
  show ?thesis by (rule parts.if_extends [OF p c if_node])
next
  case while_node
  show ?thesis by (rule parts.while_extends [OF p c while_node])
qed

lemma stmt_static:
  assumes p: "parts (compile_node d g) g N R" and n: "stmt_ok g N R n"
    and c: "compile_node (Suc d) g n c = Ret ((), c')" "\<not> c_had_error c'" "c_enclosing c = []" "arrays_ok c"
  shows "extends c c'"
proof -
  have len: "n < length (nodes g)" using n by (simp add: stmt_ok_def)
  obtain c0 where k: "compile_kind (compile_node d g) g n (nodes g ! n) c = Ret ((), c0)" and st: "settles c0 c'"
    by (rule compile_node_Ret [OF c(1) len]) auto
  have "\<not> c_had_error c0" using st c(2) by (simp add: settles_def stays_def)
  then have "extends c c0" by (rule kind_static [OF p n k _ c(3,4)])
  moreover have "extends c0 c'" using settlesD [OF st] by (simp add: extends_def stays_def)
  ultimately show ?thesis using extends_both by blast
qed

lemma skipped_kinds:
  "m \<in> N \<Longrightarrow> pure_nodes g N \<Longrightarrow> is_expr_node (kind (nodes g ! m)) \<and> is_interp_expr (kind (nodes g ! m)) \<and> m < length (nodes g)"
  "stmt_ok g N R m \<Longrightarrow> \<not> is_expr_node (kind (nodes g ! m)) \<and> \<not> is_interp_expr (kind (nodes g ! m)) \<and> kind (nodes g ! m) \<noteq> ARC_NODE_PARAM \<and>
     kind (nodes g ! m) \<noteq> ARC_NODE_FUNC_DEF \<and> kind (nodes g ! m) \<noteq> ARC_NODE_ROOT_OUTPUT \<and> m < length (nodes g)"
proof -
  assume "m \<in> N" "pure_nodes g N"
  from pure_nodesD(1,2) [OF this(2,1)] show "is_expr_node (kind (nodes g ! m)) \<and> is_interp_expr (kind (nodes g ! m)) \<and> m < length (nodes g)"
    by (auto simp: leaf_kind_def operator_kind_def is_expr_node_def is_interp_expr_def)
next
  assume ok: "stmt_ok g N R m"
  then have "m < length (nodes g)" by (simp add: stmt_ok_def)
  with ok show "\<not> is_expr_node (kind (nodes g ! m)) \<and> \<not> is_interp_expr (kind (nodes g ! m)) \<and> kind (nodes g ! m) \<noteq> ARC_NODE_PARAM \<and>
     kind (nodes g ! m) \<noteq> ARC_NODE_FUNC_DEF \<and> kind (nodes g ! m) \<noteq> ARC_NODE_ROOT_OUTPUT \<and> m < length (nodes g)"
    by (cases rule: stmt_ok_cases) (simp_all add: is_expr_node_def is_interp_expr_def)
qed

lemma expr_kind_not_param: "is_expr_node k \<Longrightarrow> k \<noteq> ARC_NODE_PARAM"
  by (auto simp: is_expr_node_def)

text \<open>The members of a region, one at a time: an expression is skipped, a statement is compiled and the rest follows.\<close>

lemma compile_members_Cons:
  assumes "pure_nodes g N" "compile_members cn g (m # ms) c = Ret ((), c')"
  shows "m \<in> N \<Longrightarrow> compile_members cn g ms c = Ret ((), c')"
    "stmt_ok g N R m \<Longrightarrow> \<exists>c1. cn m c = Ret ((), c1) \<and> compile_members cn g ms c1 = Ret ((), c')"
  using assms(2) skipped_kinds(1) [OF _ assms(1)] skipped_kinds(2) [of g N R m]
  by (auto simp: ibind_Ret ilift_def node_at_def)

text \<open>A command that compiles the members of a list: those in \<open>K\<close> are skipped.\<close>

definition sequences :: "(ArcNodeId \<Rightarrow> unit cm) \<Rightarrow> (ArcNodeId \<Rightarrow> bool) \<Rightarrow> ArcNodeId set \<Rightarrow> (ArcNodeId list \<Rightarrow> unit cm) \<Rightarrow> bool" where
  "sequences cn P K cms \<longleftrightarrow> (\<forall>c c'. cms [] c = Ret ((), c') \<longrightarrow> c' = c) \<and>
     (\<forall>m ms c c'. cms (m # ms) c = Ret ((), c') \<longrightarrow> (m \<in> K \<longrightarrow> cms ms c = Ret ((), c')) \<and>
        (P m \<longrightarrow> (\<exists>c1. cn m c = Ret ((), c1) \<and> cms ms c1 = Ret ((), c')))) \<and>
     (\<forall>m. ck.keeps (cn m)) \<and> (\<forall>ms. ck.keeps (cms ms))"

lemma sequences_members:
  assumes "pure_nodes g N" "compiles cn"
  shows "sequences cn (stmt_ok g N R) N (compile_members cn g)"
  unfolding sequences_def
proof (intro conjI allI impI)
  fix m ms c c' assume a: "compile_members cn g (m # ms) c = Ret ((), c')"
  show "compile_members cn g ms c = Ret ((), c')" if "m \<in> N" by (rule compile_members_Cons(1) [OF assms(1) a that])
  show "\<exists>c1. cn m c = Ret ((), c1) \<and> compile_members cn g ms c1 = Ret ((), c')" if "stmt_ok g N R m"
    by (rule compile_members_Cons(2) [OF assms(1) a that])
qed (simp_all add: iret_def compiles.members [OF assms(2)] compiles.cn [OF assms(2)])

lemma sequences_Cons:
  assumes "sequences cn P K cms" "cms (m # ms) c = Ret ((), c')" "P m" "\<not> c_had_error c'" "arrays_ok c"
  obtains c1 where "cn m c = Ret ((), c1)" "cms ms c1 = Ret ((), c')" "\<not> c_had_error c1" "arrays_ok c1"
proof -
  obtain c1 where r: "cn m c = Ret ((), c1)" "cms ms c1 = Ret ((), c')" using assms(1-3) unfolding sequences_def by blast
  have k: "ck.keeps (cn m)" "ck.keeps (cms ms)" using assms(1) unfolding sequences_def by blast+
  have a1: "arrays_ok c1" by (rule keeps_forward [OF k(1) assms(5) r(1)])
  show thesis by (rule that [OF r keeps_back [OF k(2) a1 r(2) assms(4)] a1])
qed

lemma sequences_Nil: "sequences cn P K cms \<Longrightarrow> cms [] c = Ret ((), c') \<Longrightarrow> c' = c"
  unfolding sequences_def by blast

lemma sequences_skip: "sequences cn P K cms \<Longrightarrow> cms (m # ms) c = Ret ((), c') \<Longrightarrow> m \<in> K \<Longrightarrow> cms ms c = Ret ((), c')"
  unfolding sequences_def by blast

lemma sequences_static:
  assumes "sequences cn P K cms" "\<forall>m \<in> set ms. m \<in> K \<or> P m"
    and step: "\<And>m c c'. P m \<Longrightarrow> cn m c = Ret ((), c') \<Longrightarrow> \<not> c_had_error c' \<Longrightarrow> c_enclosing c = [] \<Longrightarrow> arrays_ok c \<Longrightarrow> extends c c'"
    and c: "cms ms c = Ret ((), c')" "\<not> c_had_error c'" "c_enclosing c = []" "arrays_ok c"
  shows "extends c c'"
  using assms(2) c
proof (induction ms arbitrary: c)
  case Nil
  have "c' = c" by (rule sequences_Nil [OF assms(1) Nil.prems(2)])
  then show ?case by simp
next
  case (Cons m ms)
  from Cons.prems(1) consider "m \<in> K" | "P m" by auto
  then show ?case
  proof cases
    case 1
    then show ?thesis using sequences_skip [OF assms(1) Cons.prems(2)] Cons.IH Cons.prems by auto
  next
    case 2
    show ?thesis
    proof (rule sequences_Cons [OF assms(1) Cons.prems(2) 2 Cons.prems(3,5)])
      fix c1 assume r: "cn m c = Ret ((), c1)" "cms ms c1 = Ret ((), c')" "\<not> c_had_error c1" "arrays_ok c1"
      have x: "extends c c1" by (rule step [OF 2 r(1,3) Cons.prems(4,5)])
      then have "c_enclosing c1 = []" using Cons.prems(4) by (simp add: extends_def grows_def)
      then have "extends c1 c'" using Cons.IH [OF _ r(2) Cons.prems(3) _ r(4)] Cons.prems(1) by auto
      with x show ?thesis using extends_both by blast
    qed
  qed
qed

lemma region_from_Ret:
  assumes "compile_region_from cn g r 0 c = Ret ((), c')"
  shows "r = ARC_INVALID_ID \<and> c' = c \<or> r \<noteq> ARC_INVALID_ID \<and> r < length (regions g) \<and> compile_members cn g (members (regions g ! r)) c = Ret ((), c')"
  using assms by (auto simp: compile_region_from_def ibind_Ret ilift_def iret_def region_at_def split: if_splits)

lemma region_static:
  assumes "stmt_regions g N R" "r \<in> insert ARC_INVALID_ID R"
    and "\<And>m c c'. stmt_ok g N R m \<Longrightarrow> cn m c = Ret ((), c') \<Longrightarrow> \<not> c_had_error c' \<Longrightarrow> c_enclosing c = [] \<Longrightarrow> arrays_ok c \<Longrightarrow> extends c c'"
    and "compiles cn"
    and "compile_region_from cn g r 0 c = Ret ((), c')" "\<not> c_had_error c'" "c_enclosing c = []" "arrays_ok c"
  shows "extends c c'"
proof (cases "r = ARC_INVALID_ID")
  case True
  then show ?thesis using region_from_Ret [OF assms(5)] by simp
next
  case False
  then have r: "r \<in> R" "compile_members cn g (members (regions g ! r)) c = Ret ((), c')" using region_from_Ret [OF assms(5)] assms(2) by auto
  have "\<forall>m \<in> set (members (regions g ! r)). m \<in> N \<or> stmt_ok g N R m" "pure_nodes g N" using assms(1) r(1) by (auto simp: stmt_regions_def)
  then show ?thesis by (intro sequences_static [OF sequences_members [OF _ assms(4), of g N R] _ assms(3) r(2) assms(6-8)])
qed

lemma parts_node:
  assumes "stmt_regions g N R"
  shows "parts (compile_node d g) g N R"
proof (induction d)
  case 0
  show ?case
  proof unfold_locales
    fix r c c' assume a: "r \<in> insert ARC_INVALID_ID R" "compile_region_from (compile_node 0 g) g r 0 c = Ret ((), c')" "\<not> c_had_error c'"
      "c_enclosing c = []" "arrays_ok c"
    show "extends c c'" by (rule region_static [OF assms a(1) _ node.compiles_axioms a(2-5)]) (simp add: ilift_def)
  qed (simp_all add: ilift_def)
next
  case (Suc d)
  have pure: "pure_nodes g N" using assms by (simp add: stmt_regions_def)
  show ?case
  proof unfold_locales
    fix m c c' assume "m \<in> N" "compile_node (Suc d) g m c = Ret ((), c')" "\<not> c_had_error c'" "c_enclosing c = []" "arrays_ok c"
    then show "stays c c' \<and> c_stack_depth c' = c_stack_depth c + 1 \<and> c_stack_depth c' \<le> c_max_stack c'" by (rule compile_expr_static [OF pure])
  next
    fix r c c' assume a: "r \<in> insert ARC_INVALID_ID R" "compile_region_from (compile_node (Suc d) g) g r 0 c = Ret ((), c')" "\<not> c_had_error c'"
      "c_enclosing c = []" "arrays_ok c"
    show "extends c c'" by (rule region_static [OF assms a(1) stmt_static [OF Suc.IH] node.compiles_axioms a(2-5)])
  qed
qed

section \<open>Variables\<close>

text \<open>The index of a variable the interpreter finds.\<close>

definition ifind :: "Interp \<Rightarrow> string option \<Rightarrow> nat option outcome" where
  "ifind s x = find_from (i_vars s) x (frame_base (i_frames s)) (length (i_vars s))"

lemma c_streq_True: "c_streq a b = Ret True \<Longrightarrow> a = b"
  by (auto simp: c_streq_def split: option.splits)

lemma find_from_sound: "find_from vs y b n = Ret (Some i) \<Longrightarrow> i < n \<and> fst (vs ! i) = y"
  by (induction n) (auto simp: andthen_Ret dest: c_streq_True split: if_splits)

lemma find_from_names: "map fst vs = map fst vs' \<Longrightarrow> n \<le> length vs \<Longrightarrow> find_from vs y b n = find_from vs' y b n"
proof (induction n)
  case 0
  then show ?case by simp
next
  case (Suc n)
  then have "length vs = length vs'" by (metis length_map)
  then have e: "fst (vs ! n) = fst (vs' ! n)" using Suc.prems by (metis Suc_le_lessD nth_map)
  have "find_from vs y b n = find_from vs' y b n" using Suc by simp
  then show ?case by (simp only: find_from.simps e)
qed

lemma find_from_append: "n \<le> length vs \<Longrightarrow> find_from (vs @ zs) y b n = find_from vs y b n"
proof (induction n)
  case 0
  then show ?case by simp
next
  case (Suc n)
  then have "find_from (vs @ zs) y b n = find_from vs y b n" "(vs @ zs) ! n = vs ! n" by (simp_all add: nth_append)
  then show ?case by (simp only: find_from.simps)
qed

text \<open>Assigning \<open>v\<close> to the variable \<open>x\<close>: what is found afterwards.\<close>

definition assigns :: "Interp \<Rightarrow> string \<Rightarrow> ArcValue \<Rightarrow> Interp \<Rightarrow> bool" where
  "assigns s x v s' \<longleftrightarrow> i_output s' = i_output s \<and> i_returned s' = i_returned s \<and>
     (\<forall>y i. ifind s' y = Ret (Some i) \<longrightarrow> y = Some x \<and> snd (i_vars s' ! i) = v \<or>
        y \<noteq> Some x \<and> (\<exists>j. ifind s y = Ret (Some j) \<and> snd (i_vars s' ! i) = snd (i_vars s ! j)))"

lemma put_var_assigns:
  assumes "ifind s (Some x) = Ret (Some i)" "put_var i v s = Ret ((), s')"
  shows "assigns s x v s'"
proof -
  have s': "s' = s\<lparr>i_vars := (i_vars s)[i := (fst (i_vars s ! i), v)]\<rparr>" using assms(2) by (simp add: put_var_def imod_def)
  have i: "i < length (i_vars s)" "fst (i_vars s ! i) = Some x" using find_from_sound [OF assms(1) [unfolded ifind_def]] by auto
  have "map fst (i_vars s') = map fst (i_vars s)" using i by (simp add: s' map_update list_update_same_conv)
  then have f: "ifind s' y = ifind s y" for y using find_from_names [of "i_vars s'" "i_vars s"] by (simp add: ifind_def s')
  show ?thesis
    unfolding assigns_def
  proof (intro conjI allI impI)
    fix y j assume j: "ifind s' y = Ret (Some j)"
    then have "j < length (i_vars s)" "fst (i_vars s ! j) = y" "ifind s y = Ret (Some j)"
      using f find_from_sound by (auto simp: ifind_def s')
    then show "y = Some x \<and> snd (i_vars s' ! j) = v \<or> y \<noteq> Some x \<and> (\<exists>k. ifind s y = Ret (Some k) \<and> snd (i_vars s' ! j) = snd (i_vars s ! k))"
      using assms(1) i by (cases "j = i") (auto simp: s')
  qed (simp_all add: s')
qed

lemma set_var_assigns:
  assumes "set_var (Some x) v s = Ret ((), s')" "\<not> i_had_error s'"
  shows "assigns s x v s'"
proof -
  obtain idx where idx: "ifind s (Some x) = Ret idx"
    "(case idx of Some i \<Rightarrow> put_var i v
      | None \<Rightarrow> ibind (iget (length \<circ> i_vars)) (\<lambda>n. if ARC_INTERP_VARS_MAX \<le> n then ierr ''too many variables''
          else imod (\<lambda>s. s\<lparr>i_vars := i_vars s @ [(Some x, v)]\<rparr>))) s = Ret ((), s')"
    using assms(1) by (auto simp: set_var_def ibind_Ret find_var_def ilift_def andthen_Ret ifind_def)
  show ?thesis
  proof (cases idx)
    case (Some i)
    then show ?thesis using put_var_assigns idx by auto
  next
    case None
    then have s': "s' = s\<lparr>i_vars := i_vars s @ [(Some x, v)]\<rparr>"
      using idx(2) assms(2) by (auto simp: ibind_def iget_def imod_def ierr_def split: if_splits)
    have "ifind s' y = Ret (Some i) \<Longrightarrow> y = Some x \<and> i = length (i_vars s) \<or> y \<noteq> Some x \<and> ifind s y = Ret (Some i)" for y i
      by (auto simp: ifind_def s' find_from_append andthen_Ret c_streq_def split: if_splits option.splits)
    moreover have "ifind s y = Ret (Some i) \<Longrightarrow> i < length (i_vars s)" for y i using find_from_sound by (auto simp: ifind_def)
    ultimately show ?thesis unfolding assigns_def by (fastforce simp: s' nth_append)
  qed
qed

section \<open>The machine and the interpreter side by side\<close>

text \<open>The slots of a function, one for each name, in the order of their introduction.\<close>

definition slots_ok :: "LocalVar list \<Rightarrow> bool" where
  "slots_ok L \<longleftrightarrow> distinct (map fst L) \<and> distinct (map snd L)"

definition frame_ok :: "LocalVar list \<Rightarrow> ArcVm \<Rightarrow> bool" where
  "frame_ok L vm \<longleftrightarrow> (\<forall>(x, sl) \<in> set L. local_at vm sl < length (operands vm))"

definition held :: "LocalVar list \<Rightarrow> Interp \<Rightarrow> ArcVm \<Rightarrow> bool" where
  "held L s vm \<longleftrightarrow> (\<forall>x i. ifind s x = Ret (Some i) \<longrightarrow>
     (\<exists>sl. (x, sl) \<in> set L \<and> operands vm ! local_at vm sl = snd (i_vars s ! i) \<and> scalar (snd (i_vars s ! i))))"

lemma find_rev_sound: "find_rev ls x n = Ret (Some sl) \<Longrightarrow> n \<le> length ls \<Longrightarrow> (x, sl) \<in> set ls"
proof (induction n)
  case 0
  then show ?case by simp
next
  case (Suc n)
  have "(fst (ls ! n), snd (ls ! n)) \<in> set ls" using Suc.prems(2) by (metis Suc_le_lessD nth_mem prod.collapse)
  then show ?case using Suc by (auto simp: andthen_Ret dest: c_streq_True split: if_splits)
qed

lemma distinct_fst_eq: "distinct (map fst L) \<Longrightarrow> (x, a) \<in> set L \<Longrightarrow> (x, b) \<in> set L \<Longrightarrow> a = b"
  by (metis map_of_eq_Some_iff option.inject)

lemma held_vars:
  assumes "held L s vm" "frame_ok L vm" "slots_ok L" "prefix ls L"
  shows "vars_held ls s vm"
  unfolding vars_held_def
proof (intro allI impI)
  fix x sl i
  assume f: "find_rev ls x (length ls) = Ret (Some sl)" "find_from (i_vars s) x (frame_base (i_frames s)) (length (i_vars s)) = Ret (Some i)"
  have m: "(x, sl) \<in> set L" using find_rev_sound [OF f(1)] assms(4) by (auto dest: set_mono_prefix)
  obtain sl' where h: "(x, sl') \<in> set L" "operands vm ! local_at vm sl' = snd (i_vars s ! i)" "scalar (snd (i_vars s ! i))"
    using assms(1) f(2) unfolding held_def ifind_def by blast
  have "sl' = sl" using distinct_fst_eq assms(3) h(1) m by (auto simp: slots_ok_def)
  then show "local_at vm sl < length (operands vm) \<and> operands vm ! local_at vm sl = snd (i_vars s ! i) \<and> scalar (snd (i_vars s ! i))"
    using h m assms(2) by (auto simp: frame_ok_def)
qed

end
