(* ===== verification/Compile_Sim.thy ===== *)
theory Compile_Sim
  imports Compile_Stmt
begin

text \<open>
  The code of statements does what the interpreter does: a simulation between the interpreter's state and a machine that
  executes the code, by induction over the interpreter's recursion.
\<close>

section \<open>Before and after a statement\<close>

definition at_stmt :: "ArcBytecodeImage \<Rightarrow> LocalVar list \<Rightarrow> Compiler \<Rightarrow> Compiler \<Rightarrow> Interp \<Rightarrow> world \<Rightarrow> ArcVm \<Rightarrow> bool" where
  "at_stmt img L c c' s w vm \<longleftrightarrow> placed img c c' \<and> now w = Some vm \<and> runs vm \<and> ip vm = of_nat (code_len c) \<and> fp vm \<noteq> 0 \<and>
     slots_ok L \<and> frame_ok L vm \<and> held L s vm \<and> prefix (c_locals c') L \<and> fits c c' vm \<and> \<not> i_returned s"

definition does :: "libc \<Rightarrow> ArcBytecodeImage \<Rightarrow> LocalVar list \<Rightarrow> nat \<Rightarrow> Interp \<Rightarrow> Interp \<Rightarrow> world \<Rightarrow> ArcVm \<Rightarrow> bool" where
  "does lc img L n s s' w vm \<longleftrightarrow> (\<exists>vm' t. reaches lc img w (says (upd w vm') (out_stream vm) t) \<and> moved vm n vm' \<and>
     length (operands vm') = length (operands vm) \<and> held L s' vm' \<and> i_output s' = i_output s @ t \<and> \<not> i_returned s')"

lemma upd_now: "now w = Some vm \<Longrightarrow> upd w vm = w"
  unfolding now_def upd_def get_vm_def put_vm_def
  by (auto simp: put_same split: list.splits option.splits ArcObject.splits intro: world.equality)

lemma moved_self: "runs vm \<Longrightarrow> ip vm = of_nat n \<Longrightarrow> moved vm n vm"
  using moved_ip [of vm n] by (cases vm) simp

lemma says_nil [simp]: "says w out [] = w"
  by (simp add: says_def)

lemma moved_out: "moved vm n vm' \<Longrightarrow> out_stream vm' = out_stream vm"
  using same_but_stack_flags [of "vm\<lparr>ip := of_nat n\<rparr>" vm'] by (simp add: moved_def)

lemma does_trans:
  assumes w: "now w = Some vm" and d: "does lc img L n s s1 w vm"
    and rest: "\<And>w1 vm1. \<lbrakk>now w1 = Some vm1; moved vm n vm1; length (operands vm1) = length (operands vm); held L s1 vm1; \<not> i_returned s1\<rbrakk> \<Longrightarrow>
      does lc img L n' s1 s2 w1 vm1"
  shows "does lc img L n' s s2 w vm"
proof -
  obtain vm1 t where 1: "reaches lc img w (says (upd w vm1) (out_stream vm) t)" "moved vm n vm1" "length (operands vm1) = length (operands vm)"
    "held L s1 vm1" "i_output s1 = i_output s @ t" "\<not> i_returned s1" using d by (auto simp: does_def)
  have n1: "now (says (upd w vm1) (out_stream vm) t) = Some vm1" using w by simp
  obtain vm2 t2 where 2: "reaches lc img (says (upd w vm1) (out_stream vm) t) (says (upd (says (upd w vm1) (out_stream vm) t) vm2) (out_stream vm1) t2)"
    "moved vm1 n' vm2" "length (operands vm2) = length (operands vm1)" "held L s2 vm2" "i_output s2 = i_output s1 @ t2" "\<not> i_returned s2"
    using rest [OF n1 1(2-4,6)] by (auto simp: does_def)
  have "reaches lc img w (says (upd w vm2) (out_stream vm) (t @ t2))"
    using reaches_trans [OF 1(1) 2(1)] w moved_out [OF 1(2)] by simp
  then show ?thesis using moved_trans [OF 1(2) 2(2)] 1 2 unfolding does_def by (intro exI [of _ vm2] exI [of _ "t @ t2"]) simp
qed

lemma does_quiet:
  assumes "reaches lc img w (upd w vm')" "moved vm n vm'" "length (operands vm') = length (operands vm)" "held L s' vm'"
    "i_output s' = i_output s" "\<not> i_returned s'"
  shows "does lc img L n s s' w vm"
  unfolding does_def using assms by (intro exI [of _ vm'] exI [of _ "[]"]) simp

lemma does_silent:
  assumes w: "now w = Some vm" and r: "reaches lc img w (upd w vm1)" "moved vm n vm1" "operands vm1 = operands vm"
    and rest: "does lc img L n' s s' (upd w vm1) vm1"
  shows "does lc img L n' s s' w vm"
proof -
  obtain vm2 t2 where 2: "reaches lc img (upd w vm1) (says (upd (upd w vm1) vm2) (out_stream vm1) t2)"
    "moved vm1 n' vm2" "length (operands vm2) = length (operands vm1)" "held L s' vm2" "i_output s' = i_output s @ t2" "\<not> i_returned s'"
    using rest by (auto simp: does_def)
  have "reaches lc img w (says (upd w vm2) (out_stream vm) t2)"
    using reaches_trans [OF r(1) 2(1)] w moved_out [OF r(2)] by simp
  then show ?thesis using moved_trans [OF r(2) 2(2)] 2 r(3) unfolding does_def by (intro exI [of _ vm2] exI [of _ t2]) simp
qed

lemma frame_ok_moved: "frame_ok L vm \<Longrightarrow> moved vm n vm' \<Longrightarrow> length (operands vm') = length (operands vm) \<Longrightarrow> frame_ok L vm'"
  by (auto simp: frame_ok_def local_at_moved)

lemma held_same: "held L s vm \<Longrightarrow> moved vm n vm' \<Longrightarrow> operands vm' = operands vm \<Longrightarrow> held L s vm'"
  by (auto simp: held_def local_at_moved)

text \<open>Part of the code, at its beginning or after the first statement.\<close>

lemma at_stmt_sub:
  assumes "at_stmt img L c c' s w vm" "grows c c1" "grows c1 c'"
  shows "at_stmt img L c c1 s w vm"
proof -
  have "c_max_stack c1 \<le> c_max_stack c'" "prefix (c_locals c1) (c_locals c')" using assms(3) by (simp_all add: grows_def)
  then show ?thesis using assms(1) placed_split [OF assms(2,3)] unfolding at_stmt_def fits_def by (auto intro: prefix_order.trans)
qed

lemma at_stmt_next:
  assumes a: "at_stmt img L c c' s w vm" and g: "extends c c1" "grows c1 c'"
    and v: "now w1 = Some vm1" "moved vm (code_len c1) vm1" "length (operands vm1) = length (operands vm)" "held L s1 vm1" "\<not> i_returned s1"
  shows "at_stmt img L c1 c' s1 w1 vm1"
  using a v placed_split(2) [of c c1 c' img] g movedD [OF v(2)] frame_ok_moved [OF _ v(2,3)]
  unfolding at_stmt_def fits_def extends_def by auto

lemma at_stmt_ready:
  assumes a: "at_stmt img L c c' s w vm" and g: "grows c c1" "grows c1 c'"
  shows "ready img c c1 s w vm"
proof -
  note s = at_stmt_sub [OF a g, unfolded at_stmt_def]
  have "prefix (c_locals c) L" using s g(1) by (auto simp: grows_def intro: prefix_order.trans)
  then show ?thesis using s held_vars [of L s vm "c_locals c"] unfolding ready_def by blast
qed

section \<open>Statements with a value\<close>

text \<open>The interpreter evaluates the node behind the port.\<close>

lemma eval_value_from: "value_from g n m \<Longrightarrow> eval_input ev g n ''value'' s = Ret (v, s') \<Longrightarrow> ev m s = Ret (v, s')"
  unfolding value_from_def using eval_input_Ret [of ev g n "''value''" s v s'] by blast

lemma eval_cond_from: "cond_from g n m \<Longrightarrow> eval_input ev g n ''cond'' s = Ret (v, s') \<Longrightarrow> ev m s = Ret (v, s')"
  unfolding cond_from_def using eval_input_Ret [of ev g n "''cond''" s v s'] by blast

lemma set_var_error: "set_var x v s = Ret ((), s') \<Longrightarrow> \<not> i_had_error s' \<Longrightarrow> \<not> i_had_error s"
  by (auto simp: set_var_def ibind_Ret find_var_def ilift_def andthen_Ret put_var_def imod_def iget_def ierr_def split: option.splits if_splits)

lemma ucast_inj: "(ucast (a :: u16) :: u32) = ucast b \<longleftrightarrow> a = b"
proof -
  have u: "(ucast (ucast x :: u32) :: u16) = x" for x by (rule ucast_up_ucast_id) (simp add: is_up source_size target_size word_size)
  show ?thesis using u [of a] u [of b] by metis
qed

lemma held_store:
  assumes h: "held L s vm" and L: "slots_ok L" "frame_ok L vm" "(Some x, sl) \<in> set L" and a: "assigns s x v s'" "scalar v"
    and o: "moved vm n vm'" "operands vm' = (operands vm)[local_at vm sl := v]"
  shows "held L s' vm'"
  unfolding held_def
proof (intro allI impI)
  fix y i assume i: "ifind s' y = Ret (Some i)"
  consider "y = Some x" "snd (i_vars s' ! i) = v" | j where "y \<noteq> Some x" "ifind s y = Ret (Some j)" "snd (i_vars s' ! i) = snd (i_vars s ! j)"
    using a(1) i unfolding assigns_def by blast
  then show "\<exists>sl. (y, sl) \<in> set L \<and> operands vm' ! local_at vm' sl = snd (i_vars s' ! i) \<and> scalar (snd (i_vars s' ! i))"
  proof cases
    case 1
    have "local_at vm sl < length (operands vm)" using L(2,3) by (auto simp: frame_ok_def)
    then show ?thesis using 1 L(3) a(2) o by (intro exI [of _ sl]) (simp add: local_at_moved)
  next
    case 2
    then obtain sl' where sl': "(y, sl') \<in> set L" "operands vm ! local_at vm sl' = snd (i_vars s ! j)" "scalar (snd (i_vars s ! j))"
      using h unfolding held_def by blast
    have "sl' \<noteq> sl"
    proof
      assume "sl' = sl"
      then have "(sl, y) \<in> set (map (\<lambda>(a, b). (b, a)) L)" "(sl, Some x) \<in> set (map (\<lambda>(a, b). (b, a)) L)" using sl'(1) L(3) by force+
      moreover have "distinct (map fst (map (\<lambda>(a, b). (b, a)) L))" using L(1) by (simp add: slots_ok_def comp_def split_def)
      ultimately show False using distinct_fst_eq 2(1) by metis
    qed
    then have "local_at vm sl' \<noteq> local_at vm sl" by (simp add: local_at_def ucast_inj flip: word_unat_eq_iff)
    then show ?thesis using sl' 2(3) o by (intro exI [of _ sl']) (simp add: local_at_moved)
  qed
qed

text \<open>After the value: the store.\<close>

lemma store_does:
  assumes a: "at_stmt img L c c' s w vm" and p: "pushes lc img w vm c1 v" "scalar v" "stays c c1"
    and st: "store_code c1 sl c'" "prefix (c_locals c1) (c_locals c')" "(Some x, sl) \<in> set L" and s: "assigns s x v s'"
  shows "does lc img L (code_len c') s s' w vm"
proof -
  note a' = a [unfolded at_stmt_def] and g = store_grows [OF st(1,2)]
  have g1: "grows c c1" using p(3) by (simp add: stays_def)
  have code: "code_at img (code_len c1) (op_byte OP_STORE_LOCAL # le_u16 sl)"
    using placed_split(2) [OF g1 conjunct1 [OF g]] a' g by (simp add: placed_def)
  have len: "code_len c' = code_len c1 + 3" using code_len_emitted [OF conjunct1 [OF g]] g by simp
  obtain vm1 where 1: "reaches lc img w (upd w vm1)" "moved vm (code_len c1) vm1" "operands vm1 = operands vm @ [v]"
    using p(1) by (auto simp: pushes_def)
  have l: "local_at vm1 sl < length (operands vm)" using a' st(3) by (auto simp: frame_ok_def local_at_moved [OF 1(2)])
  have w1: "now (upd w vm1) = Some vm1" "runs vm1" "ip vm1 = of_nat (code_len c1)" "fp vm1 \<noteq> 0" using a' movedD [OF 1(2)] by auto
  obtain vm2 where 2: "reaches lc img (upd w vm1) (upd w vm2)" "moved vm1 (code_len c1 + 3) vm2" "operands vm2 = (operands vm)[local_at vm1 sl := v]"
    using run_store [OF w1(1-3) code w1(4) 1(3) l, of lc] a' by auto
  have mv: "moved vm (code_len c') vm2" using moved_trans [OF 1(2) 2(2)] len by simp
  have o: "operands vm2 = (operands vm)[local_at vm sl := v]" using 2(3) local_at_moved [OF 1(2)] by simp
  have "held L s' vm2" by (rule held_store [OF _ _ _ st(3) s p(2) mv o]) (use a' in auto)
  then show ?thesis using does_quiet [OF reaches_trans [OF 1(1) 2(1)] mv] o s a' by (simp add: assigns_def)
qed

text \<open>The value of a statement: evaluation leaves the interpreter's state alone, and the machine has pushed the value.\<close>

lemma value_runs:
  assumes N: "pure_nodes g N" "m \<in> N" and c: "compile_node d g m c = Ret ((), c1)" "\<not> c_had_error c1" "c_enclosing c = []" "arrays_ok c"
    and e: "eval_node e (fmt_g lc) g m s = Ret (v, s1)" "\<not> i_had_error s1"
    and a: "at_stmt img L c c' s w vm" "stays c c1" "grows c1 c'"
  shows "s1 = s \<and> scalar v \<and> pushes lc img w vm c1 v"
proof -
  have "ready img c c1 s w vm" by (rule at_stmt_ready [OF a(1) _ a(3)]) (use a(2) in \<open>simp add: stays_def\<close>)
  moreover have "\<not> i_returned s" using a(1) by (simp add: at_stmt_def)
  ultimately show ?thesis using compile_expr_runs [OF N c e, of img w vm lc] by blast
qed

context parts
begin

lemma let_runs:
  assumes cn: "cn = compile_node d g" and p: "pure_nodes g N"
    and c: "compile_kind cn g n nd c = Ret ((), c')" "\<not> c_had_error c'" "c_enclosing c = []" "arrays_ok c"
    and n: "kind nd = ARC_NODE_LET" "attr_name (attr nd) = Ret (Some x)" "value_from g n m" "m \<in> N"
    and e: "eval_node e (fmt_g lc) g m s = Ret (v, s1)" "\<not> i_had_error s1" "s1 = s \<Longrightarrow> assigns s x v s'" and a: "at_stmt img L c c' s w vm"
  shows "does lc img L (code_len c') s s' w vm"
proof (rule let_extends [OF c n])
  fix c1 assume c1: "cn m c = Ret ((), c1)" "\<not> c_had_error c1" "stays c c1" "c_stack_depth c1 = c_stack_depth c + 1"
    "store_code c1 (of_nat (length (c_locals c))) c'" "c_locals c' = c_locals c @ [(Some x, of_nat (length (c_locals c)))]" "extends c c'"
  have l: "prefix (c_locals c1) (c_locals c')" using c1(6) staysD [OF c1(3)] by simp
  have g: "grows c1 c'" using store_grows [OF c1(5) l] by simp
  have v: "s1 = s \<and> scalar v \<and> pushes lc img w vm c1 v"
    by (rule value_runs [OF p n(4) c1(1) [unfolded cn] c1(2) c(3,4) e(1,2) a c1(3) g])
  have "assigns s x v s'" using e(3) v by simp
  moreover have "(Some x, of_nat (length (c_locals c))) \<in> set L" using a c1(6) by (auto simp: at_stmt_def dest: set_mono_prefix)
  ultimately show ?thesis using v by (intro store_does [OF a _ _ c1(3,5) l]) auto
qed

lemma assign_runs:
  assumes cn: "cn = compile_node d g" and p: "pure_nodes g N"
    and c: "compile_kind cn g n nd c = Ret ((), c')" "\<not> c_had_error c'" "c_enclosing c = []" "arrays_ok c"
    and n: "kind nd = ARC_NODE_ASSIGN" "attr_name (attr nd) = Ret (Some x)" "value_from g n m" "m \<in> N"
    and e: "eval_node e (fmt_g lc) g m s = Ret (v, s1)" "\<not> i_had_error s1" "s1 = s \<Longrightarrow> assigns s x v s'" and a: "at_stmt img L c c' s w vm"
  shows "does lc img L (code_len c') s s' w vm"
proof (rule assign_extends [OF c n])
  fix c1 sl assume c1: "cn m c = Ret ((), c1)" "\<not> c_had_error c1" "stays c c1" "c_stack_depth c1 = c_stack_depth c + 1"
    "find_rev (c_locals c) (Some x) (length (c_locals c)) = Ret (Some sl)" "store_code c1 sl c'" "c_locals c' = c_locals c" "extends c c'"
  have l: "prefix (c_locals c1) (c_locals c')" using c1(7) staysD [OF c1(3)] by simp
  have g: "grows c1 c'" using store_grows [OF c1(6) l] by simp
  have v: "s1 = s \<and> scalar v \<and> pushes lc img w vm c1 v"
    by (rule value_runs [OF p n(4) c1(1) [unfolded cn] c1(2) c(3,4) e(1,2) a c1(3) g])
  have "assigns s x v s'" using e(3) v by simp
  moreover have "(Some x, sl) \<in> set L" using a c1(7) find_rev_sound [OF c1(5)] by (auto simp: at_stmt_def dest: set_mono_prefix)
  ultimately show ?thesis using v by (intro store_does [OF a _ _ c1(3,6) l]) auto
qed

lemma print_runs:
  assumes cn: "cn = compile_node d g" and p: "pure_nodes g N"
    and c: "compile_kind cn g n nd c = Ret ((), c')" "\<not> c_had_error c'" "c_enclosing c = []" "arrays_ok c"
    and n: "kind nd = ARC_NODE_PRINT" "value_from g n m" "m \<in> N"
    and e: "ibind (eval_input (eval_node e (fmt_g lc) g) g n ''value'') (print_line (fmt_g lc)) s = Ret ((), s')" "\<not> i_had_error s'" and a: "at_stmt img L c c' s w vm"
  shows "does lc img L (code_len c') s s' w vm"
proof (rule print_extends [OF c n])
  fix c1 assume c1: "cn m c = Ret ((), c1)" "\<not> c_had_error c1" "stays c c1" "c_stack_depth c1 = c_stack_depth c + 1"
    "cbytes c' = cbytes c1 @ print_bytes" "recodes c1 c'"
  have g: "grows c1 c'" by (rule bytes_extend [OF c1(5) grows_refl recodes_ctx [OF c1(6)]])
  have g0: "grows c c1" using c1(3) by (simp add: stays_def)
  from e(1) obtain v s1 t where 1: "eval_input (eval_node e (fmt_g lc) g) g n ''value'' s = Ret (v, s1)" "print_value (fmt_g lc) (\<lambda>_. Undef) v = Ret t"
    "s' = s1\<lparr>i_output := i_output s1 @ t @ [CHR 0x0A]\<rparr>"
    by (auto simp: ibind_Ret ilift_def print_line_def imod_def andthen_Ret)
  have "\<not> i_had_error s1" using 1(3) e(2) by simp
  then have v: "s1 = s \<and> scalar v \<and> pushes lc img w vm c1 v"
    by (rule value_runs [OF p n(3) c1(1) [unfolded cn] c1(2) c(3,4) eval_value_from [OF n(2) 1(1)] _ a c1(3) g])
  then obtain vm1 where 2: "reaches lc img w (upd w vm1)" "moved vm (code_len c1) vm1" "operands vm1 = operands vm @ [v]" by (auto simp: pushes_def)
  note a' = a [unfolded at_stmt_def]
  have em: "emitted c1 c' = print_bytes" using c1(5) by (simp add: emitted_def code_len_bytes)
  then have code: "code_at img (code_len c1) (op_byte OP_INTRINSIC # le_u16 (intrinsic_number ARC_INTRINSIC_PRINT) @ [1, 0])"
    using placed_split(2) [OF g0 g] a' by (simp add: placed_def print_bytes_def)
  have w1: "now (upd w vm1) = Some vm1" "runs vm1" "ip vm1 = of_nat (code_len c1)" using a' movedD [OF 2(2)] by auto
  obtain vm2 where 3: "reaches lc img (upd w vm1) (says (upd w vm2) (out_stream vm) (t @ [CHR 0x0A]))" "moved vm1 (code_len c1 + 5) vm2"
    "operands vm2 = operands vm" using run_print [OF w1 2(3) conjunct1 [OF conjunct2 [OF v]] 1(2) code] a' moved_out [OF 2(2)] by auto
  have mv: "moved vm (code_len c') vm2" using moved_trans [OF 2(2) 3(2)] code_len_emitted [OF g] em by (simp add: print_bytes_def)
  have "held L s' vm2" using held_same [OF _ mv 3(3)] a' 1(3) v by (simp add: held_def ifind_def)
  then show ?thesis using reaches_trans [OF 2(1) 3(1)] mv 3(3) 1(3) v a' unfolding does_def by (intro exI [of _ vm2] exI [of _ "t @ [CHR 0x0A]"]) simp
qed

end

section \<open>Branches\<close>

text \<open>A part of the code of a statement, reached with the stack as it was.\<close>

lemma at_stmt_part:
  assumes a: "at_stmt img L c c' s w vm" and p: "code_at img (code_len b) (emitted b b')" "ctx_grows b' c'" "c_stack_depth b = c_stack_depth c"
    and v: "now w1 = Some vm1" "moved vm (code_len b) vm1" "length (operands vm1) = length (operands vm)" "held L s1 vm1" "\<not> i_returned s1"
  shows "at_stmt img L b b' s1 w1 vm1"
  using a p v movedD [OF v(2)] frame_ok_moved [OF _ v(2,3)]
  unfolding at_stmt_def fits_def placed_def ctx_grows_def by (auto intro: prefix_order.trans)

text \<open>A condition and the conditional jump after it.\<close>

lemma cond_runs:
  assumes v: "pushes lc img w vm c1 v" and a: "at_stmt img L c c' s w vm"
    and j: "code_at img (code_len c1) (op_byte OP_JUMP_IF_FALSE # le_u32 (of_nat k))" "code_len c1 + 5 + k < 2 ^ 31"
  obtains vm1 where "reaches lc img w (upd w vm1)" "moved vm (if arc_val_is_truthy v then code_len c1 + 5 else code_len c1 + 5 + k) vm1"
    "operands vm1 = operands vm" "now (upd w vm1) = Some vm1" "held L s vm1"
proof -
  note a' = a [unfolded at_stmt_def]
  from v obtain vm1 where 1: "reaches lc img w (upd w vm1)" "moved vm (code_len c1) vm1" "operands vm1 = operands vm @ [v]" by (auto simp: pushes_def)
  have w1: "now (upd w vm1) = Some vm1" "runs vm1" "ip vm1 = of_nat (code_len c1)" using a' movedD [OF 1(2)] by auto
  let ?t = "code_len c1 + 5 + k"
  have off: "(of_nat k :: u32) = of_nat ?t - of_nat (code_len c1 + 5)" by simp
  obtain vm2 where 2: "reaches lc img (upd w vm1) (upd w vm2)" "moved vm1 (if arc_val_is_truthy v then code_len c1 + 5 else ?t) vm2"
    "operands vm2 = operands vm" using run_jump_if_false [OF w1 j(1) off j(2) 1(3), of lc] a' by auto
  note mv = moved_trans [OF 1(2) 2(2)]
  show thesis
    using that [OF reaches_trans [OF 1(1) 2(1)] mv 2(3)] held_same [OF _ mv 2(3)] a' by simp
qed

text \<open>The code of nested regions does what the interpreter does with them.\<close>

definition region_runs :: "libc \<Rightarrow> ArcBytecodeImage \<Rightarrow> LocalVar list \<Rightarrow> ArcGraph \<Rightarrow> ArcRegionId set \<Rightarrow> (ArcNodeId \<Rightarrow> unit cm) \<Rightarrow> nat \<Rightarrow> bool" where
  "region_runs lc img L g R cn e \<longleftrightarrow> (\<forall>r c c' s s' w vm. r \<in> insert ARC_INVALID_ID R \<longrightarrow> compile_region_from cn g r 0 c = Ret ((), c') \<longrightarrow>
     \<not> c_had_error c' \<longrightarrow> c_enclosing c = [] \<longrightarrow> arrays_ok c \<longrightarrow> exec_region_stmts e (fmt_g lc) g r s = Ret ((), s') \<longrightarrow> \<not> i_had_error s' \<longrightarrow>
     at_stmt img L c c' s w vm \<longrightarrow> does lc img L (code_len c') s s' w vm)"

lemma region_runsD:
  "\<lbrakk>region_runs lc img L g R cn e; r \<in> insert ARC_INVALID_ID R; compile_region_from cn g r 0 c = Ret ((), c'); \<not> c_had_error c'; c_enclosing c = [];
    arrays_ok c; exec_region_stmts e (fmt_g lc) g r s = Ret ((), s'); \<not> i_had_error s'; at_stmt img L c c' s w vm\<rbrakk> \<Longrightarrow>
   does lc img L (code_len c') s s' w vm"
  unfolding region_runs_def by blast

lemma ierr_fails: "ierr msg s = Ret (x, s') \<Longrightarrow> i_had_error s'"
  by (auto simp: ierr_def imod_def)

lemma region_error_back: "exec_region_stmts e fmt g r s = Ret ((), s') \<Longrightarrow> \<not> i_had_error s' \<Longrightarrow> \<not> i_had_error s"
  by (cases e) (auto simp: ilift_def ibind_def iget_def iret_def)

text \<open>A jump at the end of a part.\<close>

lemma does_jump:
  assumes d: "does lc img L n s s' w vm" "now w = Some vm" and j: "code_at img n (op_byte OP_JUMP # le_u32 (of_nat t - of_nat (n + 5)))" "t < 2 ^ 31"
  shows "does lc img L t s s' w vm"
proof (rule does_trans [OF d(2,1)])
  fix w1 vm1 assume 1: "now w1 = Some vm1" "moved vm n vm1" "length (operands vm1) = length (operands vm)" "held L s' vm1" "\<not> i_returned s'"
  have r: "runs vm1" "ip vm1 = of_nat n" using movedD [OF 1(2)] by auto
  have "reaches lc img w1 (upd w1 (vm1\<lparr>ip := of_nat t\<rparr>))" by (rule run_jump [OF 1(1) r j(1) refl j(2)])
  then show "does lc img L t s' s' w1 vm1"
    by (rule does_quiet [OF _ moved_ip [OF r(1)]]) (use 1 held_same [OF 1(4) moved_ip [OF r(1)]] in auto)
qed

context parts
begin

lemma if_runs:
  assumes cn: "cn = compile_node d g" and p: "pure_nodes g N" and ih: "region_runs lc img L g R cn e"
    and c: "compile_kind cn g n nd c = Ret ((), c')" "\<not> c_had_error c'" "c_enclosing c = []" "arrays_ok c"
    and n: "kind nd = ARC_NODE_IF" "cond_from g n m" "m \<in> N" "attr_branch (attr nd) = Ret (tr, er)" "tr \<in> insert ARC_INVALID_ID R" "er \<in> insert ARC_INVALID_ID R"
    and e: "exec_stmt (Suc e) (fmt_g lc) g n nd s = Ret ((), s')" "\<not> i_had_error s'" and a: "at_stmt img L c c' s w vm"
  shows "does lc img L (code_len c') s s' w vm"
proof (rule if_shape [OF c(1) [unfolded compile_stmt_kinds(4) [OF n(1)]] c(2-4) n(2-6)])
  fix c1 c2 c3 c4 c5
  assume c1: "cn m c = Ret ((), c1)" "\<not> c_had_error c1" "stays c c1" "c_stack_depth c1 = c_stack_depth c + 1" "recodes c1 c2"
    and c3: "compile_region_from cn g tr 0 c2 = Ret ((), c3)" "\<not> c_had_error c3" "extends c2 c3" "recodes c3 c4"
    and c5: "compile_region_from cn g er 0 c4 = Ret ((), c5)" "\<not> c_had_error c5" "extends c4 c5" "recodes c5 c'" "arrays_ok c2" "arrays_ok c4"
    and d: "c_stack_depth c2 = c_stack_depth c" "c_stack_depth c4 = c_stack_depth c"
    and l: "code_len c2 = code_len c1 + 5" "code_len c4 = code_len c3 + 5"
    and b: "cbytes c' = cbytes c1 @ op_byte OP_JUMP_IF_FALSE # le_u32 (of_nat (length (emitted c2 c3) + 5)) @ emitted c2 c3 @
       op_byte OP_JUMP # le_u32 (of_nat (length (emitted c4 c5))) @ emitted c4 c5"
  let ?T = "emitted c2 c3" and ?E = "emitted c4 c5"
  have cg: "ctx_grows c2 c3" "ctx_grows c4 c5" using c3(3) c5(3) by (auto simp: extends_def grows_ctx)
  have x5: "ctx_grows c5 c'" by (rule recodes_ctx [OF c5(4)])
  have x3: "ctx_grows c3 c'" by (rule ctx_grows_trans [OF recodes_ctx [OF c3(4)] ctx_grows_trans [OF cg(2) x5]])
  have g: "grows c c1" using c1(3) by (simp add: stays_def)
  have g1: "grows c1 c'" by (rule bytes_extend [OF b grows_refl ctx_grows_trans [OF recodes_ctx [OF c1(5)] ctx_grows_trans [OF cg(1) x3]]])
  have l': "code_len c3 = code_len c1 + 5 + length ?T" "code_len c5 = code_len c4 + length ?E" "code_len c' = code_len c5"
    using code_len_emitted [of c2 c3] code_len_emitted [of c4 c5] c3(3) c5(3) l b by (auto simp: extends_def code_len_bytes)
  have em: "emitted c1 c' = (op_byte OP_JUMP_IF_FALSE # le_u32 (of_nat (length ?T + 5))) @ ?T @ (op_byte OP_JUMP # le_u32 (of_nat (length ?E))) @ ?E"
    using b by (simp add: emitted_def code_len_bytes)
  have "code_at img (code_len c1) (emitted c1 c')" using placed_split(2) [OF g g1] a by (simp add: placed_def at_stmt_def)
  then have code: "code_at img (code_len c1) (op_byte OP_JUMP_IF_FALSE # le_u32 (of_nat (length ?T + 5)))" "code_at img (code_len c2) ?T"
    "code_at img (code_len c3) (op_byte OP_JUMP # le_u32 (of_nat (length ?E)))" "code_at img (code_len c4) ?E"
    unfolding em code_at_append using l l' by (simp_all add: add.assoc)
  have lim: "code_len c' < 2 ^ 31" using code_at_end [OF code(4)] l' by simp
  have en: "c_enclosing c2 = []" "c_enclosing c4 = []" using c(3) staysD [OF c1(3)] c1(5) c3(3,4) by (auto simp: recodes_def extends_def grows_def)
  from e(1) n(1,4) obtain v s1 where 1: "eval_input (eval_node e (fmt_g lc) g) g n ''cond'' s = Ret (v, s1)"
    "exec_region_stmts e (fmt_g lc) g (if arc_val_is_truthy v then tr else er) s1 = Ret ((), s')"
    by (auto simp: stmt_kind_def ibind_Ret ilift_def split: if_splits)
  have v: "s1 = s \<and> scalar v \<and> pushes lc img w vm c1 v"
    by (rule value_runs [OF p n(3) c1(1) [unfolded cn] c1(2) c(3,4) eval_cond_from [OF n(2) 1(1)] region_error_back [OF 1(2) e(2)] a c1(3) g1])
  obtain vm1 where 2: "reaches lc img w (upd w vm1)" "moved vm (if arc_val_is_truthy v then code_len c1 + 5 else code_len c1 + 5 + (length ?T + 5)) vm1"
    "operands vm1 = operands vm" "now (upd w vm1) = Some vm1" "held L s vm1"
    by (rule cond_runs [OF conjunct2 [OF conjunct2 [OF v]] a code(1)]) (use lim l l' in auto)
  have w: "now w = Some vm" "\<not> i_returned s" using a by (auto simp: at_stmt_def)
  have "does lc img L (code_len c') s s' (upd w vm1) vm1"
  proof (cases "arc_val_is_truthy v")
    case True
    have "at_stmt img L c2 c3 s (upd w vm1) vm1"
      by (rule at_stmt_part [OF a code(2) x3 d(1) 2(4) _ _ 2(5) w(2)]) (use 2(2,3) True l in auto)
    then have "does lc img L (code_len c3) s s' (upd w vm1) vm1"
      using region_runsD [OF ih n(5) c3(1,2) en(1) c5(5) _ e(2)] 1(2) v True by auto
    then show ?thesis by (rule does_jump [OF _ 2(4) _ lim]) (use code(3) l l' in simp)
  next
    case False
    have "at_stmt img L c4 c5 s (upd w vm1) vm1"
      by (rule at_stmt_part [OF a code(4) x5 d(2) 2(4) _ _ 2(5) w(2)]) (use 2(2,3) False l l' in \<open>auto simp: add.commute add.left_commute\<close>)
    then show ?thesis using region_runsD [OF ih n(6) c5(1,2) en(2) c5(6) _ e(2)] 1(2) v False l'(3) by auto
  qed
  then show ?thesis by (rule does_silent [OF w(1) 2(1-3)])
qed

text \<open>Where the parts of a loop are: the condition up to \<open>c1\<close>, the body between \<open>c2\<close> and \<open>c3\<close>.\<close>

lemma while_code:
  assumes c: "compile_kind cn g n nd c = Ret ((), c')" "\<not> c_had_error c'" "c_enclosing c = []" "arrays_ok c"
    and n: "kind nd = ARC_NODE_WHILE" "cond_from g n m" "m \<in> N" "attr_loop (attr nd) = Ret br" "br \<in> insert ARC_INVALID_ID R"
    and a: "placed img c c'"
  obtains c1 c2 c3 k where "cn m c = Ret ((), c1)" "\<not> c_had_error c1" "stays c c1" "grows c1 c'"
    "compile_region_from cn g br 0 c2 = Ret ((), c3)" "\<not> c_had_error c3" "c_enclosing c2 = []" "arrays_ok c2" "c_stack_depth c2 = c_stack_depth c"
    "code_at img (code_len c1) (op_byte OP_JUMP_IF_FALSE # le_u32 (of_nat k))" "code_len c1 + 5 + k = code_len c'" "code_len c2 = code_len c1 + 5"
    "code_at img (code_len c2) (emitted c2 c3)" "ctx_grows c3 c'"
    "code_at img (code_len c3) (op_byte OP_JUMP # le_u32 (of_nat (code_len c) - of_nat (code_len c3 + 5)))" "code_len c' < 2 ^ 31" "code_len c < 2 ^ 31"
proof (rule while_shape [OF c(1) [unfolded compile_stmt_kinds(5) [OF n(1)]] c(2-4) n(2-5)])
  fix c1 c2 c3
  assume c1: "cn m c = Ret ((), c1)" "\<not> c_had_error c1" "stays c c1" "c_stack_depth c1 = c_stack_depth c + 1" "recodes c1 c2"
    and c3: "compile_region_from cn g br 0 c2 = Ret ((), c3)" "\<not> c_had_error c3" "extends c2 c3" "recodes c3 c'" "arrays_ok c2"
    and d: "c_stack_depth c2 = c_stack_depth c" "c_stack_depth c' = c_stack_depth c" and l: "code_len c2 = code_len c1 + 5"
    and b: "cbytes c' = cbytes c1 @ op_byte OP_JUMP_IF_FALSE # le_u32 (of_nat (length (emitted c2 c3) + 5)) @ emitted c2 c3 @
       op_byte OP_JUMP # le_u32 (of_nat (code_len c) - of_nat (code_len c3 + 5))"
  let ?B = "emitted c2 c3" and ?J = "op_byte OP_JUMP # le_u32 (of_nat (code_len c) - of_nat (code_len c3 + 5))"
  have x3: "ctx_grows c3 c'" by (rule recodes_ctx [OF c3(4)])
  have cg: "ctx_grows c2 c3" using c3(3) by (auto simp: extends_def grows_ctx)
  have g: "grows c c1" using c1(3) by (simp add: stays_def)
  have g1: "grows c1 c'" by (rule bytes_extend [OF b grows_refl ctx_grows_trans [OF recodes_ctx [OF c1(5)] ctx_grows_trans [OF cg x3]]])
  have l': "code_len c3 = code_len c1 + 5 + length ?B" "code_len c' = code_len c3 + 5"
    using code_len_emitted [of c2 c3] c3(3) l b by (auto simp: extends_def code_len_bytes)
  have em: "emitted c1 c' = (op_byte OP_JUMP_IF_FALSE # le_u32 (of_nat (length ?B + 5))) @ ?B @ ?J"
    using b by (simp add: emitted_def code_len_bytes)
  have "code_at img (code_len c1) (emitted c1 c')" using placed_split(2) [OF g g1] a by (simp add: placed_def)
  then have code: "code_at img (code_len c1) (op_byte OP_JUMP_IF_FALSE # le_u32 (of_nat (length ?B + 5)))" "code_at img (code_len c2) ?B"
    "code_at img (code_len c3) ?J" unfolding em code_at_append using l l' by (simp_all add: add.assoc)
  have lim: "code_len c' < 2 ^ 31" "code_len c < 2 ^ 31" using code_at_end [OF code(3)] l' code_len_emitted [OF g] by auto
  have en: "c_enclosing c2 = []" using c(3) staysD [OF c1(3)] c1(5) by (simp add: recodes_def)
  show thesis by (rule that [OF c1(1-3) g1 c3(1,2) en c3(5) d(1) code(1) _ l code(2) x3 code(3) lim]) (use l' in simp)
qed

lemma while_runs:
  assumes cn: "cn = compile_node d g" and p: "pure_nodes g N" and ih: "region_runs lc img L g R cn e"
    and c: "compile_kind cn g n nd c = Ret ((), c')" "\<not> c_had_error c'" "c_enclosing c = []" "arrays_ok c"
    and n: "kind nd = ARC_NODE_WHILE" "cond_from g n m" "m \<in> N" "attr_loop (attr nd) = Ret br" "br \<in> insert ARC_INVALID_ID R"
    and e: "exec_stmt (Suc e) (fmt_g lc) g n nd s = Ret ((), s')" "\<not> i_had_error s'" and a: "at_stmt img L c c' s w vm"
  shows "does lc img L (code_len c') s s' w vm"
proof (rule while_code [OF c n])
  show "placed img c c'" using a by (simp add: at_stmt_def)
  fix c1 c2 c3 k
  assume c1: "cn m c = Ret ((), c1)" "\<not> c_had_error c1" "stays c c1" "grows c1 c'"
    and c3: "compile_region_from cn g br 0 c2 = Ret ((), c3)" "\<not> c_had_error c3" "c_enclosing c2 = []" "arrays_ok c2"
    and d: "c_stack_depth c2 = c_stack_depth c" and j: "code_at img (code_len c1) (op_byte OP_JUMP_IF_FALSE # le_u32 (of_nat k))"
    and l: "code_len c1 + 5 + k = code_len c'" "code_len c2 = code_len c1 + 5" and b: "code_at img (code_len c2) (emitted c2 c3)" "ctx_grows c3 c'"
    and bk: "code_at img (code_len c3) (op_byte OP_JUMP # le_u32 (of_nat (code_len c) - of_nat (code_len c3 + 5)))"
    and lim: "code_len c' < 2 ^ 31" "code_len c < 2 ^ 31"
  let ?step = "while_step (eval_node e (fmt_g lc) g) (exec_region_stmts e (fmt_g lc) g) g n nd"
  have round: "does lc img L (code_len c') s s' w vm" if "limit_loop ?step i s = Ret (j, s')" "0 < j" "at_stmt img L c c' s w vm" for i j s w vm
    using that
  proof (induction i arbitrary: s w vm)
    case (Suc i)
    note a = Suc.prems(3)
    have w: "now w = Some vm" "\<not> i_returned s" using a by (auto simp: at_stmt_def)
    have "\<not> i_had_error s" using Suc.prems(1) e(2) by (auto simp: ibind_def iget_def iret_def)
    then obtain go s2 where st: "?step s = Ret (go, s2)" "(if go then limit_loop ?step i else iret (int i)) s2 = Ret (j, s')"
      using Suc.prems(1) w(2) by (auto simp: ibind_Ret iget_def)
    have e2: "\<not> i_had_error s2" using st(2) e(2) Suc.prems(2) by (cases i) (auto simp: ibind_def iget_def iret_def split: if_splits)
    from st(1) n(4) obtain v s1 where 1: "eval_input (eval_node e (fmt_g lc) g) g n ''cond'' s = Ret (v, s1)" "go = arc_val_is_truthy v"
      "if go then exec_region_stmts e (fmt_g lc) g br s1 = Ret ((), s2) else s2 = s1"
      by (auto simp: while_step_def ibind_Ret ilift_def iret_def split: if_splits)
    have e1: "\<not> i_had_error s1" using 1(3) e2 region_error_back by (auto split: if_splits)
    have v: "s1 = s \<and> scalar v \<and> pushes lc img w vm c1 v"
      by (rule value_runs [OF p n(3) c1(1) [unfolded cn] c1(2) c(3,4) eval_cond_from [OF n(2) 1(1)] e1 a c1(3,4)])
    obtain vm1 where 2: "reaches lc img w (upd w vm1)" "moved vm (if arc_val_is_truthy v then code_len c1 + 5 else code_len c1 + 5 + k) vm1"
      "operands vm1 = operands vm" "now (upd w vm1) = Some vm1" "held L s vm1"
      by (rule cond_runs [OF conjunct2 [OF conjunct2 [OF v]] a j]) (use lim l in auto)
    show ?case
    proof (cases go)
      case True
      have "at_stmt img L c2 c3 s (upd w vm1) vm1"
        by (rule at_stmt_part [OF a b d 2(4) _ _ 2(5) w(2)]) (use 2(2,3) True 1(2) l in auto)
      then have "does lc img L (code_len c3) s s2 (upd w vm1) vm1"
        using region_runsD [OF ih n(5) c3(1,2) c3(3,4) _ e2] 1(3) v True by auto
      then have "does lc img L (code_len c) s s2 (upd w vm1) vm1" by (rule does_jump [OF _ 2(4) bk lim(2)])
      then have "does lc img L (code_len c) s s2 w vm" by (rule does_silent [OF w(1) 2(1-3)])
      then show ?thesis
      proof (rule does_trans [OF w(1)])
        fix w3 vm3 assume 3: "now w3 = Some vm3" "moved vm (code_len c) vm3" "length (operands vm3) = length (operands vm)" "held L s2 vm3" "\<not> i_returned s2"
        have "at_stmt img L c c' s2 w3 vm3"
          by (rule at_stmt_part [OF a _ _ refl 3]) (use a in \<open>auto simp: at_stmt_def placed_def ctx_grows_def\<close>)
        then show "does lc img L (code_len c') s2 s' w3 vm3" using Suc.IH st(2) True Suc.prems(2) by auto
      qed
    next
      case False
      then have "s' = s" "moved vm (code_len c') vm1" using st(2) 1(2,3) v 2(2) l by (auto simp: iret_def)
      then show ?thesis using does_quiet [OF 2(1) _ _ 2(5)] 2(3) w(2) by simp
    qed
  qed (simp add: iret_def)
  from e n(1) obtain j where "limit_loop ?step 100000 s = Ret (j, s')" "0 < j"
    by (auto simp: stmt_kind_def limited_def ibind_Ret iret_def dest: ierr_fails simp del: limit_loop.simps split: if_splits)
  then show ?thesis using round a by blast
qed

end

section \<open>Statements\<close>

lemma assign_var_Ret:
  assumes "assign_var (Some x) ev s = Ret ((), s')" "\<not> i_had_error s'"
  obtains i v s1 where "ifind s (Some x) = Ret (Some i)" "ev s = Ret (v, s1)" "put_var i v s1 = Ret ((), s')" "\<not> i_had_error s1"
proof -
  obtain idx where idx: "ifind s (Some x) = Ret idx"
    "(case idx of None \<Rightarrow> (case Some x of None \<Rightarrow> ilift Undef | Some name \<Rightarrow> ierr (''undefined variable '' @ [CHR 0x27] @ name @ [CHR 0x27]))
      | Some i \<Rightarrow> ibind ev (put_var i)) s = Ret ((), s')"
    using assms(1) by (auto simp: assign_var_def ibind_Ret find_var_def ilift_def andthen_Ret ifind_def)
  then obtain i where i: "idx = Some i" using assms(2) ierr_fails by (cases idx) auto
  with idx(2) obtain v s1 where "ev s = Ret (v, s1)" "put_var i v s1 = Ret ((), s')" by (auto simp: ibind_Ret)
  then show thesis using that idx(1) i assms(2) by (auto simp: put_var_def imod_def)
qed

text \<open>The statements of the fragment, as the interpreter executes them in a region and in the root region: there the value of an
  assignment is computed before the variable is looked for.\<close>

definition interpreted :: "nat \<Rightarrow> (f64 \<Rightarrow> string) \<Rightarrow> ArcGraph \<Rightarrow> ArcNodeId \<Rightarrow> Interp \<Rightarrow> Interp \<Rightarrow> bool" where
  "interpreted e fmt g n s s' \<longleftrightarrow> exec_stmt (Suc e) fmt g n (nodes g ! n) s = Ret ((), s') \<or> root_stmt (Suc e) fmt g n (nodes g ! n) s = Ret ((), s')"

lemma let_interpreted:
  assumes "interpreted e fmt g n s s'" "\<not> i_had_error s'" "kind (nodes g ! n) = ARC_NODE_LET" "attr_name (attr (nodes g ! n)) = Ret (Some x)" "value_from g n m"
  obtains d v s1 where "eval_node d fmt g m s = Ret (v, s1)" "\<not> i_had_error s1" "assigns s1 x v s'"
proof -
  from assms obtain d v s1 where 1: "eval_input (eval_node d fmt g) g n ''value'' s = Ret (v, s1)" "set_var (Some x) v s1 = Ret ((), s')"
    by (auto simp: interpreted_def root_stmt_def stmt_kind_def ibind_Ret ilift_def simp del: eval_node.simps)
  show thesis by (rule that [OF eval_value_from [OF assms(5) 1(1)] set_var_error [OF 1(2) assms(2)] set_var_assigns [OF 1(2) assms(2)]])
qed

lemma assign_interpreted:
  assumes "interpreted e fmt g n s s'" "\<not> i_had_error s'" "kind (nodes g ! n) = ARC_NODE_ASSIGN" "attr_name (attr (nodes g ! n)) = Ret (Some x)" "value_from g n m"
  obtains d v s1 where "eval_node d fmt g m s = Ret (v, s1)" "\<not> i_had_error s1" "s1 = s \<longrightarrow> assigns s x v s'"
proof -
  from assms consider "assign_var (Some x) (eval_input (eval_node e fmt g) g n ''value'') s = Ret ((), s')"
    | v s1 where "eval_input (eval_node (Suc e) fmt g) g n ''value'' s = Ret (v, s1)" "assign_var (Some x) (iret v) s1 = Ret ((), s')"
    by (auto simp: interpreted_def root_stmt_def stmt_kind_def ibind_Ret ilift_def simp del: eval_node.simps)
  then show thesis
  proof cases
    case 1
    show thesis by (rule assign_var_Ret [OF 1 assms(2)]) (use that eval_value_from [OF assms(5)] put_var_assigns in blast)
  next
    case (2 v s1)
    obtain i where i: "ifind s1 (Some x) = Ret (Some i)" "put_var i v s1 = Ret ((), s')" "\<not> i_had_error s1"
      by (rule assign_var_Ret [OF 2(2) assms(2)]) (auto simp: iret_def)
    then show thesis using that [OF eval_value_from [OF assms(5) 2(1)] i(3)] put_var_assigns [OF i(1,2)] by blast
  qed
qed

lemma stmt_runs:
  assumes r: "stmt_regions g N R" and ih: "\<And>d. region_runs lc img L g R (compile_node d g) e"
    and n: "stmt_ok g N R n" and c: "compile_node d g n c = Ret ((), c')" "\<not> c_had_error c'" "c_enclosing c = []" "arrays_ok c"
    and s: "interpreted e (fmt_g lc) g n s s'" "\<not> i_had_error s'" and a: "at_stmt img L c c' s w vm"
  shows "does lc img L (code_len c') s s' w vm"
proof -
  have len: "n < length (nodes g)" using n by (simp add: stmt_ok_def)
  obtain d' c0 where k: "compile_kind (compile_node d' g) g n (nodes g ! n) c = Ret ((), c0)" and st: "settles c0 c'"
    by (rule compile_node_Ret [OF c(1) len]) auto
  have e0: "\<not> c_had_error c0" using st c(2) by (simp add: settles_def stays_def)
  have g0: "grows c0 c'" "code_len c' = code_len c0" using settlesD [OF st] by auto
  have pt: "parts (compile_node d' g) g N R" by (rule parts_node [OF r])
  have pure: "pure_nodes g N" using r by (simp add: stmt_regions_def)
  have ih': "region_runs lc img L g R (compile_node d' g) e" using ih by simp
  have x: "grows c c0" using kind_static [OF pt n k e0 c(3,4)] by (simp add: extends_def)
  note a0 = at_stmt_sub [OF a x g0(1)] and k' = refl pure k e0 c(3,4)
  have "does lc img L (code_len c0) s s' w vm"
    using n
  proof (cases rule: stmt_ok_cases)
    case (let_node x m)
    obtain d v s1 where "eval_node d (fmt_g lc) g m s = Ret (v, s1)" "\<not> i_had_error s1" "assigns s1 x v s'"
      by (rule let_interpreted [OF s let_node(1-3)])
    then show ?thesis using parts.let_runs [OF pt k' let_node] a0 by metis
  next
    case (assign_node x m)
    obtain d v s1 where "eval_node d (fmt_g lc) g m s = Ret (v, s1)" "\<not> i_had_error s1" "s1 = s \<longrightarrow> assigns s x v s'"
      by (rule assign_interpreted [OF s assign_node(1-3)])
    then show ?thesis using parts.assign_runs [OF pt k' assign_node] a0 by metis
  next
    case (print_node m)
    obtain d where "ibind (eval_input (eval_node d (fmt_g lc) g) g n ''value'') (print_line (fmt_g lc)) s = Ret ((), s')"
      using s(1) print_node(1) by (auto simp: interpreted_def root_stmt_def stmt_kind_def simp del: eval_node.simps)
    then show ?thesis using parts.print_runs [OF pt k' print_node _ s(2) a0] by blast
  next
    case (if_node m t el)
    have "exec_stmt (Suc e) (fmt_g lc) g n (nodes g ! n) s = Ret ((), s')"
      using s(1) if_node(1) by (auto simp: interpreted_def root_stmt_def simp del: exec_stmt.simps)
    then show ?thesis by (rule parts.if_runs [OF pt refl pure ih' k e0 c(3,4) if_node _ s(2) a0])
  next
    case (while_node m b)
    have "exec_stmt (Suc e) (fmt_g lc) g n (nodes g ! n) s = Ret ((), s')"
      using s(1) while_node(1) by (auto simp: interpreted_def root_stmt_def simp del: exec_stmt.simps)
    then show ?thesis by (rule parts.while_runs [OF pt refl pure ih' k e0 c(3,4) while_node _ s(2) a0])
  qed
  then show ?thesis using g0(2) by simp
qed

section \<open>Sequences\<close>

text \<open>What the interpreter does with a list of members.\<close>

definition performs :: "(ArcNodeId \<Rightarrow> Interp \<Rightarrow> Interp \<Rightarrow> bool) \<Rightarrow> (ArcNodeId \<Rightarrow> bool) \<Rightarrow> ArcNodeId set \<Rightarrow> (ArcNodeId list \<Rightarrow> unit im) \<Rightarrow> bool" where
  "performs st P K ims \<longleftrightarrow> (\<forall>s s'. ims [] s = Ret ((), s') \<longrightarrow> s' = s) \<and>
     (\<forall>ms s s'. ims ms s = Ret ((), s') \<longrightarrow> \<not> i_had_error s' \<longrightarrow> \<not> i_had_error s) \<and>
     (\<forall>m ms s s'. ims (m # ms) s = Ret ((), s') \<longrightarrow> \<not> i_had_error s \<longrightarrow> \<not> i_returned s \<longrightarrow>
        (m \<in> K \<longrightarrow> ims ms s = Ret ((), s')) \<and> (P m \<longrightarrow> (\<exists>s1. st m s s1 \<and> ims ms s1 = Ret ((), s'))))"

lemma performsD:
  assumes "performs st P K ims"
  shows "ims [] s = Ret ((), s') \<Longrightarrow> s' = s" "ims ms s = Ret ((), s') \<Longrightarrow> \<not> i_had_error s' \<Longrightarrow> \<not> i_had_error s"
    "ims (m # ms) s = Ret ((), s') \<Longrightarrow> \<not> i_had_error s \<Longrightarrow> \<not> i_returned s \<Longrightarrow> m \<in> K \<Longrightarrow> ims ms s = Ret ((), s')"
    "ims (m # ms) s = Ret ((), s') \<Longrightarrow> \<not> i_had_error s \<Longrightarrow> \<not> i_returned s \<Longrightarrow> P m \<Longrightarrow> \<exists>s1. st m s s1 \<and> ims ms s1 = Ret ((), s')"
  using assms unfolding performs_def by blast+

lemma sequence_runs:
  assumes c: "sequences cn P K cms" and i: "performs st P K ims" and m: "\<forall>m \<in> set ms. m \<in> K \<or> P m"
    and static: "\<And>m c c'. P m \<Longrightarrow> cn m c = Ret ((), c') \<Longrightarrow> \<not> c_had_error c' \<Longrightarrow> c_enclosing c = [] \<Longrightarrow> arrays_ok c \<Longrightarrow> extends c c'"
    and step: "\<And>m c c' s s' w vm. P m \<Longrightarrow> cn m c = Ret ((), c') \<Longrightarrow> \<not> c_had_error c' \<Longrightarrow> c_enclosing c = [] \<Longrightarrow> arrays_ok c \<Longrightarrow>
      st m s s' \<Longrightarrow> \<not> i_had_error s' \<Longrightarrow> at_stmt img L c c' s w vm \<Longrightarrow> does lc img L (code_len c') s s' w vm"
    and r: "cms ms c = Ret ((), c')" "\<not> c_had_error c'" "c_enclosing c = []" "arrays_ok c" "ims ms s = Ret ((), s')" "\<not> i_had_error s'" "at_stmt img L c c' s w vm"
  shows "does lc img L (code_len c') s s' w vm"
  using m r
proof (induction ms arbitrary: c s w vm)
  case Nil
  note a = Nil.prems(8) [unfolded at_stmt_def]
  have "c' = c" "s' = s" using sequences_Nil [OF c Nil.prems(2)] performsD(1) [OF i Nil.prems(6)] by auto
  moreover have "moved vm (code_len c) vm" "upd w vm = w" using a by (simp_all add: moved_self upd_now)
  ultimately show ?case using a does_quiet [of lc img w vm vm "code_len c" L s s] by (simp add: reaches_refl)
next
  case (Cons m ms)
  note a = Cons.prems(8)
  have s: "\<not> i_had_error s" "\<not> i_returned s" "now w = Some vm" using performsD(2) [OF i Cons.prems(6,7)] a by (auto simp: at_stmt_def)
  from Cons.prems(1) consider "m \<in> K" | "P m" by auto
  then show ?case
  proof cases
    case 1
    show ?thesis
      by (rule Cons.IH [OF _ sequences_skip [OF c Cons.prems(2) 1] Cons.prems(3-5) performsD(3) [OF i Cons.prems(6) s(1,2) 1] Cons.prems(7) a])
        (use Cons.prems(1) in simp)
  next
    case 2
    obtain s1 where i1: "st m s s1" "ims ms s1 = Ret ((), s')" using performsD(4) [OF i Cons.prems(6) s(1,2) 2] by blast
    have e1: "\<not> i_had_error s1" by (rule performsD(2) [OF i i1(2) Cons.prems(7)])
    show ?thesis
    proof (rule sequences_Cons [OF c Cons.prems(2) 2 Cons.prems(3,5)])
      fix c1 assume r1: "cn m c = Ret ((), c1)" "cms ms c1 = Ret ((), c')" "\<not> c_had_error c1" "arrays_ok c1"
      have x: "extends c c1" by (rule static [OF 2 r1(1,3) Cons.prems(4,5)])
      then have en: "c_enclosing c1 = []" and g: "grows c c1" using Cons.prems(4) by (simp_all add: extends_def grows_def)
      have "extends c1 c'" by (intro sequences_static [OF c _ static r1(2) Cons.prems(3) en r1(4)]) (use Cons.prems(1) in auto)
      then have g1: "grows c1 c'" by (simp add: extends_def)
      have "does lc img L (code_len c1) s s1 w vm"
        by (rule step [OF 2 r1(1,3) Cons.prems(4,5) i1(1) e1 at_stmt_sub [OF a g g1]])
      then show ?thesis
      proof (rule does_trans [OF s(3)])
        fix w1 vm1 assume v: "now w1 = Some vm1" "moved vm (code_len c1) vm1" "length (operands vm1) = length (operands vm)" "held L s1 vm1" "\<not> i_returned s1"
        show "does lc img L (code_len c') s1 s' w1 vm1"
          by (rule Cons.IH [OF _ r1(2) Cons.prems(3) en r1(4) i1(2) Cons.prems(7) at_stmt_next [OF a x g1 v]]) (use Cons.prems(1) in simp)
      qed
    qed
  qed
qed

lemma performs_stmts:
  assumes "pure_nodes g N"
  shows "performs (\<lambda>m s s'. exec_stmt e fmt g m (nodes g ! m) s = Ret ((), s')) (stmt_ok g N R) N (stmts (exec_stmt e fmt g) g)"
  unfolding performs_def
proof (intro conjI allI impI)
  fix ms s s' assume "stmts (exec_stmt e fmt g) g ms s = Ret ((), s')" "\<not> i_had_error s'"
  then show "\<not> i_had_error s" by (cases ms) (auto simp: iret_def ibind_def iget_def)
next
  fix m ms s s' assume a: "stmts (exec_stmt e fmt g) g (m # ms) s = Ret ((), s')" "\<not> i_had_error s" "\<not> i_returned s"
  show "stmts (exec_stmt e fmt g) g ms s = Ret ((), s')" if "m \<in> N"
    using a skipped_kinds(1) [OF that assms] by (simp add: ibind_def iget_def ilift_def node_at_def)
  show "\<exists>s1. exec_stmt e fmt g m (nodes g ! m) s = Ret ((), s1) \<and> stmts (exec_stmt e fmt g) g ms s1 = Ret ((), s')" if "stmt_ok g N R m"
    using a skipped_kinds(2) [OF that] by (auto simp: ibind_Ret iget_def ilift_def node_at_def)
qed (simp add: iret_def)

lemma stmt_static_any:
  assumes "stmt_regions g N R" "stmt_ok g N R n" "compile_node d g n c = Ret ((), c')" "\<not> c_had_error c'" "c_enclosing c = []" "arrays_ok c"
  shows "extends c c'"
proof (cases d)
  case 0
  then show ?thesis using assms(3) by (simp add: ilift_def)
next
  case (Suc d')
  then show ?thesis using stmt_static [OF parts_node [OF assms(1)] assms(2)] assms(3-) by blast
qed

text \<open>By induction on the interpreter's recursion: the code of every region of the fragment does what the interpreter does with it.\<close>

lemma regions_run:
  assumes r: "stmt_regions g N R"
  shows "region_runs lc img L g R (compile_node d g) e"
proof (induction e arbitrary: d rule: less_induct)
  case (less e)
  have pure: "pure_nodes g N" using r by (simp add: stmt_regions_def)
  show ?case
    unfolding region_runs_def
  proof (intro allI impI)
    fix rg c c' s s' w vm
    assume rg: "rg \<in> insert ARC_INVALID_ID R" and c: "compile_region_from (compile_node d g) g rg 0 c = Ret ((), c')" "\<not> c_had_error c'"
      "c_enclosing c = []" "arrays_ok c" and s: "exec_region_stmts e (fmt_g lc) g rg s = Ret ((), s')" "\<not> i_had_error s'" and a: "at_stmt img L c c' s w vm"
    obtain e1 where e1: "e = Suc e1" using s(1) by (cases e) (auto simp: ilift_def)
    let ?ims = "stmts (exec_stmt e1 (fmt_g lc) g) g" and ?cms = "compile_members (compile_node d g) g"
    obtain ms where ms: "\<forall>m \<in> set ms. m \<in> N \<or> stmt_ok g N R m" "?cms ms c = Ret ((), c')" "?ims ms s = Ret ((), s')"
    proof (cases "rg = ARC_INVALID_ID")
      case True
      then have "c' = c" "s' = s" using region_from_Ret [OF c(1)] s(1) by (auto simp: e1 ibind_def iget_def iret_def split: if_splits)
      then show thesis using that [of "[]"] by (simp add: iret_def)
    next
      case False
      then have "rg \<in> R" "?cms (members (regions g ! rg)) c = Ret ((), c')" "rg < length (regions g)" using region_from_Ret [OF c(1)] rg by auto
      moreover have "?ims (members (regions g ! rg)) s = Ret ((), s')"
        using s False region_error_back [OF s] calculation(3) by (auto simp: e1 ibind_def iget_def ilift_def region_at_def)
      ultimately show thesis using that r by (auto simp: stmt_regions_def)
    qed
    show "does lc img L (code_len c') s s' w vm"
    proof (rule sequence_runs [OF sequences_members [OF pure node.compiles_axioms] performs_stmts [OF pure] ms(1) _ _ ms(2) c(2-4) ms(3) s(2) a])
      fix m c c' assume "stmt_ok g N R m" "compile_node d g m c = Ret ((), c')" "\<not> c_had_error c'" "c_enclosing c = []" "arrays_ok c"
      then show "extends c c'" by (rule stmt_static_any [OF r])
    next
      fix m c c' s s' w vm
      assume m: "stmt_ok g N R m" "compile_node d g m c = Ret ((), c')" "\<not> c_had_error c'" "c_enclosing c = []" "arrays_ok c"
        and s: "exec_stmt e1 (fmt_g lc) g m (nodes g ! m) s = Ret ((), s')" "\<not> i_had_error s'" and a: "at_stmt img L c c' s w vm"
      obtain e2 where e2: "e1 = Suc e2" using s(1) by (cases e1) (auto simp: ilift_def)
      have "interpreted e2 (fmt_g lc) g m s s'" using s(1) e2 unfolding interpreted_def by blast
      then show "does lc img L (code_len c') s s' w vm"
        by (intro stmt_runs [OF r less.IH m _ s(2) a, of e2]) (simp_all add: e1 e2)
    qed
  qed
qed

end
