(* ===== verification/Compile_Program.thy ===== *)
theory Compile_Program
  imports Compile_Sim
begin

text \<open>
  Whole programs without function definitions: the image the compiler makes, executed by the machine from its start, prints
  what the interpreter prints and ends with the value the interpreter computes.
\<close>

section \<open>The root region\<close>

definition outputs :: "ArcGraph \<Rightarrow> ArcNodeId set" where
  "outputs g = {m. m < length (nodes g) \<and> kind (nodes g ! m) = ARC_NODE_ROOT_OUTPUT}"

lemma sequences_root:
  assumes "pure_nodes g N" "compiles cn"
  shows "sequences cn (stmt_ok g N R) (N \<union> outputs g) (compile_root_members cn g)"
  unfolding sequences_def
proof (intro conjI allI impI)
  fix m ms c c' assume a: "compile_root_members cn g (m # ms) c = Ret ((), c')"
  show "compile_root_members cn g ms c = Ret ((), c')" if "m \<in> N \<union> outputs g"
    using a that skipped_kinds(1) [OF _ assms(1)] by (auto simp: outputs_def ibind_Ret ilift_def node_at_def)
  show "\<exists>c1. cn m c = Ret ((), c1) \<and> compile_root_members cn g ms c1 = Ret ((), c')" if "stmt_ok g N R m"
    using a skipped_kinds(2) [OF that] by (auto simp: ibind_Ret ilift_def node_at_def)
qed (simp_all add: iret_def compiles.root_members [OF assms(2)] compiles.cn [OF assms(2)])

lemma performs_root:
  assumes "pure_nodes g N"
  shows "performs (\<lambda>m s s'. root_stmt e fmt g m (nodes g ! m) s = Ret ((), s')) (stmt_ok g N R) (N \<union> outputs g) (root_stmts e fmt g)"
  unfolding performs_def
proof (intro conjI allI impI)
  fix ms s s' assume "root_stmts e fmt g ms s = Ret ((), s')" "\<not> i_had_error s'"
  then show "\<not> i_had_error s" by (cases ms) (auto simp: iret_def ibind_def iget_def)
next
  fix m ms s s' assume a: "root_stmts e fmt g (m # ms) s = Ret ((), s')" "\<not> i_had_error s" "\<not> i_returned s"
  show "root_stmts e fmt g ms s = Ret ((), s')" if "m \<in> N \<union> outputs g"
    using a that skipped_kinds(1) [OF _ assms] by (auto simp: outputs_def ibind_def iget_def ilift_def node_at_def)
  show "\<exists>s1. root_stmt e fmt g m (nodes g ! m) s = Ret ((), s1) \<and> root_stmts e fmt g ms s1 = Ret ((), s')" if "stmt_ok g N R m"
    using a skipped_kinds(2) [OF that] by (auto simp: ibind_Ret iget_def ilift_def node_at_def)
qed (simp add: iret_def)

lemma root_stmt_deep:
  assumes "stmt_ok g N R n" "root_stmt e fmt g n (nodes g ! n) s = Ret ((), s')"
  obtains e' where "e = Suc e'"
proof (cases e)
  case 0
  have no: "eval_input (eval_node 0 fmt g) g n ''value'' s \<noteq> Ret (v, s1)" if "value_from g n m" for m v s1
    using eval_value_from [OF that, of "eval_node 0 fmt g" s v s1] by (auto simp: ilift_def)
  from assms(1) have False
  proof (cases rule: stmt_ok_cases)
    case let_node
    then show False using assms(2) no by (auto simp: 0 root_stmt_def ibind_Ret simp del: eval_node.simps)
  next
    case assign_node
    then show False using assms(2) no by (auto simp: 0 root_stmt_def ibind_Ret simp del: eval_node.simps)
  next
    case print_node
    then show False using assms(2) no by (auto simp: 0 root_stmt_def ibind_Ret simp del: eval_node.simps)
  qed (use assms(2) in \<open>simp_all add: 0 root_stmt_def ilift_def\<close>)
  then show thesis ..
qed (rule that)

lemma root_runs:
  assumes r: "stmt_regions g N R" and m: "\<forall>m \<in> set ms. m \<in> N \<union> outputs g \<or> stmt_ok g N R m"
    and c: "compile_root_members (compile_node d g) g ms c = Ret ((), c')" "\<not> c_had_error c'" "c_enclosing c = []" "arrays_ok c"
    and s: "root_stmts e (fmt_g lc) g ms s = Ret ((), s')" "\<not> i_had_error s'" and a: "at_stmt img L c c' s w vm"
  shows "does lc img L (code_len c') s s' w vm"
proof -
  have pure: "pure_nodes g N" using r by (simp add: stmt_regions_def)
  show ?thesis
  proof (rule sequence_runs [OF sequences_root [OF pure node.compiles_axioms] performs_root [OF pure] m _ _ c s a])
    fix m c c' assume "stmt_ok g N R m" "compile_node d g m c = Ret ((), c')" "\<not> c_had_error c'" "c_enclosing c = []" "arrays_ok c"
    then show "extends c c'" by (rule stmt_static_any [OF r])
  next
    fix m c c' s s' w vm
    assume m: "stmt_ok g N R m" "compile_node d g m c = Ret ((), c')" "\<not> c_had_error c'" "c_enclosing c = []" "arrays_ok c"
      and s: "root_stmt e (fmt_g lc) g m (nodes g ! m) s = Ret ((), s')" "\<not> i_had_error s'" and a: "at_stmt img L c c' s w vm"
    obtain e' where e: "e = Suc e'" by (rule root_stmt_deep [OF m(1) s(1)])
    have "interpreted e' (fmt_g lc) g m s s'" using s(1) e unfolding interpreted_def by blast
    then show "does lc img L (code_len c') s s' w vm" by (rule stmt_runs [OF r regions_run [OF r] m _ s(2) a])
  qed
qed

lemma root_static:
  assumes r: "stmt_regions g N R" and m: "\<forall>m \<in> set ms. m \<in> N \<union> outputs g \<or> stmt_ok g N R m"
    and c: "compile_root_members (compile_node d g) g ms c = Ret ((), c')" "\<not> c_had_error c'" "c_enclosing c = []" "arrays_ok c"
  shows "extends c c'"
proof -
  have pure: "pure_nodes g N" using r by (simp add: stmt_regions_def)
  show ?thesis by (rule sequences_static [OF sequences_root [OF pure node.compiles_axioms] m stmt_static_any [OF r] c])
qed

section \<open>The end of the program\<close>

lemma run_dup:
  assumes "now w = Some vm" "runs vm" "ip vm = of_nat n" "code_at img n [op_byte OP_DUP]" "operands vm = xs @ [v]" "length xs + 1 < ARC_STACK_MAX"
  shows "\<exists>vm'. reaches lc img w (upd w vm') \<and> moved vm (n + 1) vm' \<and> operands vm' = xs @ [v, v]"
proof -
  let ?u = "vm\<lparr>ip := of_nat (Suc n)\<rparr>"
  have u: "now (upd w ?u) = Some ?u" "vm_wf ?u" "operands ?u = xs @ [v]" using assms by (auto simp: runs_def vm_wf_def)
  note o = operands_snoc [OF u(2,3)]
  obtain vm' where p: "vm_push v (upd w ?u) = VRet () (upd w vm')" "vm_wf vm'" "operands vm' = xs @ [v, v]" "same_but_stack ?u vm'"
    using run_push_wf [OF u(1,2), of v] u(3) assms(1,6) by auto
  have st: "vbind (stack_at (sp vm - 1)) k (upd w ?u) = k v (upd w ?u)" for k :: "ArcValue \<Rightarrow> unit vmM"
    using o u(1) by (simp add: stack_at_def vbind_def run_cur vguard_def vret_def)
  have "sp vm \<noteq> 0" using o by auto
  then have "vm_dispatch lc img (op_byte OP_DUP) (of_nat n) (upd w ?u) = VRet () (upd w vm')"
    using p(1) by (simp add: vm_dispatch_def vm_exec_stack_local_global_def run_with_cur [OF u(1)] st del: op_byte.simps of_nat_Suc)
  then have "reaches lc img w (upd w vm')" by (rule reaches_at [OF assms(1-4)])
  moreover have "moved vm (n + 1) vm'" using p(2,4) by (intro movedI assms(2)) simp_all
  ultimately show ?thesis using p(3) by blast
qed

text \<open>The main thread ends when its machine halts.\<close>

lemma run_halt:
  assumes "now w = Some vm" "runs vm" "ip vm = of_nat n" "code_at img n [op_byte OP_HALT]" "ctx w = [None]"
  shows "vm_loop lc img (Suc (Suc m)) w = Finished ARC_OK ((upd w (vm\<lparr>ip := of_nat (Suc n), halted := True\<rparr>))\<lparr>ctx := []\<rparr>)"
proof -
  let ?u = "vm\<lparr>ip := of_nat (Suc n)\<rparr>" and ?h = "vm\<lparr>ip := of_nat (Suc n), halted := True\<rparr>"
  have u: "now (upd w ?u) = Some ?u" using assms(1) by simp
  have "vm_dispatch lc img (op_byte OP_HALT) (of_nat n) (upd w ?u) = VRet () (upd w ?h)"
    using run_modcur [OF u, of "\<lambda>vm. vm\<lparr>halted := True\<rparr>"] assms(1) by (simp add: vm_dispatch_def del: op_byte.simps of_nat_Suc)
  then have "vm_round lc img w = VRet () (upd w ?h)"
    using run_round [OF assms(1), of img lc] code_at_hd [OF assms(4)] assms(2,3) by (simp add: runs_def add.commute)
  then have 1: "vm_step lc img w = Running (upd w ?h)" using run_step(1) [OF assms(1)] assms(2) by (simp add: runs_def)
  have c: "ctx (upd w ?h) = [None]" using assms(5) by (simp add: upd_def put_vm_def)
  then have "vm_step lc img (upd w ?h) = Finished ARC_OK ((upd w ?h)\<lparr>ctx := []\<rparr>)"
    using now_upd [of w ?h] assms(1) by (simp add: vm_step_def now_def)
  then show ?thesis using 1 by simp
qed

section \<open>The image\<close>

lemma no_functions: "\<forall>nd \<in> set (nodes g). kind nd \<noteq> ARC_NODE_FUNC_DEF \<Longrightarrow> \<forall>i \<in> set js. i < length (nodes g) \<Longrightarrow> each_function f g js c = Ret ((), c)"
  by (induction js) (auto simp: iret_def)

text \<open>The state in which the compiler begins with the root region.\<close>

definition main_start :: "Compiler \<Rightarrow> bool" where
  "main_start c \<longleftrightarrow> c_locals c = [] \<and> c_stack_depth c = 0 \<and> c_max_stack c = 0 \<and> cbytes c = [] \<and> c_enclosing c = [] \<and> arrays_ok c"

text \<open>The image of a state with the main function in front.\<close>

definition main_of :: "Compiler \<Rightarrow> ArcBytecodeImage \<Rightarrow> bool" where
  "main_of c img \<longleftrightarrow> img_code img = cbytes c \<and> items (img_constants img) = pool_of c \<and>
     (\<exists>mr. items (img_functions img) = [mr] \<and> code_offset mr = 0 \<and> local_count mr = of_nat (length (c_locals c)))"

lemma program_Ret:
  assumes "\<forall>nd \<in> set (nodes g). kind nd \<noteq> ARC_NODE_FUNC_DEF" "compile_program d g compiler_init = Ret ((), c)" "\<not> c_had_error c"
    and root: "\<And>c0 c1. compile_root_stmts (compile_node d g) g c0 = Ret ((), c1) \<Longrightarrow> \<not> c_had_error c1 \<Longrightarrow> main_start c0 \<Longrightarrow>
      items (img_functions (c_image c0)) = [] \<Longrightarrow> items (img_functions (c_image c1)) = []"
  obtains c0 c1 where "compile_root_stmts (compile_node d g) g c0 = Ret ((), c1)" "main_start c0" "\<not> c_had_error c1" "c_locals c1 = c_locals c"
    "c_max_stack c1 = c_max_stack c" "main_of c1 ((c_image c)\<lparr>img_code := buf_data (c_code c)\<rparr>)"
proof -
  let ?i = "\<lambda>f. each_function f g [0..<length (nodes g)]"
  have f: "?i f c = Ret ((), c)" for f c by (rule no_functions [OF assms(1)]) simp
  obtain mn c0 c1 where 1: "pool_const (\<lambda>p. arc_const_pool_add_string p ''main'') (compiler_init\<lparr>c_locals := [], c_stack_depth := 0, c_max_stack := 0\<rparr>) = Ret (mn, c0)"
    "compile_root_stmts (compile_node d g) g (c0\<lparr>c_debug_func_idx := 0\<rparr>) = Ret ((), c1)"
    "install_main \<lparr>name_const_idx = of_nat mn, arity = 0, local_count = of_nat (length (c_locals c1)), max_stack = of_int (c_max_stack c1),
        code_offset = of_nat (code_len c0), code_length = of_nat (code_len c1 - code_len c0), upvalues = []\<rparr> (code_len c0) c1 = Ret ((), c)"
    using assms(2) unfolding compile_program_def by (auto simp: ibind_Ret f imod_def iget_def code_len_def)
  have i: "main_start (c0\<lparr>c_debug_func_idx := 0\<rparr>)" "items (img_functions (c_image c0)) = []" "code_len c0 = 0"
    using 1(1) compiler_init_ok by (auto simp: pool_const_def andthen_Ret main_start_def compiler_init_def cbytes_def arc_buf_init_def arrays_ok_def
        arc_image_init_def code_len_def arc_const_pool_init_def arc_func_table_init_def)
  have "arrays_ok c1" using keeps_forward [OF node.root_stmts _ 1(2)] i(1) by (simp add: main_start_def)
  then have e1: "\<not> c_had_error c1" using keeps_back [OF ck_main(1) _ 1(3) assms(3)] by blast
  have n: "items (img_functions (c_image c1)) = []" using root [OF 1(2) e1 i(1)] i(2) by simp
  show thesis
    using that [OF 1(2) i(1)] 1(3) n i(3) assms(3)
    by (auto simp: install_main_def ibind_Ret iget_def add_function_def andthen_Ret arc_func_table_add_def dyn_push_def Let_def iret_def
        main_of_def cbytes_def pool_of_def split: if_splits)
qed

section \<open>The result\<close>

lemma output_code:
  assumes N: "pure_nodes g N" "m \<in> N" and v: "n \<in> outputs g" "value_from g n m"
    and c: "ibind (compile_node d g n) (\<lambda>_. ibind (emit_op OP_DUP) (\<lambda>_. emit_print)) c = Ret ((), c')" "\<not> c_had_error c'" "c_enclosing c = []" "arrays_ok c"
  obtains d' c1 where "compile_node d' g m c = Ret ((), c1)" "\<not> c_had_error c1" "stays c c1" "c_stack_depth c1 = c_stack_depth c + 1"
    "emitted c1 c' = op_byte OP_DUP # print_bytes" "grows c1 c'" "c_locals c' = c_locals c" "c_stack_depth c + 2 \<le> c_max_stack c'"
proof -
  from c(1) obtain ca cb where 1: "compile_node d g n c = Ret ((), ca)" "emit_op OP_DUP ca = Ret ((), cb)" "emit_print cb = Ret ((), c')"
    by (auto simp: ibind_Ret)
  obtain d' c1 where k: "compile_kind (compile_node d' g) g n (nodes g ! n) c = Ret ((), c1)" and st: "settles c1 ca"
    using v(1) by (auto simp: outputs_def intro: compile_node_Ret [OF 1(1)])
  have cn: "compile_node d' g m c = Ret ((), c1)"
    using v(1) k value_port_Ret [OF v(2)] by (simp add: outputs_def compile_kind_def compile_stmts_def Let_def)
  note st' = settlesD [OF st] and e = emit_op_Ret [OF 1(2)] and p = print_tail [OF 1(3)]
  have e1: "\<not> c_had_error c1" using c(2) p(2) e(1) st' by (auto simp: recodes_def stays_def)
  have s: "stays c c1 \<and> c_stack_depth c1 = c_stack_depth c + 1 \<and> c_stack_depth c1 \<le> c_max_stack c1"
    by (rule compile_expr_static [OF N cn e1 c(3,4)])
  have "cbytes ca = cbytes c1" using st' by (auto simp: grows_def prefix_def code_len_bytes)
  moreover have "cbytes cb = cbytes ca @ [op_byte OP_DUP]" using emitted_bytes [of ca cb] e(1,2) by (simp add: stays_def)
  ultimately have b: "cbytes c' = cbytes c1 @ op_byte OP_DUP # print_bytes" using p(1) by simp
  have "ctx_grows ca cb" "ctx_grows c1 ca" using e(1) st' by (auto simp: stays_def grows_ctx)
  then have g: "grows c1 c'" using bytes_extend [OF b grows_refl] recodes_ctx [OF p(2)] ctx_grows_trans by blast
  have "c_stack_depth cb = c_stack_depth c + 2" "c_stack_depth cb \<le> c_max_stack cb" using e(3,4) s st' by auto
  then have "c_stack_depth c + 2 \<le> c_max_stack c'" using p(2) by (simp add: recodes_def)
  moreover have "c_locals c' = c_locals c" using p(2) e(1) st' s by (simp add: recodes_def stays_def)
  ultimately show thesis using that [OF cn e1] s b g by (simp add: emitted_def code_len_bytes)
qed

lemma scalar_text: "scalar v \<Longrightarrow> \<exists>t. print_value fmt f v = Ret t"
  by (cases v) (auto simp: scalar_def print_value_def)

lemma output_runs:
  assumes N: "pure_nodes g N" "m \<in> N" and v: "n \<in> outputs g" "value_from g n m"
    and c: "ibind (compile_node d g n) (\<lambda>_. ibind (emit_op OP_DUP) (\<lambda>_. emit_print)) c = Ret ((), c')" "\<not> c_had_error c'" "c_enclosing c = []" "arrays_ok c"
    and s: "eval_node e (fmt_g lc) g n s = Ret (v, s')" "\<not> i_had_error s'" and a: "at_stmt img L c c' s w vm"
  obtains vm' t where "print_value (fmt_g lc) (\<lambda>_. Undef) v = Ret t" "reaches lc img w (says (upd w vm') (out_stream vm) (t @ [CHR 0x0A]))"
    "moved vm (code_len c') vm'" "operands vm' = operands vm @ [v]" "s' = s"
proof (rule output_code [OF N v c])
  fix d' c1
  assume c1: "compile_node d' g m c = Ret ((), c1)" "\<not> c_had_error c1" "stays c c1" "c_stack_depth c1 = c_stack_depth c + 1"
    "emitted c1 c' = op_byte OP_DUP # print_bytes" "grows c1 c'" "c_stack_depth c + 2 \<le> c_max_stack c'"
  note a' = a [unfolded at_stmt_def]
  obtain d0 where k: "eval_kind (eval_node d0 (fmt_g lc) g) (exec_region_stmts d0 (fmt_g lc) g) g n (nodes g ! n) s = Ret (v, s')"
    using a' by (auto intro: eval_node_Ret [OF s])
  have "eval_input (eval_node d0 (fmt_g lc) g) g n ''value'' s = Ret (v, s')" using k v(1) by (simp add: outputs_def eval_kind_def)
  note ev = eval_value_from [OF v(2) this]
  have ev: "s' = s \<and> scalar v \<and> pushes lc img w vm c1 v" by (rule value_runs [OF N c1(1,2) c(3,4) ev s(2) a c1(3,6)])
  then obtain t vm1 where t: "print_value (fmt_g lc) (\<lambda>_. Undef) v = Ret t"
    and 1: "reaches lc img w (upd w vm1)" "moved vm (code_len c1) vm1" "operands vm1 = operands vm @ [v]" using scalar_text [of v "fmt_g lc" "\<lambda>_. Undef"] by (auto simp: pushes_def)
  have w1: "now (upd w vm1) = Some vm1" "runs vm1" "ip vm1 = of_nat (code_len c1)" using a' movedD [OF 1(2)] by auto
  have g: "grows c c1" using c1(3) by (simp add: stays_def)
  have "code_at img (code_len c1) ([op_byte OP_DUP] @ print_bytes)" using placed_split(2) [OF g c1(6)] a' c1(5) by (simp add: placed_def)
  then have code: "code_at img (code_len c1) [op_byte OP_DUP]" "code_at img (code_len c1 + 1) print_bytes" by (simp_all only: code_at_append list.size) auto
  have "length (operands vm) + 1 < ARC_STACK_MAX" using a' c1(7) by (simp add: fits_def)
  then obtain vm2 where 2: "reaches lc img (upd w vm1) (upd w vm2)" "moved vm1 (code_len c1 + 1) vm2" "operands vm2 = (operands vm @ [v]) @ [v]"
    using run_dup [OF w1 code(1) 1(3), of lc] a' by auto
  have w2: "now (upd w vm2) = Some vm2" "runs vm2" "ip vm2 = of_nat (code_len c1 + 1)" using a' movedD [OF 2(2)] by auto
  obtain vm3 where 3: "reaches lc img (upd w vm2) (says (upd w vm3) (out_stream vm) (t @ [CHR 0x0A]))" "moved vm2 (code_len c1 + 1 + 5) vm3"
    "operands vm3 = operands vm @ [v]"
    using run_print [OF w2 2(3) conjunct1 [OF conjunct2 [OF ev]] t code(2) [unfolded print_bytes_def]] a' moved_out [OF moved_trans [OF 1(2) 2(2)]] by auto
  have "code_len c' = code_len c1 + 1 + 5" using code_len_emitted [OF c1(6)] c1(5) by (simp add: print_bytes_def)
  then have "moved vm (code_len c') vm3" using moved_trans [OF moved_trans [OF 1(2) 2(2)] 3(2)] by (simp only:)
  then show thesis using that [OF t reaches_trans [OF 1(1) reaches_trans [OF 2(1) 3(1)]] _ 3(3)] ev by simp
qed

section \<open>The start\<close>

definition entered :: "ArcBytecodeImage \<Rightarrow> nat \<Rightarrow> world \<Rightarrow> world \<Rightarrow> ArcVm \<Rightarrow> bool" where
  "entered img n w w0 vm \<longleftrightarrow> (\<forall>lc fuel. arc_vm_run lc img fuel (arc_vm_init w) = vm_loop lc img fuel w0) \<and> now w0 = Some vm \<and> runs vm \<and> ip vm = 0 \<and>
     fp vm = 1 \<and> open_upvalues vm = [] \<and> operands vm = replicate n VAL_NULL \<and> (\<forall>sl. local_at vm sl = unat sl) \<and> ctx w0 = [None] \<and> streams w0 = streams w \<and> out_stream vm = 0"

lemma unat_widen: "unat (ucast (x :: u16) :: u32) = unat x"
  using unsigned_less [of x, where 'a = nat] by (simp add: unsigned_ucast_eq take_bit_nat_eq_self)

lemma main_entered:
  assumes mr: "items (img_functions img) = mr # fs" "code_offset mr = 0" "local_count mr = of_nat n" and le: "n \<le> 256"
  shows "\<exists>w0 vm. entered img n w w0 vm"
proof -
  have n: "unat (local_count mr) = n" "unat (ucast (local_count mr) :: u32) = n"
    using mr(3) le by (simp_all add: unsigned_of_nat take_bit_nat_eq_self unat_widen)
  define vm where "vm = zero_vm\<lparr>frames := (frames zero_vm)[0 := \<lparr>fr_func_idx = 0, return_ip = 0, base_slot = 0\<rparr>], fp := 1, sp := ucast (local_count mr)\<rparr>"
  have stack: "map (\<lambda>i. VAL_NULL) [0..<n] @ drop n (stack zero_vm) = stack zero_vm"
    using le by (simp add: zero_vm_def arc_max_defs map_replicate_const flip: replicate_add)
  define w0 where "w0 = (arc_vm_init w)\<lparr>ctx := [None], main_vm := vm\<rparr>"
  have "vm_setup_main img ((arc_vm_init w)\<lparr>ctx := [None]\<rparr>) = VRet () w0"
    using le stack
    by (simp add: vm_setup_main_def mr n vbind_def arc_vm_init_def cur_def me_def vm_of_def ARC_STACK_MAX_def
        get_vm_def vlift_def entry_vm_def vret_def setcur_def set_vm_def put_vm_def w0_def vm_def) (simp add: zero_vm_def)
  then have "arc_vm_run lc img fuel (arc_vm_init w) = vm_loop lc img fuel w0" for lc fuel by (simp add: arc_vm_run_def)
  moreover have "runs vm" using le n(2) by (simp add: runs_def vm_wf_def vm_def zero_vm_def arc_max_defs)
  moreover have "operands vm = replicate n VAL_NULL" using n(2) le by (simp add: operands_def vm_def zero_vm_def arc_max_defs min_def)
  moreover have "local_at vm sl = unat sl" for sl by (simp add: local_at_def vm_def zero_vm_def arc_max_defs unat_widen)
  ultimately have "entered img n w w0 vm"
    by (auto simp: entered_def w0_def now_def get_vm_def arc_vm_init_def) (simp_all add: vm_def zero_vm_def)
  then show ?thesis by blast
qed

section \<open>Programs\<close>

text \<open>The programs of the fragment: no function definitions; in the root region expressions, statements and the output node.\<close>

definition main_only :: "ArcGraph \<Rightarrow> ArcNodeId set \<Rightarrow> ArcRegionId set \<Rightarrow> bool" where
  "main_only g N R \<longleftrightarrow> stmt_regions g N R \<and> (\<forall>nd \<in> set (nodes g). kind nd \<noteq> ARC_NODE_FUNC_DEF) \<and> root_region g < length (regions g) \<and>
     (\<forall>m \<in> set (members (regions g ! root_region g)). m \<in> N \<union> outputs g \<or> stmt_ok g N R m) \<and>
     (output_node g = ARC_INVALID_ID \<or> output_node g \<in> outputs g \<and> (\<exists>m \<in> N. value_from g (output_node g) m))"

definition output_code_of :: "nat \<Rightarrow> ArcGraph \<Rightarrow> unit cm" where
  "output_code_of d g = (if output_node g = ARC_INVALID_ID then iret ()
     else ibind (compile_node d g (output_node g)) (\<lambda>_. ibind (emit_op OP_DUP) (\<lambda>_. emit_print)))"

lemma root_stmts_Ret:
  assumes m: "main_only g N R" and c: "compile_root_stmts (compile_node d g) g c = Ret ((), c')" "\<not> c_had_error c'" "main_start c"
  obtains c1 c2 where "compile_root_members (compile_node d g) g (members (regions g ! root_region g)) c = Ret ((), c1)" "\<not> c_had_error c1" "arrays_ok c1"
    "extends c c1" "output_code_of d g c1 = Ret ((), c2)" "\<not> c_had_error c2" "grows c1 c2" "c_locals c2 = c_locals c1" "grows c2 c'" "emitted c2 c' = [op_byte OP_HALT]"
    "c_locals c' = c_locals c1"
proof -
  have "nodes g ! output_node g \<in> set (nodes g)" if "output_node g \<in> outputs g" using that by (auto simp: outputs_def)
  then obtain c1 c2 where 1: "compile_root_members (compile_node d g) g (members (regions g ! root_region g)) c = Ret ((), c1)"
    "output_code_of d g c1 = Ret ((), c2)" "emit_op OP_HALT c2 = Ret ((), c')"
    using m c(1) unfolding compile_root_stmts_def
    by (auto simp: ibind_Ret ilift_def region_at_def main_only_def outputs_def node_at_def output_code_of_def split: if_splits)
  note e = emit_op_Ret [OF 1(3)] and s = c(3) [unfolded main_start_def]
  have a1: "arrays_ok c1" using keeps_forward [OF node.root_members _ 1(1)] s by blast
  have e2: "\<not> c_had_error c2" using c(2) e(1) by (simp add: stays_def)
  have kp: "ck.keeps (output_code_of d g)" unfolding output_code_of_def by (intro ck_emits ck_node)
  have e1: "\<not> c_had_error c1" by (rule keeps_back [OF kp a1 1(2) e2])
  have x: "extends c c1" by (rule root_static [OF _ _ 1(1) e1]) (use m s in \<open>auto simp: main_only_def\<close>)
  have en: "c_enclosing c1 = []" using x s by (simp add: extends_def grows_def)
  have "grows c1 c2 \<and> c_locals c2 = c_locals c1"
  proof (cases "output_node g = ARC_INVALID_ID")
    case True
    then show ?thesis using 1(2) by (simp add: output_code_of_def iret_def)
  next
    case False
    then obtain mm where mm: "output_node g \<in> outputs g" "mm \<in> N" "value_from g (output_node g) mm" and p: "pure_nodes g N"
      using m by (auto simp: main_only_def stmt_regions_def)
    have oc: "ibind (compile_node d g (output_node g)) (\<lambda>_. ibind (emit_op OP_DUP) (\<lambda>_. emit_print)) c1 = Ret ((), c2)"
      using 1(2) False by (simp add: output_code_of_def)
    show ?thesis by (rule output_code [OF p mm(2,1,3) oc e2 en a1]) (use grows_trans in \<open>auto simp: stays_def\<close>)
  qed
  then show thesis using that [OF 1(1) e1 a1 x 1(2) e2] e(1,2) by (simp add: stays_def)
qed

lemma numbered_slots:
  assumes "numbered L" "length L \<le> 256" "distinct (map fst L)"
  shows "slots_ok L" "(x, sl) \<in> set L \<Longrightarrow> unat sl < length L"
proof -
  have i: "inj_on (of_nat :: nat \<Rightarrow> u16) {0..<length L}"
    using assms(2) by (intro inj_onI) (auto simp: word_unat_eq_iff unsigned_of_nat take_bit_nat_eq_self)
  show "slots_ok L" using assms i by (simp add: slots_ok_def numbered_def distinct_map)
  assume "(x, sl) \<in> set L"
  then have "sl \<in> set (map snd L)" by force
  then have "sl \<in> of_nat ` {0..<length L}" using assms(1) unfolding numbered_def by simp
  then show "unat sl < length L" using assms(2) by (auto simp: unsigned_of_nat take_bit_nat_eq_self)
qed

lemma root_functions:
  assumes "main_only g N R" "compile_root_stmts (compile_node d g) g c = Ret ((), c')" "\<not> c_had_error c'" "main_start c"
  shows "img_functions (c_image c') = img_functions (c_image c)"
  by (rule root_stmts_Ret [OF assms]) (auto simp: extends_def grows_def)

lemma interpret_Ret:
  assumes "arc_interpret e fmt g = Ret r" "ir_success r"
  obtains s s' where "root_stmts e fmt g (members (regions g ! root_region g)) interp_start = Ret ((), s)" "\<not> i_had_error s" "ir_output r = i_output s'"
    "output_node g = ARC_INVALID_ID \<and> s' = s \<or>
     output_node g \<noteq> ARC_INVALID_ID \<and> eval_node e fmt g (output_node g) s = Ret (ir_result r, s') \<and> \<not> i_had_error s'"
proof -
  obtain s where 1: "root_stmts e fmt g (members (regions g ! root_region g)) interp_start = Ret ((), s)"
    "andthen (if output_node g \<noteq> ARC_INVALID_ID \<and> \<not> i_had_error s
        then andthen (eval_node e fmt g (output_node g) s) (\<lambda>(v, s). Ret (s\<lparr>i_result := v\<rparr>)) else Ret s)
      (\<lambda>s. Ret \<lparr>ir_result = i_result s, ir_error = (if i_had_error s then i_error s else []), ir_success = (\<not> i_had_error s), ir_output = i_output s\<rparr>) = Ret r"
    using assms(1) unfolding arc_interpret_def andthen_Ret [of "region_at g (root_region g)"] andthen_Ret [of "root_stmts e fmt g _ interp_start"]
    by (auto simp only: region_at_def prod.case split: if_splits)
  show thesis
  proof (cases "output_node g = ARC_INVALID_ID \<or> i_had_error s")
    case True
    then show thesis using that [OF 1(1), of s] 1(2) assms(2) by auto
  next
    case False
    with 1(2) obtain v s' where e: "eval_node e fmt g (output_node g) s = Ret (v, s')" by (auto simp: andthen_Ret)
    with 1(2) False have "r = \<lparr>ir_result = v, ir_error = (if i_had_error s' then i_error s' else []), ir_success = (\<not> i_had_error s'), ir_output = i_output s'\<rparr>" by auto
    then show thesis using that [OF 1(1), of s'] False e assms(2) by simp
  qed
qed

text \<open>At the start nothing is held yet; the machine's frame has a slot for each name.\<close>

lemma start_at:
  assumes e: "entered img (length L) w w0 vm" and L: "numbered L" "length L \<le> 256" "distinct (map fst L)"
    and c: "main_start c" "grows c c'" "c_locals c' = L" "int (length L) + c_max_stack c' \<le> int ARC_STACK_MAX" and p: "placed img c c'"
  shows "at_stmt img L c c' interp_start w0 vm"
proof -
  note e' = e [unfolded entered_def] and c' = c(1) [unfolded main_start_def]
  have "frame_ok L vm" using numbered_slots(2) [OF L] e' by (auto simp: frame_ok_def)
  moreover have "held L interp_start vm" by (simp add: held_def ifind_def interp_start_def)
  moreover have "fits c c' vm" using e' c' c(4) by (simp add: fits_def)
  moreover have "ip vm = of_nat (code_len c)" using e' c' by (simp add: code_len_bytes)
  ultimately show ?thesis using e' c(3) p numbered_slots(1) [OF L] by (simp add: at_stmt_def interp_start_def)
qed

lemma finishes:
  assumes r: "reaches lc img w0 w1" and e: "entered img n w w0 vm0" and v: "now w1 = Some vm" "runs vm" "ip vm = of_nat k" "code_at img k [op_byte OP_HALT]" "ctx w1 = [None]"
  shows "\<exists>f. \<forall>m. arc_vm_run lc img (f + m) (arc_vm_init w) = Finished ARC_OK ((upd w1 (vm\<lparr>ip := of_nat (Suc k), halted := True\<rparr>))\<lparr>ctx := []\<rparr>)"
proof -
  obtain f where f: "\<And>m. vm_loop lc img (f + m) w0 = vm_loop lc img m w1" using r by (auto simp: reaches_def)
  have "arc_vm_run lc img (f + 2 + m) (arc_vm_init w) = vm_loop lc img (Suc (Suc m)) w1" for m
    using e f [of "Suc (Suc m)"] by (simp add: entered_def)
  then show ?thesis using run_halt [OF v] by (intro exI [of _ "f + 2"]) simp
qed

text \<open>The output node, if there is one: its value is printed and stays on the stack.\<close>

definition shows_result :: "libc \<Rightarrow> ArcGraph \<Rightarrow> ArcValue \<Rightarrow> string \<Rightarrow> string \<Rightarrow> ArcValue list \<Rightarrow> ArcValue list \<Rightarrow> bool" where
  "shows_result lc g v t t' xs ys \<longleftrightarrow> (if output_node g = ARC_INVALID_ID then t' = []
     else t' = t @ [CHR 0x0A] \<and> print_value (fmt_g lc) (\<lambda>_. Undef) v = Ret t \<and> ys = xs @ [v])"

lemma output_step:
  assumes m: "main_only g N R" and c: "output_code_of d g c = Ret ((), c')" "\<not> c_had_error c'" "c_enclosing c = []" "arrays_ok c"
    and a: "at_stmt img L c c' s w vm" "out_stream vm = 0"
    and o: "output_node g = ARC_INVALID_ID \<and> s' = s \<or> output_node g \<noteq> ARC_INVALID_ID \<and>
        eval_node e (fmt_g lc) g (output_node g) s = Ret (v, s') \<and> \<not> i_had_error s'"
  shows "s' = s \<and> (\<exists>vm' t t'. reaches lc img w (says (upd w vm') 0 t') \<and> moved vm (code_len c') vm' \<and> shows_result lc g v t t' (operands vm) (operands vm'))"
proof (cases "output_node g = ARC_INVALID_ID")
  case True
  then have "s' = s" "c' = c" using o c(1) by (auto simp: output_code_of_def iret_def)
  moreover have "upd w vm = w" "moved vm (code_len c) vm" using a(1) by (auto simp: at_stmt_def upd_now moved_self)
  ultimately show ?thesis using True by (intro conjI exI [of _ vm] exI [of _ "[]"]) (auto simp: shows_result_def reaches_refl)
next
  case False
  obtain mm where mm: "output_node g \<in> outputs g" "mm \<in> N" "value_from g (output_node g) mm" and p: "pure_nodes g N"
    using m False by (auto simp: main_only_def stmt_regions_def)
  have oc: "ibind (compile_node d g (output_node g)) (\<lambda>_. ibind (emit_op OP_DUP) (\<lambda>_. emit_print)) c = Ret ((), c')"
    using c(1) False by (simp add: output_code_of_def)
  have ev: "eval_node e (fmt_g lc) g (output_node g) s = Ret (v, s')" "\<not> i_had_error s'" using o False by auto
  obtain vm' t where "print_value (fmt_g lc) (\<lambda>_. Undef) v = Ret t" "reaches lc img w (says (upd w vm') 0 (t @ [CHR 0x0A]))"
    "moved vm (code_len c') vm'" "operands vm' = operands vm @ [v]" "s' = s"
    by (rule output_runs [OF p mm(2,1,3) oc c(2-4) ev a(1), unfolded a(2)])
  then show ?thesis using False unfolding shows_result_def by auto
qed

lemma main_vm_upd: "ctx w = [None] \<Longrightarrow> main_vm (upd w vm) = vm"
  by (simp add: upd_def put_vm_def)

lemma ctx_says [simp]: "ctx (says w n t) = ctx w"
  by (simp add: says_def)

lemma result_top: "vm_wf vm \<Longrightarrow> operands vm = xs @ [v] \<Longrightarrow> arc_vm_result (vm\<lparr>ip := k, halted := True\<rparr>) = Ret v"
  using operands_snoc [of vm xs v] by (simp add: arc_vm_result_def)

lemma program_runs:
  assumes m: "main_only g N R" and c: "compile_root_stmts (compile_node d g) g c = Ret ((), c')" "\<not> c_had_error c'" "main_start c"
    and L: "numbered (c_locals c')" "length (c_locals c') \<le> 256" "distinct (map fst (c_locals c'))" "int (length (c_locals c')) + c_max_stack c' \<le> int ARC_STACK_MAX"
    and img: "main_of c' img" "code_len c' < 2 ^ 31" "length (pool_of c') \<le> 2 ^ 16"
    and i: "arc_interpret e (fmt_g lc) g = Ret r" "ir_success r"
  shows "\<exists>f w' t. (\<forall>n. arc_vm_run lc img (f + n) (arc_vm_init w) = Finished ARC_OK w') \<and>
    streams w' = (streams w)(0 := streams w 0 @ ir_output r @ (if output_node g = ARC_INVALID_ID then [] else t @ [CHR 0x0A])) \<and>
    (output_node g \<noteq> ARC_INVALID_ID \<longrightarrow> print_value (fmt_g lc) (\<lambda>_. Undef) (ir_result r) = Ret t \<and> arc_vm_result (main_vm w') = Ret (ir_result r))"
proof (rule root_stmts_Ret [OF m c])
  fix c1 c2
  assume c1: "compile_root_members (compile_node d g) g (members (regions g ! root_region g)) c = Ret ((), c1)" "\<not> c_had_error c1" "arrays_ok c1" "extends c c1"
    and c2: "output_code_of d g c1 = Ret ((), c2)" "\<not> c_had_error c2" "grows c1 c2" "grows c2 c'" "emitted c2 c' = [op_byte OP_HALT]"
    and l: "c_locals c2 = c_locals c1" "c_locals c' = c_locals c1"
  let ?L = "c_locals c'"
  have g1: "grows c c1" using c1(4) by (simp add: extends_def)
  note g = g1 grows_trans [OF g1 c2(3)] grows_trans [OF c2(3,4)] grows_trans [OF g1 grows_trans [OF c2(3,4)]]
  have s0: "code_len c = 0" "arrays_ok c" "c_enclosing c = []" using c(3) by (auto simp: main_start_def code_len_bytes)
  have pl: "placed img c c'" using img s0(1) by (auto simp: main_of_def placed_def code_at_def emitted_def code_len_bytes)
  obtain mr where "items (img_functions img) = [mr]" "code_offset mr = 0" "local_count mr = of_nat (length ?L)" using img(1) by (auto simp: main_of_def)
  then obtain w0 vm0 where en: "entered img (length ?L) w w0 vm0" using main_entered L(2) by blast
  note en' = en [unfolded entered_def]
  have at: "at_stmt img ?L c c' interp_start w0 vm0" by (rule start_at [OF en L(1-3) c(3) g(4) refl L(4) pl])
  show ?thesis
  proof (rule interpret_Ret [OF i])
    fix s s' assume s: "root_stmts e (fmt_g lc) g (members (regions g ! root_region g)) interp_start = Ret ((), s)" "\<not> i_had_error s" "ir_output r = i_output s'"
      and o: "output_node g = ARC_INVALID_ID \<and> s' = s \<or> output_node g \<noteq> ARC_INVALID_ID \<and>
        eval_node e (fmt_g lc) g (output_node g) s = Ret (ir_result r, s') \<and> \<not> i_had_error s'"
    have "does lc img ?L (code_len c1) interp_start s w0 vm0"
      by (rule root_runs [OF _ _ c1(1,2) s0(3,2) s(1,2) at_stmt_sub [OF at g(1,3)]]) (use m in \<open>auto simp: main_only_def\<close>)
    then obtain vm1 t1 where 1: "reaches lc img w0 (says (upd w0 vm1) 0 t1)" "moved vm0 (code_len c1) vm1" "length (operands vm1) = length (operands vm0)"
      "held ?L s vm1" "i_output s = t1" "\<not> i_returned s" using en' by (auto simp: does_def interp_start_def)
    let ?w1 = "says (upd w0 vm1) 0 t1"
    have w1: "now ?w1 = Some vm1" using en' by simp
    have halt: "code_at img (code_len c2) [op_byte OP_HALT]" using placed_split(2) [OF g(2) c2(4) pl] c2(5) by (simp add: placed_def)
    have at1: "at_stmt img ?L c1 c2 s ?w1 vm1"
      by (rule at_stmt_sub [OF at_stmt_next [OF at c1(4) g(3) w1 1(2,3,4,6)] c2(3,4)])
    have o1: "out_stream vm1 = 0" using moved_out [OF 1(2)] en' by simp
    have ce: "c_enclosing c1 = []" using g(1) s0(3) by (simp add: grows_def)
    obtain vm2 t t' where 2: "s' = s" "reaches lc img ?w1 (says (upd ?w1 vm2) 0 t')" "moved vm1 (code_len c2) vm2"
      "shows_result lc g (ir_result r) t t' (operands vm1) (operands vm2)"
      using output_step [OF m c2(1,2) ce c1(3) at1 o1 o] by blast
    let ?w2 = "says (upd w0 vm2) 0 (t1 @ t')"
    have w2: "now ?w2 = Some vm2" "runs vm2" "ip vm2 = of_nat (code_len c2)" "ctx ?w2 = [None]" using en' movedD [OF 2(3)] by auto
    have r: "reaches lc img w0 ?w2" using reaches_trans [OF 1(1) 2(2)] en' by simp
    let ?h = "vm2\<lparr>ip := of_nat (Suc (code_len c2)), halted := True\<rparr>"
    obtain f where f: "\<forall>n. arc_vm_run lc img (f + n) (arc_vm_init w) = Finished ARC_OK ((upd ?w2 ?h)\<lparr>ctx := []\<rparr>)"
      using finishes [OF r en w2(1-3) halt w2(4)] by blast
    have out: "streams ((upd ?w2 ?h)\<lparr>ctx := []\<rparr>) = (streams w)(0 := streams w 0 @ ir_output r @ t')"
      using 1(5) 2(1) s(3) en' by (simp add: says_def)
    have res: "arc_vm_result (main_vm ((upd ?w2 ?h)\<lparr>ctx := []\<rparr>)) = Ret (ir_result r)" if "output_node g \<noteq> ARC_INVALID_ID"
      using 2(4) that result_top [of vm2] w2(2) main_vm_upd [OF w2(4)] by (simp add: shows_result_def runs_def)
    show ?thesis
      using f out res 2(4) by (intro exI [of _ f] exI [of _ "(upd ?w2 ?h)\<lparr>ctx := []\<rparr>"] exI [of _ t]) (auto simp: shows_result_def)
  qed
qed

text \<open>C1. The compiler is correct for programs without functions. Take a graph whose root region and nested regions consist of
  \<^verbatim>\<open>LET\<close>, \<^verbatim>\<open>ASSIGN\<close>, \<^verbatim>\<open>PRINT\<close>, \<^verbatim>\<open>IF\<close> and \<^verbatim>\<open>WHILE\<close> statements over arithmetic, comparison and
  logical expressions, and in which no name is introduced twice. If the compiler reports no error, the simulated stack and the
  variables fit the machine's stack, the code and the constant pool fit their index types, and the reference interpreter
  succeeds, then the machine, started on the compiled image, halts without an error after finitely many steps, with exactly
  the interpreter's output on its output stream, followed by the result when the graph has an output node, and with the
  interpreter's result on top of its stack.\<close>

theorem compile_program_correct:
  assumes m: "main_only g N R" and c: "compile_program d g compiler_init = Ret ((), c)" "\<not> c_had_error c"
    and L: "distinct (map fst (c_locals c))" "int (length (c_locals c)) + c_max_stack c \<le> int ARC_STACK_MAX"
    and img: "code_len c < 2 ^ 31" "length (pool_of c) \<le> 2 ^ 16"
    and i: "arc_interpret e (fmt_g lc) g = Ret r" "ir_success r"
  shows "\<exists>cr f w' t. arc_compile d g = Ret cr \<and> cr_success cr \<and> (\<forall>n. arc_vm_run lc (cr_image cr) (f + n) (arc_vm_init w) = Finished ARC_OK w') \<and>
    streams w' = (streams w)(0 := streams w 0 @ ir_output r @ (if output_node g = ARC_INVALID_ID then [] else t @ [CHR 0x0A])) \<and>
    (output_node g \<noteq> ARC_INVALID_ID \<longrightarrow> print_value (fmt_g lc) (\<lambda>_. Undef) (ir_result r) = Ret t \<and> arc_vm_result (main_vm w') = Ret (ir_result r))"
proof (rule program_Ret [OF _ c])
  show "\<forall>nd \<in> set (nodes g). kind nd \<noteq> ARC_NODE_FUNC_DEF" using m by (simp add: main_only_def)
  show "items (img_functions (c_image c1)) = []" if "compile_root_stmts (compile_node d g) g c0 = Ret ((), c1)" "\<not> c_had_error c1" "main_start c0"
    "items (img_functions (c_image c0)) = []" for c0 c1 using root_functions [OF m that(1-3)] that(4) by simp
  let ?img = "(c_image c)\<lparr>img_code := buf_data (c_code c)\<rparr>"
  fix c0 c1 assume 1: "compile_root_stmts (compile_node d g) g c0 = Ret ((), c1)" "main_start c0" "\<not> c_had_error c1" "c_locals c1 = c_locals c"
    "c_max_stack c1 = c_max_stack c" "main_of c1 ?img"
  have x: "numbered (c_locals c1)" by (rule root_stmts_Ret [OF m 1(1,3,2)]) (use 1(2) in \<open>auto simp: extends_def main_start_def numbered_def\<close>)
  have l: "length (c_locals c1) \<le> 256" using keeps_forward [OF ck_program compiler_init_ok c(1)] 1(4) by (simp add: arrays_ok_def)
  have p: "code_len c1 < 2 ^ 31" "length (pool_of c1) \<le> 2 ^ 16" using 1(6) img by (auto simp: main_of_def cbytes_def pool_of_def code_len_def)
  have cr: "arc_compile d g = Ret \<lparr>cr_image = ?img, cr_errors = c_errors c, cr_success = True\<rparr>" using c by (simp add: arc_compile_def)
  show ?thesis
    using program_runs [OF m 1(1,3,2) x l _ _ 1(6) p i, of w] L cr 1(4,5) by simp
qed

section \<open>A program\<close>

text \<open>\<^verbatim>\<open>let x = 3; if x { print x; x = x - 1 }; output x\<close>\<close>

definition tally_graph :: ArcGraph where
  "tally_graph = \<lparr>
     nodes = map (\<lambda>(i, k, r, ps, a). \<lparr>node_id = i, kind = k, region = r, source_id = 0, node_ports = ps, cyclic_order = [], attr = a\<rparr>)
       [(0, ARC_NODE_LET, 0, [0], AttrName ''x''), (1, ARC_NODE_CONST_INT, 0, [1], AttrInt 3),
        (2, ARC_NODE_IF, 0, [2], AttrBranch 1 ARC_INVALID_ID), (3, ARC_NODE_VAR_REF, 0, [3], AttrName ''x''),
        (4, ARC_NODE_PRINT, 1, [4], AttrZero), (5, ARC_NODE_VAR_REF, 1, [5], AttrName ''x''),
        (6, ARC_NODE_ASSIGN, 1, [6], AttrName ''x''), (7, ARC_NODE_SUB, 1, [7, 8, 9], AttrZero),
        (8, ARC_NODE_CONST_INT, 1, [10], AttrInt 1),
        (9, ARC_NODE_ROOT_OUTPUT, 0, [11], AttrZero), (10, ARC_NODE_VAR_REF, 0, [12], AttrName ''x'')],
     ports = map (\<lambda>(i, ow, d, rl). \<lparr>port_id = i, owner = ow, dir = d, role = Some rl\<rparr>)
       [(0, 0, ARC_PORT_INPUT, ''value''), (1, 1, ARC_PORT_OUTPUT, ''out''), (2, 2, ARC_PORT_INPUT, ''cond''), (3, 3, ARC_PORT_OUTPUT, ''out''),
        (4, 4, ARC_PORT_INPUT, ''value''), (5, 5, ARC_PORT_OUTPUT, ''out''), (6, 6, ARC_PORT_INPUT, ''value''),
        (7, 7, ARC_PORT_INPUT, ''lhs''), (8, 7, ARC_PORT_INPUT, ''rhs''), (9, 7, ARC_PORT_OUTPUT, ''out''),
        (10, 8, ARC_PORT_OUTPUT, ''out''), (11, 9, ARC_PORT_INPUT, ''value''), (12, 10, ARC_PORT_OUTPUT, ''out'')],
     edges = map (\<lambda>(i, f, t). \<lparr>edge_id = i, from_port = f, to_port = t\<rparr>)
       [(0, 1, 0), (1, 3, 2), (2, 5, 4), (3, 9, 6), (4, 5, 7), (5, 10, 8), (6, 12, 11)],
     regions = [\<lparr>region_id = 0, parent = ARC_INVALID_ID, region_kind = ARC_REGION_MODULE, members = [0, 1, 2, 3, 9, 10]\<rparr>,
                \<lparr>region_id = 1, parent = 0, region_kind = ARC_REGION_THEN, members = [4, 5, 6, 7, 8]\<rparr>],
     root_region = 0, output_node = 9, owns_strings = False\<rparr>"

lemma tally_size: "length (nodes tally_graph) = 11" "length (regions tally_graph) = 2" "root_region tally_graph = 0" "output_node tally_graph = 9"
  "members (regions tally_graph ! 0) = [0, 1, 2, 3, 9, 10]" "members (regions tally_graph ! Suc 0) = [4, 5, 6, 7, 8]"
  by (simp_all add: tally_graph_def)

lemma tally_ports:
  "find_port_by_role tally_graph 0 ''value'' ARC_PORT_INPUT = Ret 0" "find_source_node tally_graph 0 = Ret 1"
  "find_port_by_role tally_graph 2 ''cond'' ARC_PORT_INPUT = Ret 2" "find_source_node tally_graph 2 = Ret 3"
  "find_port_by_role tally_graph 4 ''value'' ARC_PORT_INPUT = Ret 4" "find_source_node tally_graph 4 = Ret 5"
  "find_port_by_role tally_graph 6 ''value'' ARC_PORT_INPUT = Ret 6" "find_source_node tally_graph 6 = Ret 7"
  "find_port_by_role tally_graph 7 ''lhs'' ARC_PORT_INPUT = Ret 7" "find_source_node tally_graph 7 = Ret 5"
  "find_port_by_role tally_graph 7 ''rhs'' ARC_PORT_INPUT = Ret 8" "find_source_node tally_graph 8 = Ret 8"
  "find_port_by_role tally_graph 9 ''value'' ARC_PORT_INPUT = Ret 11" "find_source_node tally_graph 11 = Ret 10"
  by (simp_all add: tally_graph_def find_port_by_role_def find_source_node_def node_at_def port_at_def c_streq_def)

definition tally_node :: "nat \<Rightarrow> ArcNode" where
  "tally_node k = nodes tally_graph ! k"

lemma tally_nodes:
  "node_at tally_graph k = (if k < 11 then Ret (tally_node k) else Undef)" "nodes tally_graph ! k = tally_node k"
  "kind (tally_node 0) = ARC_NODE_LET" "kind (tally_node (Suc 0)) = ARC_NODE_CONST_INT" "kind (tally_node 2) = ARC_NODE_IF"
  "kind (tally_node 3) = ARC_NODE_VAR_REF" "kind (tally_node 4) = ARC_NODE_PRINT" "kind (tally_node 5) = ARC_NODE_VAR_REF"
  "kind (tally_node 6) = ARC_NODE_ASSIGN" "kind (tally_node 7) = ARC_NODE_SUB" "kind (tally_node 8) = ARC_NODE_CONST_INT"
  "kind (tally_node 9) = ARC_NODE_ROOT_OUTPUT" "kind (tally_node 10) = ARC_NODE_VAR_REF"
  "attr (tally_node 0) = AttrName ''x''" "attr (tally_node (Suc 0)) = AttrInt 3" "attr (tally_node 2) = AttrBranch (Suc 0) ARC_INVALID_ID"
  "attr (tally_node 3) = AttrName ''x''" "attr (tally_node 5) = AttrName ''x''" "attr (tally_node 6) = AttrName ''x''"
  "attr (tally_node 8) = AttrInt 1" "cyclic_order (tally_node 7) = []" "attr (tally_node 10) = AttrName ''x''" "k < 11 \<Longrightarrow> source_id (tally_node k) = 0"
  by (simp_all add: tally_node_def tally_graph_def node_at_def less_Suc_eq numeral_eq_Suc) (elim disjE; simp)

lemmas compile_eval = ibind_def ilift_def iget_def imod_def iret_def pool_const_def compile_kind_def compile_stmts_def compile_value_port_def
  compile_if_source_def compile_const_def compile_var_ref_def compile_binary_def compile_control_def compile_if_def compile_cond_def role_source_def
  compile_region_from_def region_at_def add_debug_def attr_simps ARC_INVALID_ID_def Let_def is_expr_node_def
  emit_const_def emit_local_def emit_print_def emit_call_def emit_defs emit_jump_def patch_jump_def add_local_def find_local_def c_streq_def
  binary_ports_def try_fold_binary_def is_const_numeric_def code_len_def
  arc_const_pool_add_string_def arc_const_pool_add_i64_def pool_intern_def pool_grow_def arc_image_init_def arc_const_pool_init_def
  compile_program_def compile_root_stmts_def install_main_def add_function_def arc_func_table_add_def dyn_push_def dyn_empty_def grow_cap_def
  arc_func_table_init_def arc_debug_table_init_def compiler_init_def

lemma andthen_weak: "m = m' \<Longrightarrow> andthen m k = andthen m' k"
  by simp

lemma tally_functions: "each_function f tally_graph [0..<11] c = Ret ((), c)"
  using no_functions [of tally_graph "[0..<11]" f c] by (simp add: tally_graph_def)

definition tally_ok :: "Compiler \<Rightarrow> bool" where
  "tally_ok c \<longleftrightarrow> \<not> c_had_error c \<and> distinct (map fst (c_locals c)) \<and> int (length (c_locals c)) + c_max_stack c \<le> int ARC_STACK_MAX \<and>
     code_len c < 2 ^ 31 \<and> length (pool_of c) \<le> 2 ^ 16"

lemma tally_compiles: "\<exists>c'. compile_program (Suc (Suc (Suc (Suc 0)))) tally_graph compiler_init = Ret ((), c') \<and> tally_ok c'"
  by (simp add: tally_nodes tally_size tally_ports [simplified] tally_functions compile_eval tally_ok_def pool_of_def ARC_STACK_MAX_def cong: andthen_weak option.case_cong_weak)

lemma tally_digits: "dec_digits 3 = ''3''" "dec_digits 2 = ''2''"
  by (simp_all add: dec_digits.simps [of 3] dec_digits.simps [of 2] char_of_def bit_Suc_0_iff)

lemma tally_interpreted: "\<exists>r. arc_interpret (Suc (Suc (Suc (Suc (Suc 0))))) f tally_graph = Ret r \<and> ir_success r \<and> ir_output r = ''3'' @ [CHR 0x0A] \<and> ir_result r = VAL_I64 2"
  by (simp add: arc_interpret_def tally_graph_def interp_eval root_stmt_def interp_start_def  print_line_def print_value_def assign_var_def put_var_def
  eval_arith_def eval_binary_lhs_rhs_def arith_value_def ii64_def dec_int_def c_i64_def in_i64_def tally_digits cong: andthen_weak)

lemma tally_inputs: "p \<in> node_inputs tally_graph (tally_node 7) \<Longrightarrow> p = 7 \<or> p = 8 \<or> p = 9" "find_source_node tally_graph 9 = Ret ARC_INVALID_ID"
    "find_source_node tally_graph ARC_INVALID_ID = Ret ARC_INVALID_ID"
  by (auto simp: tally_graph_def find_source_node_def node_inputs_def tally_node_def ARC_INVALID_ID_def)

lemma tally_pure: "pure_nodes tally_graph {1, 3, 5, 7, 8, 10}"
proof -
  have "m = ARC_INVALID_ID \<or> m \<in> {1, 3, 5, 7, 8, 10}" if "p \<in> node_inputs tally_graph (tally_node 7)" "find_source_node tally_graph p = Ret m" for p m
    using that tally_inputs(1) [OF that(1)] by (elim disjE) (simp_all add: tally_inputs(2) tally_ports)
  then have "\<forall>p \<in> node_inputs tally_graph (tally_node 7). \<forall>m. find_source_node tally_graph p = Ret m \<longrightarrow> m = ARC_INVALID_ID \<or> m \<in> {1, 3, 5, 7, 8, 10}"
    by blast
  then show ?thesis by (simp add: pure_nodes_def tally_inputs(3) tally_nodes tally_size leaf_kind_def operator_kind_def)
qed

lemma tally_main: "main_only tally_graph {1, 3, 5, 7, 8, 10} {1}"
  unfolding main_only_def stmt_regions_def
proof (intro conjI tally_pure)
  show "\<forall>nd\<in>set (nodes tally_graph). kind nd \<noteq> ARC_NODE_FUNC_DEF" by (simp add: tally_graph_def)
qed (simp_all add: tally_nodes tally_size tally_ports [simplified] outputs_def stmt_ok_def value_from_def cond_from_def Let_def attr_simps ARC_INVALID_ID_def)

interpretation tally: parts "compile_node d tally_graph" tally_graph "{1, 3, 5, 7, 8, 10}" "{1}" for d
  using tally_main by (intro parts_node) (simp add: main_only_def)

theorem compile_program_correct_witness:
  "\<exists>cr f w'. arc_compile (Suc (Suc (Suc (Suc 0)))) tally_graph = Ret cr \<and>
     (\<forall>n. arc_vm_run demo_libc (cr_image cr) (f + n) (arc_vm_init (demo_world [])) = Finished ARC_OK w') \<and>
     streams w' 0 = ''3'' @ [CHR 0x0A] @ ''2'' @ [CHR 0x0A] \<and> arc_vm_result (main_vm w') = Ret (VAL_I64 2)"
proof -
  obtain c where c: "compile_program (Suc (Suc (Suc (Suc 0)))) tally_graph compiler_init = Ret ((), c)" "\<not> c_had_error c" "distinct (map fst (c_locals c))"
    "int (length (c_locals c)) + c_max_stack c \<le> int ARC_STACK_MAX" "code_len c < 2 ^ 31" "length (pool_of c) \<le> 2 ^ 16"
    using tally_compiles unfolding tally_ok_def by blast
  obtain r where r: "arc_interpret (Suc (Suc (Suc (Suc (Suc 0))))) (fmt_g demo_libc) tally_graph = Ret r" "ir_success r" "ir_output r = ''3'' @ [CHR 0x0A]" "ir_result r = VAL_I64 2"
    using tally_interpreted by blast
  have t: "print_value (fmt_g demo_libc) (\<lambda>_. Undef) (VAL_I64 2) = Ret ''2''" by (simp add: print_value_def dec_int_def tally_digits)
  have o: "output_node tally_graph \<noteq> ARC_INVALID_ID" "streams (demo_world []) 0 = []" by (simp_all add: tally_size ARC_INVALID_ID_def demo_world_def)
  obtain cr f w' where "arc_compile (Suc (Suc (Suc (Suc 0)))) tally_graph = Ret cr"
    "\<forall>n. arc_vm_run demo_libc (cr_image cr) (f + n) (arc_vm_init (demo_world [])) = Finished ARC_OK w'"
    "streams w' = (streams (demo_world []))(0 := ''3'' @ [CHR 0x0A] @ ''2'' @ [CHR 0x0A])" "arc_vm_result (main_vm w') = Ret (VAL_I64 2)"
    using compile_program_correct [OF tally_main c r(1,2), of "demo_world []"] r(3,4) t o by auto
  then show ?thesis by (intro exI [of _ cr] exI [of _ f] exI [of _ w']) simp
qed

end
