(* ===== verification/Compile_Closures.thy ===== *)
theory Compile_Closures
  imports Compile_Program
begin

text \<open>
  The compiler on closures: the code of a function value stands in the middle of the code that creates it.
\<close>

section \<open>A closure of an empty function\<close>

definition nop_graph :: ArcGraph where
  "nop_graph = \<lparr>
     nodes = map (\<lambda>(i, k, r, ps, a). \<lparr>node_id = i, kind = k, region = r, source_id = 0, node_ports = ps, cyclic_order = [], attr = a\<rparr>)
       [(0, ARC_NODE_FUNC_DEF, 0, [2], AttrFunc ''nop'' 1 0), (1, ARC_NODE_CLOSURE, 0, [0, 1], AttrFunc ''nop'' 1 0),
        (2, ARC_NODE_CONST_INT, 0, [3], AttrInt 7), (3, ARC_NODE_ROOT_OUTPUT, 0, [4], AttrZero)],
     ports = map (\<lambda>(i, ow, d, rl). \<lparr>port_id = i, owner = ow, dir = d, role = Some rl\<rparr>)
       [(0, 1, ARC_PORT_INPUT, ''func''), (1, 1, ARC_PORT_OUTPUT, ''out''), (2, 0, ARC_PORT_OUTPUT, ''out''), (3, 2, ARC_PORT_OUTPUT, ''out''),
        (4, 3, ARC_PORT_INPUT, ''value'')],
     edges = [\<lparr>edge_id = 0, from_port = 2, to_port = 0\<rparr>, \<lparr>edge_id = 1, from_port = 3, to_port = 4\<rparr>],
     regions = [\<lparr>region_id = 0, parent = ARC_INVALID_ID, region_kind = ARC_REGION_MODULE, members = [0, 1, 2, 3]\<rparr>,
                \<lparr>region_id = 1, parent = 0, region_kind = ARC_REGION_FUNCTION, members = []\<rparr>],
     root_region = 0, output_node = 3, owns_strings = False\<rparr>"

lemmas nop_bytes = opcode_of_op_byte [of OP_CONST, simplified] opcode_of_op_byte [of OP_RETURN, simplified] opcode_of_op_byte [of OP_CLOSURE, simplified]
  opcode_of_op_byte [of OP_DUP, simplified] opcode_of_op_byte [of OP_INTRINSIC, simplified] opcode_of_op_byte [of OP_HALT, simplified]

definition nop_image :: ArcBytecodeImage where
  "nop_image = \<lparr>
     img_constants = \<lparr>items = [ARC_CONST_STRING ''main'', ARC_CONST_STRING ''nop'', ARC_CONST_NULL, ARC_CONST_I64 7], cap = 16\<rparr>,
     img_functions = \<lparr>items =
       [\<lparr>name_const_idx = 0, arity = 0, local_count = 0, max_stack = 3, code_offset = 0, code_length = 17, upvalues = []\<rparr>,
        \<lparr>name_const_idx = 1, arity = 0, local_count = 0, max_stack = 1, code_offset = 0, code_length = 4, upvalues = []\<rparr>], cap = 8\<rparr>,
     img_code = (op_byte OP_CONST # le_u16 2) @ [op_byte OP_RETURN] @ (op_byte OP_CLOSURE # le_u16 1) @ (op_byte OP_CONST # le_u16 3) @
       op_byte OP_DUP # print_bytes @ [op_byte OP_HALT],
     img_debug = \<lparr>items = [], cap = 0\<rparr>\<rparr>"

lemma nop_compiles: "arc_compile (Suc (Suc (Suc 0))) nop_graph = Ret \<lparr>cr_image = nop_image, cr_errors = [], cr_success = True\<rparr>"
  by (simp add: nop_graph_def nop_image_def print_bytes_def arc_compile_def compile_eval is_closure_target_def upt_rec find_port_by_role_def find_source_node_def
    node_at_def port_at_def compile_closure_def compile_function_def name_const_def new_func_def set_function_def arc_const_pool_add_null_def emit_u16_op_def
    track_stack_def patch_calls_for_main_def nop_bytes index_of_def names_function_def le_u16_def
    cong: andthen_weak option.case_cong_weak)

lemma run_return_main:
  assumes w: "now w = Some vm" "runs vm" "ip vm = of_nat n" "code_at img n [op_byte OP_RETURN]" "operands vm = xs @ [v]"
    and f: "fp vm = 1" "local_at vm 0 = 0" "open_upvalues vm = []" "ctx w = [None]"
  shows "\<exists>w'. \<forall>m. vm_loop lc img (Suc (Suc m)) w = Finished ARC_OK w' \<and> streams w' = streams w \<and> arc_vm_result (main_vm w') = Ret v"
proof -
  let ?u = "vm\<lparr>ip := of_nat (Suc n)\<rparr>" and ?t = "vm\<lparr>ip := of_nat (Suc n), sp := sp vm - 1\<rparr>"
  let ?h = "vm\<lparr>ip := of_nat (Suc n), open_upvalues := [], fp := 0, stack := (stack vm)[0 := v], sp := 1, halted := True\<rparr>"
  have u: "now (upd w ?u) = Some ?u" "vm_wf ?u" "operands ?u = xs @ [v]" using w by (auto simp: runs_def vm_wf_def)
  have p: "vm_pop (upd w ?u) = VRet v (upd w ?t)" using run_pop_snoc [OF u] w(1) by simp
  have b: "base_slot (frames vm ! 0) = 0" using f(1,2) by (simp add: local_at_def unat_eq_0)
  have wf: "0 < length (stack vm)" "length (frames vm) = ARC_FRAMES_MAX" using w(2) by (auto simp: runs_def vm_wf_def arc_max_defs)
  have t: "now (upd w ?t) = Some ?t" "fp ?t = 1" "unat (0 :: u32) \<le> ARC_STACK_MAX" using w(1) f(1) by simp_all
  have "vm_exec_return (upd w ?u) = VRet () (upd w ?h)"
    unfolding vm_exec_return_def run_bind [of vm_pop, OF p]
    using t(1,2) w(1) f b wf
    by (simp add: top_frame_def close_from_def me_def vbind_def run_cur run_setcur run_modcur run_push vguard_def vret_def arc_max_defs del: of_nat_Suc)
  then have "vm_dispatch lc img (op_byte OP_RETURN) (of_nat n) (upd w ?u) = VRet () (upd w ?h)"
    by (simp add: vm_dispatch_def del: op_byte.simps of_nat_Suc)
  then have "vm_round lc img w = VRet () (upd w ?h)"
    using run_round [OF w(1), of img lc] code_at_hd [OF w(4)] w(2,3) by (simp add: runs_def add.commute)
  then have "vm_step lc img w = Running (upd w ?h)" using run_step(1) [OF w(1)] w(2) by (simp add: runs_def)
  moreover have "vm_step lc img (upd w ?h) = Finished ARC_OK ((upd w ?h)\<lparr>ctx := []\<rparr>)"
    using now_upd [of w ?h] w(1) f(4) by (simp add: vm_step_def now_def)
  moreover have "arc_vm_result ?h = Ret v" using wf by (simp add: arc_vm_result_def arc_max_defs)
  ultimately show ?thesis using main_vm_upd [OF f(4), of ?h] by (intro exI [of _ "(upd w ?h)\<lparr>ctx := []\<rparr>"]) simp
qed

text \<open>C33. The code of a closure is executed as part of the code around it. The body of the function a closure node refers to is
  compiled into the code of the function that creates the closure, right before the instruction that creates it, and no jump
  leads around it. In the graph of the test \<^verbatim>\<open>test_closure_target_skipped\<close>, a closure of a function with an empty body and
  a program that outputs 7, compilation succeeds, and the machine returns from the main function before it creates the closure:
  it prints nothing and its result is null.\<close>

theorem closure_body_runs_inline:
  "\<exists>cr w' f. arc_compile (Suc (Suc (Suc 0))) nop_graph = Ret cr \<and> cr_success cr \<and>
     (\<forall>n. arc_vm_run lc (cr_image cr) (f + n) (arc_vm_init w) = Finished ARC_OK w') \<and> streams w' = streams w \<and> arc_vm_result (main_vm w') = Ret VAL_NULL"
proof -
  obtain w0 vm where e: "entered nop_image 0 w w0 vm"
    using main_entered [of nop_image _ _ 0 w] by (auto simp: nop_image_def)
  note e' = e [unfolded entered_def]
  have code: "code_at nop_image 0 (op_byte OP_CONST # le_u16 (of_nat 2))" "code_at nop_image 3 [op_byte OP_RETURN]"
    by (simp_all add: code_at_def nop_image_def print_bytes_def le_u16_def)
  obtain vm1 where 1: "reaches lc nop_image w0 (upd w0 vm1)" "moved vm (0 + 3) vm1" "operands vm1 = [VAL_NULL]"
    using run_const [OF _ _ _ code(1), of w0 vm VAL_NULL lc] e' by (auto simp: nop_image_def arc_max_defs)
  have "open_upvalues vm1 = open_upvalues vm" using 1(2) unfolding moved_def same_but_stack_def by (cases vm1, cases vm) simp
  then have v1: "now (upd w0 vm1) = Some vm1" "runs vm1" "ip vm1 = of_nat 3" "fp vm1 = 1" "local_at vm1 0 = 0" "open_upvalues vm1 = []"
    using e' movedD [OF 1(2)] local_at_moved [OF 1(2)] by auto
  obtain w' where w': "\<And>m. vm_loop lc nop_image (Suc (Suc m)) (upd w0 vm1) = Finished ARC_OK w'" "streams w' = streams w" "arc_vm_result (main_vm w') = Ret VAL_NULL"
    using run_return_main [OF v1(1-3) code(2) _ v1(4-6), of "[]" VAL_NULL lc] 1(3) e' by auto
  obtain k where "\<And>m. vm_loop lc nop_image (k + m) w0 = vm_loop lc nop_image m (upd w0 vm1)" using 1(1) by (auto simp: reaches_def)
  then have "arc_vm_run lc nop_image (k + 2 + m) (arc_vm_init w) = Finished ARC_OK w'" for m
    using e' w'(1) [of m] by (metis add.assoc add_2_eq_Suc)
  then show ?thesis using nop_compiles w'(2,3)
    by (intro exI [of _ "\<lparr>cr_image = nop_image, cr_errors = [], cr_success = True\<rparr>"] exI [of _ w'] exI [of _ "k + 2"]) simp
qed

end
