(* ===== verification/Spec2Isabelle.thy ===== *)
theory Spec2Isabelle
  imports Bytecode_Format Bytecode_Verifier Arc_Scope Arc_Arena VM_Run Typecheck Compile_Closures
begin

text \<open>
  Verification of the Arcana system, a compiler and virtual machine for a graph-based language.
\<close>

section \<open>The verifier and the machine\<close>

text \<open>The main function calls a function of one argument with nothing on the stack.\<close>

definition bad_call :: ArcBytecodeImage where
  "bad_call = arc_image_init\<lparr>
     img_functions := \<lparr>items =
       [\<lparr>name_const_idx = 0, arity = 0, local_count = 0, max_stack = 1, code_offset = 0, code_length = 6, upvalues = []\<rparr>,
        \<lparr>name_const_idx = 0, arity = 1, local_count = 1, max_stack = 1, code_offset = 6, code_length = 4, upvalues = []\<rparr>], cap = 8\<rparr>,
     img_code := [op_byte OP_CALL, 1, 0, 1, 0, op_byte OP_HALT, op_byte OP_LOAD_LOCAL, 0, 0, op_byte OP_RETURN]\<rparr>"

lemmas bad_call_bytes = opcode_of_op_byte [of OP_CALL, simplified] opcode_of_op_byte [of OP_RETURN, simplified]
  opcode_of_op_byte [of OP_HALT, simplified] opcode_of_op_byte [of OP_LOAD_LOCAL, simplified]

lemma bad_call_accepted: "arc_verify bad_call = Ret \<lparr>ve_errors = [], ve_valid = True\<rparr>"
  by (simp add: verify_eval bad_call_def bad_call_bytes)

lemma run_if: "(if c then m else m') w = (if c then m w else m' w)"
  by simp

lemma run_call_dispatch:
  "vm_dispatch lc img (op_byte OP_CALL) i = vm_exec_call img"
  "vm_dispatch lc img (op_byte OP_LOAD_LOCAL) i = vm_exec_stack_local_global img OP_LOAD_LOCAL"
  by (simp_all add: vm_dispatch_def del: op_byte.simps)

lemma bad_call_breaks: "arc_vm_run lc bad_call (Suc (Suc n)) (arc_vm_init w) = Broken"
proof -
  define vm0 where "vm0 = zero_vm\<lparr>frames := (frames zero_vm)[0 := \<lparr>fr_func_idx = 0, return_ip = 0, base_slot = 0\<rparr>], fp := 1\<rparr>"
  define w0 where "w0 = (arc_vm_init w)\<lparr>ctx := [None], main_vm := vm0\<rparr>"
  define vm1 where "vm1 = vm0\<lparr>frames := (frames vm0)[1 := \<lparr>fr_func_idx = 1, return_ip = 5, base_slot = - 1\<rparr>], fp := 2, ip := 6\<rparr>"
  have code: "img_code bad_call = [op_byte OP_CALL, 1, 0, 1, 0, op_byte OP_HALT, op_byte OP_LOAD_LOCAL, 0, 0, op_byte OP_RETURN]"
    by (simp add: bad_call_def)
  have funs: "items (img_functions bad_call) =
       [\<lparr>name_const_idx = 0, arity = 0, local_count = 0, max_stack = 1, code_offset = 0, code_length = 6, upvalues = []\<rparr>,
        \<lparr>name_const_idx = 0, arity = 1, local_count = 1, max_stack = 1, code_offset = 6, code_length = 4, upvalues = []\<rparr>]"
    by (simp add: bad_call_def)
  have vm0: "sp vm0 = 0" "fp vm0 = 1" "ip vm0 = 0" "halted vm0 = False" "trace vm0 = False"
    "length (frames vm0) = 256" by (simp_all add: vm0_def zero_vm_def arc_max_defs)
  have vm1: "sp vm1 = 0" "fp vm1 = 2" "ip vm1 = 6" "halted vm1 = False" "trace vm1 = False"
    "frames vm1 ! 1 = \<lparr>fr_func_idx = 1, return_ip = 5, base_slot = - 1\<rparr>" using vm0 by (simp_all add: vm1_def)
  have n0: "now w0 = Some vm0" and c0: "ctx w0 = [None]" by (simp_all add: w0_def now_def get_vm_def)
  have start: "vm_setup_main bad_call ((arc_vm_init w)\<lparr>ctx := [None]\<rparr>) = VRet () w0"
    by (simp add: vm_setup_main_def funs vbind_def arc_vm_init_def cur_def me_def vm_of_def
        get_vm_def vlift_def entry_vm_def vret_def setcur_def set_vm_def put_vm_def w0_def vm0_def zero_vm_def)
  have "call_at bad_call (vm0\<lparr>ip := 1\<rparr>) 1 1" by (simp add: call_at_def code arc_read_u16_def)
  then have "vm_exec_call bad_call (upd w0 (vm0\<lparr>ip := 1\<rparr>)) = VRet () (upd w0 vm1)"
    using n0 vm0 unfolding vm_exec_call_def
    by (subst run_call_operands [of _ "vm0\<lparr>ip := 1\<rparr>" bad_call 1 1])
      (simp, assumption, simp add: resolve_callee_def vbind_def run_cur run_setcur run_modcur vret_def funs arc_max_defs vm1_def Let_def run_if)
  then have "vm_step lc bad_call w0 = Running (upd w0 vm1)"
    using n0 vm0 run_call_dispatch(1) by (intro run_step(1)) (simp_all add: run_round code del: op_byte.simps)
  moreover have "vm_exec_stack_local_global bad_call OP_LOAD_LOCAL (upd w0 (vm1\<lparr>ip := 7\<rparr>)) = VUndef"
    using n0 vm1 by (simp add: vm_exec_stack_local_global_def vm_read_u16_def vbind_def run_cur run_setcur vguard_def vret_def
        code arc_read_u16_def top_frame_def stack_at_def arc_max_defs unsigned_minus_1_eq_mask mask_eq_exp_minus_1)
  then have "vm_step lc bad_call (upd w0 vm1) = Broken"
    using n0 vm1 run_call_dispatch(2) by (intro run_step(2)) (simp_all add: run_round code del: op_byte.simps)
  ultimately show ?thesis using start by (simp add: arc_vm_run_def Let_def)
qed

text \<open>C28. The verifier does not check the number of arguments of a call. An image whose main function calls
  a function of one argument on an empty stack is accepted without errors, and two instructions later
  the machine reads outside its stack: the call computes the base of the new frame as 0 - 1 in 32 bits.\<close>

theorem verified_call_out_of_bounds:
  "arc_verify bad_call = Ret \<lparr>ve_errors = [], ve_valid = True\<rparr> \<and>
   arc_vm_run lc bad_call (Suc (Suc n)) (arc_vm_init w) = Broken"
  using bad_call_accepted bad_call_breaks by blast



end
